(* ===== verification/Prelude.thy ===== *)
theory Prelude
  imports Main "HOL-Library.Word"
begin

text \<open>
  Shared vocabulary of the development: the errors a C operation can end in, the result
  type that carries them, the collections of simplification rules the components add to,
  and generic facts on lists and words that several components use.
\<close>

section \<open>Results and errors\<close>

text \<open>
  What the C code does when it leaves the defined part of the language, or aborts, is a
  value of the model. \<open>NullDeref\<close>: a null pointer is read through. \<open>BadPointer\<close>: a
  pointer to no live object is read through. \<open>OutOfBounds\<close>: an array is read or written
  past its end. \<open>AssertFail\<close>: an \<open>assert\<close> fails. \<open>OutOfFuel\<close>: a recursion over the heap went deeper than there
  are blocks, which a structure without cycles never does.
\<close>

datatype c_error = NullDeref | BadPointer | OutOfBounds | AssertFail | OutOfFuel

type_synonym 'a c_result = "c_error + 'a"

text \<open>Sequencing of fallible operations: the first error ends the computation.\<close>

definition c_bind :: "'a c_result \<Rightarrow> ('a \<Rightarrow> 'b c_result) \<Rightarrow> 'b c_result" where
  "c_bind r f = (case r of Inl e \<Rightarrow> Inl e | Inr x \<Rightarrow> f x)"

named_theorems c_simps \<open>evaluation of the C-level primitives\<close>
named_theorems layout_simps \<open>reads and writes of bytes at offsets\<close>

lemma c_bind_Inl [simp, c_simps]: "c_bind (Inl e) f = Inl e"
  and c_bind_Inr [simp, c_simps]: "c_bind (Inr x) f = f x"
  by (simp_all add: c_bind_def)

lemma c_bind_assoc: "c_bind (c_bind r f) g = c_bind r (\<lambda>x. c_bind (f x) g)"
  by (cases r) simp_all

lemma c_bind_eq_Inr: "c_bind r f = Inr y \<longleftrightarrow> (\<exists>x. r = Inr x \<and> f x = Inr y)"
  by (cases r) auto

lemma c_bind_split: "P (c_bind r f) \<longleftrightarrow> (\<forall>e. r = Inl e \<longrightarrow> P (Inl e)) \<and> (\<forall>x. r = Inr x \<longrightarrow> P (f x))"
  by (cases r) auto

section \<open>Ends of a program\<close>

text \<open>The program goes on, leaves its loop, has ended with a status, or leaves the defined part of the language.\<close>

datatype 'a program = Going 'a | Leaving | Exited nat | Crashed c_error

definition die :: "bool \<Rightarrow> 'a program \<Rightarrow> 'a program" where
  "die failed rest = (if failed then Exited 1 else rest)"

section \<open>Lists\<close>

lemma take_Suc_nth: "i < length xs \<Longrightarrow> take (Suc 0) (drop i xs) = [xs ! i]"
  by (simp add: take_Suc_conv_app_nth)

lemma length_2_conv: "length xs = 2 \<longleftrightarrow> (\<exists>a b. xs = [a, b])"
  by (auto simp: numeral_2_eq_2 length_Suc_conv)

lemma length_4_conv: "length xs = 4 \<longleftrightarrow> (\<exists>a b c d. xs = [a, b, c, d])"
  by (auto simp: numeral_eq_Suc length_Suc_conv)

lemma sum_list_le_bound:
  fixes xs :: "nat list"
  assumes "\<And>x. x \<in> set xs \<Longrightarrow> x \<le> c"
  shows "sum_list xs \<le> c * length xs"
  using assms by (induction xs) (auto simp: add_mono)

section \<open>Words\<close>

lemma unat_of_nat_small: "n < 2 ^ LENGTH('a) \<Longrightarrow> unat (word_of_nat n :: 'a::len word) = n"
  by (simp add: unat_of_nat take_bit_nat_eq_self_iff)

lemma unat_byte_less [simp]: "unat (b :: 8 word) < 256"
  using unsigned_less [of b] by simp

lemma unat_byte_le: "unat (b :: 8 word) \<le> 255"
  using unat_byte_less [of b] by linarith

lemma unat_16_less [simp]: "unat (w :: 16 word) < 65536"
  using unsigned_less [of w] by simp

lemma unat_32_less [simp]: "unat (w :: 32 word) < 4294967296"
  using unsigned_less [of w] by simp

end
