(* ===== verification/CMem.thy ===== *)
theory CMem
  imports Prelude
begin

text \<open>
  Memory as bytes: little-endian loads and stores of 16- and 32-bit integers (the program
  runs on a little-endian host), the byte-order conversions of \<open>arpa/inet.h\<close>, and
  \<open>memcpy\<close> into a buffer at an offset.
\<close>

unbundle bit_operations_syntax

type_synonym byte = "8 word"
type_synonym bytes = "byte list"

section \<open>Integers in memory\<close>

definition byte_at :: "'a::len word \<Rightarrow> nat \<Rightarrow> byte" where
  "byte_at w i = ucast (drop_bit (8 * i) w)"

definition put16 :: "16 word \<Rightarrow> bytes" where
  "put16 w = [byte_at w 0, byte_at w 1]"

definition put32 :: "32 word \<Rightarrow> bytes" where
  "put32 w = [byte_at w 0, byte_at w 1, byte_at w 2, byte_at w 3]"

fun le16 :: "bytes \<Rightarrow> 16 word" where
  "le16 (a # b # _) = word_of_nat (unat a + 256 * unat b)"
| "le16 _ = 0"

fun le32 :: "bytes \<Rightarrow> 32 word" where
  "le32 (a # b # c # d # _) =
     word_of_nat (unat a + 256 * (unat b + 256 * (unat c + 256 * unat d)))"
| "le32 _ = 0"

text \<open>\<open>htons\<close>/\<open>ntohs\<close> and \<open>htonl\<close>/\<open>ntohl\<close> reverse the bytes on this host.\<close>

definition htons :: "16 word \<Rightarrow> 16 word" where
  "htons w = le16 (rev (put16 w))"

definition htonl :: "32 word \<Rightarrow> 32 word" where
  "htonl w = le32 (rev (put32 w))"

abbreviation ntohs :: "16 word \<Rightarrow> 16 word" where "ntohs \<equiv> htons"
abbreviation ntohl :: "32 word \<Rightarrow> 32 word" where "ntohl \<equiv> htonl"

lemma length_put16 [simp, layout_simps]: "length (put16 w) = 2"
  by (simp add: put16_def)

lemma length_put32 [simp, layout_simps]: "length (put32 w) = 4"
  by (simp add: put32_def)

lemma unat_byte_at: "unat (byte_at w i) = (unat w div 256 ^ i) mod 256"
proof -
  have "(2::nat) ^ (8 * i) = 256 ^ i"
    by (simp add: power_mult)
  then show ?thesis
    by (simp only: byte_at_def unsigned_ucast_eq unat_drop_bit_eq take_bit_eq_mod)
      (simp add: drop_bit_eq_div)
qed

lemma digit_mod: "a < 256 \<Longrightarrow> (a + 256 * x) mod 256 = (a::nat)"
  and digit_div: "a < 256 \<Longrightarrow> (a + 256 * x) div 256 = (x::nat)"
  by simp_all

lemma div_256_powers:
  "n div 65536 = n div 256 div (256::nat)" "n div 16777216 = n div 256 div 256 div (256::nat)"
  by (simp_all add: div_mult2_eq [symmetric])

lemma digits_bound:
  "a < 256 \<Longrightarrow> x < n \<Longrightarrow> a + 256 * x < 256 * (n::nat)"
  by linarith

lemma unat_le16: "unat (le16 [a, b]) = unat a + 256 * unat b"
proof -
  have "unat a + 256 * unat b < 65536"
    using unat_byte_le [of a] unat_byte_le [of b] by linarith
  then have "unat a + 256 * unat b < 2 ^ LENGTH(16)"
    by simp
  then show ?thesis
    by (simp only: le16.simps unat_of_nat_small)
qed

lemma unat_le32:
  "unat (le32 [a, b, c, d]) = unat a + 256 * (unat b + 256 * (unat c + 256 * unat d))"
proof -
  have "unat a + 256 * unat b + 65536 * unat c + 16777216 * unat d < 4294967296"
    using unat_byte_le [of a] unat_byte_le [of b] unat_byte_le [of c] unat_byte_le [of d]
    by linarith
  then have "unat a + 256 * (unat b + 256 * (unat c + 256 * unat d)) < 2 ^ LENGTH(32)"
    by simp
  then show ?thesis
    by (simp only: le32.simps unat_of_nat_small)
qed

declare le16.simps [simp del] le32.simps [simp del]

lemma put16_le16 [simp, layout_simps]: "put16 (le16 [a, b]) = [a, b]"
  by (simp add: put16_def word_unat_eq_iff unat_byte_at unat_le16 digit_mod digit_div)

lemma put32_le32 [simp, layout_simps]: "put32 (le32 [a, b, c, d]) = [a, b, c, d]"
  by (simp add: put32_def word_unat_eq_iff unat_byte_at unat_le32 digit_mod digit_div
      div_256_powers power2_eq_square power3_eq_cube del: distrib_left_numeral)

lemma le16_put16 [simp, layout_simps]: "le16 (put16 w) = w"
proof -
  have "unat w div 256 < 256"
    using unat_16_less [of w] by (simp add: less_mult_imp_div_less)
  then show ?thesis
    by (simp add: put16_def word_unat_eq_iff unat_byte_at unat_le16)
qed

lemma le32_put32 [simp, layout_simps]: "le32 (put32 w) = w"
proof -
  have "unat w div 256 div 256 div 256 < 256"
    using unat_32_less [of w] by (simp add: less_mult_imp_div_less)
  then show ?thesis
    by (simp add: put32_def word_unat_eq_iff unat_byte_at unat_le32 div_256_powers
        power2_eq_square power3_eq_cube del: distrib_left_numeral)
qed

lemma le16_byte_at [simp, layout_simps]: "le16 [byte_at w 0, byte_at w (Suc 0)] = w"
  using le16_put16 [of w] by (simp add: put16_def)

lemma le32_byte_at [simp, layout_simps]:
  "le32 [byte_at w 0, byte_at w (Suc 0), byte_at w 2, byte_at w 3] = w"
  using le32_put32 [of w] by (simp add: put32_def)

lemma htons_le16 [layout_simps]: "htons (le16 [a, b]) = le16 [b, a]"
  by (simp add: htons_def)

lemma htonl_le32 [layout_simps]: "htonl (le32 [a, b, c, d]) = le32 [d, c, b, a]"
  by (simp add: htonl_def)

lemma put16_cases: obtains a b where "w = le16 [a, b]"
  by (metis le16_put16 put16_def)

lemma put32_cases: obtains a b c d where "w = le32 [a, b, c, d]"
  by (metis le32_put32 put32_def)

lemma htons_htons [simp]: "htons (htons w) = w"
  by (cases w rule: put16_cases) (simp add: htons_le16)

lemma htonl_htonl [simp]: "htonl (htonl w) = w"
  by (cases w rule: put32_cases) (simp add: htonl_le32)

lemma htons_eq_iff [simp]: "htons v = htons w \<longleftrightarrow> v = w"
  by (metis htons_htons)

lemma unat_htons: "unat (htons w) = 256 * (unat w mod 256) + unat w div 256"
proof (cases w rule: put16_cases)
  case (1 a b)
  then show ?thesis by (simp add: htons_le16 unat_le16 digit_mod digit_div)
qed

lemma htons_eval: "htons w = word_of_nat (256 * (unat w mod 256) + unat w div 256)"
  by (metis unat_htons of_nat_unat ucast_id)

lemma put16_eq_iff: "put16 v = put16 w \<longleftrightarrow> v = w"
  by (metis le16_put16)

lemma put32_eq_iff: "put32 v = put32 w \<longleftrightarrow> v = w"
  by (metis le32_put32)

section \<open>Reads and writes in a buffer\<close>

definition get_bytes :: "bytes \<Rightarrow> nat \<Rightarrow> nat \<Rightarrow> bytes" where
  "get_bytes p i n = take n (drop i p)"

text \<open>\<open>memcpy(p + i, bs, length bs)\<close>.\<close>

definition put_bytes :: "bytes \<Rightarrow> nat \<Rightarrow> bytes \<Rightarrow> bytes" where
  "put_bytes p i bs = take i p @ bs @ drop (i + length bs) p"

definition get8 :: "bytes \<Rightarrow> nat \<Rightarrow> byte" where "get8 p i = p ! i"
definition get16 :: "bytes \<Rightarrow> nat \<Rightarrow> 16 word" where "get16 p i = le16 (get_bytes p i 2)"
definition get32 :: "bytes \<Rightarrow> nat \<Rightarrow> 32 word" where "get32 p i = le32 (get_bytes p i 4)"

lemma length_get_bytes [layout_simps]: "i + n \<le> length p \<Longrightarrow> length (get_bytes p i n) = n"
  by (simp add: get_bytes_def)

lemma length_put_bytes [simp, layout_simps]:
  "i + length bs \<le> length p \<Longrightarrow> length (put_bytes p i bs) = length p"
  by (simp add: put_bytes_def)

lemma get_put_same [layout_simps]:
  "i + length bs \<le> length p \<Longrightarrow> n = length bs \<Longrightarrow> get_bytes (put_bytes p i bs) i n = bs"
  by (simp add: get_bytes_def put_bytes_def)

lemma nth_put_bytes:
  assumes "i + length bs \<le> length p" "j < length p"
  shows "put_bytes p i bs ! j = (if i \<le> j \<and> j < i + length bs then bs ! (j - i) else p ! j)"
  using assms by (auto simp: put_bytes_def nth_append)

lemma get_put_other:
  assumes "i + length bs \<le> length p" "j + n \<le> length p" "j + n \<le> i \<or> i + length bs \<le> j"
  shows "get_bytes (put_bytes p i bs) j n = get_bytes p j n"
proof (rule nth_equalityI)
  show "length (get_bytes (put_bytes p i bs) j n) = length (get_bytes p j n)"
    using assms by (simp add: length_get_bytes)
  fix k assume "k < length (get_bytes (put_bytes p i bs) j n)"
  then have "k < n" using assms by (simp add: get_bytes_def)
  then show "get_bytes (put_bytes p i bs) j n ! k = get_bytes p j n ! k"
    using assms by (auto simp: get_bytes_def nth_put_bytes)
qed

lemma put_put_same: "i + length bs \<le> length p \<Longrightarrow> length cs = length bs \<Longrightarrow>
    put_bytes (put_bytes p i bs) i cs = put_bytes p i cs"
  by (simp add: put_bytes_def)

lemma put_get_same: "i + n \<le> length p \<Longrightarrow> put_bytes p i (get_bytes p i n) = p"
  by (simp add: put_bytes_def get_bytes_def)
    (metis append_take_drop_id drop_drop add.commute)

end
