(* ===== verification/Checksum.thy ===== *)
theory Checksum
  imports CMem
begin

text \<open>
  The two checksums of \<^verbatim>\<open>Tema_1/skel.c\<close>: \<open>ip_checksum\<close>, with its 64-bit accumulator and its
  handling of data that does not start on a 4-byte boundary, and \<open>icmp_checksum\<close>. The
  specification is the one's complement sum of 16-bit words of RFC 1071, on natural numbers.
\<close>

unbundle bit_operations_syntax

section \<open>The code\<close>

text \<open>The loop over complete 32-bit blocks.\<close>

fun add_blocks :: "64 word \<Rightarrow> bytes \<Rightarrow> 64 word" where
  "add_blocks acc (a # b # c # d # ds) =
     add_blocks (acc + ucast (ntohl (le32 [a, b, c, d]))) ds"
| "add_blocks acc _ = acc"

text \<open>Complete blocks, then the partial block at the end, copied into a zeroed word.\<close>

definition add_rest :: "64 word \<Rightarrow> bytes \<Rightarrow> 64 word" where
  "add_rest acc data =
     (let whole = length data - length data mod 4;
          acc = add_blocks acc (take whole data);
          rest = drop whole data
      in if rest \<noteq> [] then acc + ucast (ntohl (le32 (put_bytes (replicate 4 0) 0 rest)))
         else acc)"

text \<open>
  The accumulator before the deferred carries. \<open>addr\<close> is the address of the first byte; a
  partial block at the start is copied to its place within a zeroed word.
\<close>

definition ip_sum :: "nat \<Rightarrow> bytes \<Rightarrow> 64 word" where
  "ip_sum addr data =
     (let offset = addr mod 4
      in if offset \<noteq> 0
         then let count = min (4 - offset) (length data);
                  word = le32 (put_bytes (replicate 4 0) offset (take count data))
              in add_rest (0xffff + ucast (ntohl word)) (drop count data)
         else add_rest 0xffff data)"

function fold_carry :: "64 word \<Rightarrow> 64 word" where
  "fold_carry acc =
     (if drop_bit 16 acc \<noteq> 0 then fold_carry ((acc AND 0xffff) + drop_bit 16 acc) else acc)"
  by pat_completeness auto

lemma unat_and_mask16: "unat (w AND 0xffff :: 64 word) = unat w mod 65536"
proof -
  have "w AND 0xffff = take_bit 16 w"
    by (simp add: take_bit_eq_mask mask_eq_exp_minus_1)
  then show ?thesis
    by (simp add: take_bit_eq_mod unat_mod_distrib)
qed

lemma unat_and_mask32: "unat (w AND 0xffffffff :: 64 word) = unat w mod 4294967296"
proof -
  have "w AND 0xffffffff = take_bit 32 w"
    by (simp add: take_bit_eq_mask mask_eq_exp_minus_1)
  then show ?thesis
    by (simp add: take_bit_eq_mod unat_mod_distrib)
qed

lemma unat_drop16: "unat (drop_bit 16 w :: 64 word) = unat w div 65536"
  and unat_drop32: "unat (drop_bit 32 w :: 64 word) = unat w div 4294967296"
  by (simp_all add: drop_bit_eq_div unat_div_distrib)

lemma unat_plus64: "unat x + unat y < 18446744073709551616 \<Longrightarrow> unat (x + y :: 64 word) = unat x + unat y"
  by (simp add: unat_word_ariths)

lemma unat_fold16:
  "unat ((acc AND 0xffff) + drop_bit 16 acc :: 64 word) = unat acc mod 65536 + unat acc div 65536"
proof -
  have "unat acc < 18446744073709551616"
    using unsigned_less [of acc] by simp
  then have "unat acc mod 65536 + unat acc div 65536 < 18446744073709551616"
    by linarith
  then show ?thesis
    by (simp add: unat_plus64 unat_and_mask16 unat_drop16)
qed

termination fold_carry
proof (relation "measure unat")
  fix acc :: "64 word" assume "drop_bit 16 acc \<noteq> 0"
  then have "0 < unat acc div 65536"
    by (metis unat_drop16 unat_eq_zero gr0I)
  then have "unat acc mod 65536 + unat acc div 65536 < unat acc"
    using div_mult_mod_eq [of "unat acc" 65536] by linarith
  then show "((acc AND 0xffff) + drop_bit 16 acc, acc) \<in> measure unat"
    by (simp only: in_measure unat_fold16)
qed simp

declare fold_carry.simps [simp del]

definition ip_checksum :: "nat \<Rightarrow> bytes \<Rightarrow> 16 word" where
  "ip_checksum addr data =
     (let acc = ip_sum addr data;
          acc = (acc AND 0xffffffff) + drop_bit 32 acc;
          acc = fold_carry acc;
          acc = (if odd (addr mod 4)
                 then drop_bit 8 (acc AND 0xff00) OR push_bit 8 (acc AND 0x00ff) else acc)
      in htons (ucast (NOT acc)))"

text \<open>
  \<open>icmp_checksum\<close> adds the 16-bit words in the order of the host. An odd \<open>sz\<close> makes it
  read two bytes for the last one.
\<close>

fun icmp_sum :: "64 word \<Rightarrow> bytes \<Rightarrow> nat \<Rightarrow> 64 word c_result" where
  "icmp_sum cksum (a # b # buffer) sz =
     (if sz > 1 then icmp_sum (cksum + ucast (le16 [a, b])) buffer (sz - 2)
      else if sz = 1 then Inr (cksum + ucast (le16 [a, b]))
      else Inr cksum)"
| "icmp_sum cksum buffer sz = (if sz = 0 then Inr cksum else Inl OutOfBounds)"

definition icmp_checksum :: "bytes \<Rightarrow> nat \<Rightarrow> 16 word c_result" where
  "icmp_checksum buffer sz =
     c_bind (icmp_sum 0 buffer sz) (\<lambda>cksum.
       let cksum = drop_bit 16 cksum + (cksum AND 0xffff);
           cksum = cksum + drop_bit 16 cksum
       in Inr (ucast (NOT cksum)))"

section \<open>The specification\<close>

text \<open>The sum of the 16-bit big-endian words of the data, an odd last byte padded by a zero.\<close>

fun sum16 :: "bytes \<Rightarrow> nat" where
  "sum16 (a # b # ds) = 256 * unat a + unat b + sum16 ds"
| "sum16 [a] = 256 * unat a"
| "sum16 [] = 0"

text \<open>The representative in \<open>1..65535\<close> of a sum modulo \<open>65535\<close>.\<close>

definition oc_norm :: "nat \<Rightarrow> nat" where
  "oc_norm n = (n + 65534) mod 65535 + 1"

definition rfc1071 :: "bytes \<Rightarrow> nat" where
  "rfc1071 data = 65535 - oc_norm (sum16 data)"

lemma oc_norm_range: "1 \<le> oc_norm n" "oc_norm n \<le> 65535"
  using mod_less_divisor [of 65535 "n + 65534"] by (simp_all add: oc_norm_def)

lemma oc_norm_cong: "m mod 65535 = n mod 65535 \<Longrightarrow> oc_norm m = oc_norm n"
  unfolding oc_norm_def by (metis mod_add_left_eq)

lemma oc_norm_mod: "oc_norm n mod 65535 = n mod 65535"
  by (simp add: oc_norm_def mod_Suc_eq)

lemma oc_norm_id: "1 \<le> f \<Longrightarrow> f \<le> 65535 \<Longrightarrow> oc_norm f = f"
proof -
  assume "1 \<le> f" "f \<le> 65535"
  then have "(f + 65534) mod 65535 = f - 1"
    by (subst le_mod_geq) simp_all
  with \<open>1 \<le> f\<close> show "oc_norm f = f" by (simp add: oc_norm_def)
qed

lemma oc_norm_unique: "1 \<le> f \<Longrightarrow> f \<le> 65535 \<Longrightarrow> f mod 65535 = n mod 65535 \<Longrightarrow> f = oc_norm n"
  using oc_norm_cong oc_norm_id by metis

section \<open>The accumulator\<close>

text \<open>The exact value of the accumulator: the 32-bit big-endian words, the last one padded.\<close>

definition be :: "byte \<Rightarrow> byte \<Rightarrow> byte \<Rightarrow> byte \<Rightarrow> nat" where
  "be a b c d = 16777216 * unat a + 65536 * unat b + 256 * unat c + unat d"

fun sum32 :: "bytes \<Rightarrow> nat" where
  "sum32 (a # b # c # d # ds) = be a b c d + sum32 ds"
| "sum32 [a, b, c] = be a b c 0"
| "sum32 [a, b] = be a b 0 0"
| "sum32 [a] = be a 0 0 0"
| "sum32 [] = 0"

lemma unat_ntohl_word: "unat (ucast (ntohl (le32 [a, b, c, d])) :: 64 word) = be a b c d"
proof -
  have "unat (ucast (ntohl (le32 [a, b, c, d])) :: 64 word) = unat (ntohl (le32 [a, b, c, d]))"
    by (simp add: unsigned_ucast_eq take_bit_nat_eq_self unsigned_less [THEN order.strict_trans])
  then show ?thesis
    by (simp add: htonl_le32 unat_le32 be_def)
qed

lemma be_bound: "be a b c d \<le> 4294967295"
  unfolding be_def
  using unat_byte_le [of a] unat_byte_le [of b] unat_byte_le [of c] unat_byte_le [of d] by linarith

lemma sum32_bound: "sum32 ds \<le> 4294967295 * length ds"
proof (induction ds rule: sum32.induct)
  case (1 a b c d ds)
  then show ?case using be_bound [of a b c d] by simp
qed (simp_all add: order.trans [OF be_bound])

lemma be_mod: "be a b c d mod 65535 = (256 * unat a + unat b + (256 * unat c + unat d)) mod 65535"
proof -
  have "be a b c d = 256 * unat a + unat b + (256 * unat c + unat d) + (256 * unat a + unat b) * 65535"
    by (simp add: be_def)
  then show ?thesis by (simp only: mod_mult_self1)
qed

lemma mod_add_cong2: "a mod n = b mod n \<Longrightarrow> c mod n = d mod n \<Longrightarrow> (a + c) mod n = (b + d) mod (n::nat)"
  by (metis mod_add_eq)

lemma sum32_mod: "sum32 ds mod 65535 = sum16 ds mod 65535"
proof (induction ds rule: sum32.induct)
  case (1 a b c d ds)
  then show ?case
    using mod_add_cong2 [OF be_mod [of a b c d], of "sum32 ds" "sum16 ds"]
    by (simp add: add.assoc)
qed (simp_all add: be_mod)

lemma pad4:
  "put_bytes (replicate 4 0) 0 [a] = [a, 0, 0, 0 :: byte]"
  "put_bytes (replicate 4 0) 0 [a, b] = [a, b, 0, 0 :: byte]"
  "put_bytes (replicate 4 0) 0 [a, b, c] = [a, b, c, 0 :: byte]"
  "put_bytes (replicate 4 0) i [] = [0, 0, 0, 0 :: byte]"
  "put_bytes (replicate 4 0) (Suc 0) [a] = [0, a, 0, 0 :: byte]"
  "put_bytes (replicate 4 0) (Suc 0) [a, b] = [0, a, b, 0 :: byte]"
  "put_bytes (replicate 4 0) (Suc 0) [a, b, c] = [0, a, b, c :: byte]"
  "put_bytes (replicate 4 0) 2 [a] = [0, 0, a, 0 :: byte]"
  "put_bytes (replicate 4 0) 2 [a, b] = [0, 0, a, b :: byte]"
  "put_bytes (replicate 4 0) 3 [a] = [0, 0, 0, a :: byte]"
  by (simp_all add: put_bytes_def eval_nat_numeral)

lemma add_blocks_rest:
  "unat acc + sum32 ds < 18446744073709551616 \<Longrightarrow> unat (add_rest acc ds) = unat acc + sum32 ds"
proof (induction acc ds rule: add_blocks.induct)
  case (1 acc a b c d ds)
  let ?w = "ucast (ntohl (le32 [a, b, c, d])) :: 64 word"
  have len: "length (a # b # c # d # ds) - length (a # b # c # d # ds) mod 4
      = Suc (Suc (Suc (Suc (length ds - length ds mod 4))))"
    by (simp add: Suc_diff_le)
  have "unat (acc + ?w) = unat acc + be a b c d"
    using "1.prems" by (simp add: unat_plus64 unat_ntohl_word)
  moreover have "add_rest acc (a # b # c # d # ds) = add_rest (acc + ?w) ds"
    unfolding add_rest_def Let_def len
    by (simp only: take_Suc_Cons drop_Suc_Cons add_blocks.simps)
  ultimately show ?case
    using "1.IH" "1.prems" by simp
qed (simp_all add: add_rest_def pad4 unat_plus64 unat_ntohl_word)

lemma replicate23: "replicate 2 x = [x, x]" "replicate 3 x = [x, x, x]"
  by (simp_all add: eval_nat_numeral)

lemma ip_sum_exact:
  assumes "length data \<le> 2147483648"
  shows "unat (ip_sum addr data) = 65535 + sum32 (replicate (addr mod 4) 0 @ data)"
proof -
  have rest: "unat (add_rest (0xffff + ucast (ntohl (le32 [a, b, c, d]))) ds)
      = 65535 + be a b c d + sum32 ds" if "length ds \<le> 2147483648" for a b c d ds
  proof -
    have "unat (0xffff + ucast (ntohl (le32 [a, b, c, d])) :: 64 word) = 65535 + be a b c d"
      using be_bound [of a b c d] by (subst unat_plus64) (simp_all add: unat_ntohl_word)
    then show ?thesis
      using that sum32_bound [of ds] be_bound [of a b c d] by (subst add_blocks_rest) simp_all
  qed
  have first: "unat (add_rest 0xffff data) = 65535 + sum32 data"
    using assms sum32_bound [of data] by (simp add: add_blocks_rest)
  consider "addr mod 4 = 0" | "addr mod 4 = 1" | "addr mod 4 = 2" | "addr mod 4 = 3"
    by linarith
  then show ?thesis
  proof cases
    case 1
    then show ?thesis by (simp add: ip_sum_def first)
  next
    case 2
    show ?thesis
      by (cases data rule: sum32.cases) (use assms in \<open>simp_all add: 2 ip_sum_def pad4 rest\<close>)
  next
    case 3
    show ?thesis
      by (cases data rule: sum32.cases) (use assms in \<open>simp_all add: 3 ip_sum_def pad4 rest replicate23\<close>)
  next
    case 4
    show ?thesis
      by (cases data rule: sum32.cases) (use assms in \<open>simp_all add: 4 ip_sum_def pad4 rest replicate23\<close>)
  qed
qed


lemma ip_sum_bound: "length data \<le> 2147483648 \<Longrightarrow> unat (ip_sum addr data) < 2 ^ 63 + 2 ^ 62"
  using sum32_bound [of "replicate (addr mod 4) 0 @ data"] mod_less_divisor [of 4 addr]
  by (simp add: ip_sum_exact)

section \<open>Folding the carries\<close>

lemma fold_carry_spec:
  "unat (fold_carry acc) < 65536 \<and> unat (fold_carry acc) mod 65535 = unat acc mod 65535 \<and>
   (0 < unat acc \<longrightarrow> 0 < unat (fold_carry acc))"
proof (induction acc rule: fold_carry.induct)
  case (1 acc)
  show ?case
  proof (cases "drop_bit 16 acc = 0")
    case True
    then have "unat acc div 65536 = 0"
      by (metis unat_drop16 unat_0)
    then have "unat acc < 65536" by (simp add: div_eq_0_iff)
    with True show ?thesis by (simp add: fold_carry.simps [of acc])
  next
    case False
    let ?acc = "(acc AND 0xffff) + drop_bit 16 acc"
    have eq: "unat acc = unat ?acc + unat acc div 65536 * 65535"
      using div_mult_mod_eq [of "unat acc" 65536] by (simp only: unat_fold16)
    then have "unat acc mod 65535 = unat ?acc mod 65535"
      by (metis mod_mult_self1)
    moreover have "0 < unat ?acc" if "0 < unat acc"
      using that div_mult_mod_eq [of "unat acc" 65536] by (simp only: unat_fold16)
    moreover have "fold_carry acc = fold_carry ?acc"
      using False by (subst fold_carry.simps) simp
    ultimately show ?thesis
      using "1.IH" [OF False] by simp
  qed
qed

lemma fold_carry_norm: "0 < unat acc \<Longrightarrow> unat (fold_carry acc) = oc_norm (unat acc)"
  using fold_carry_spec [of acc] by (intro oc_norm_unique) simp_all

text \<open>The first fold, of the upper half of the accumulator, keeps the sum modulo \<open>65535\<close>.\<close>

lemma unat_fold32:
  "unat ((acc AND 0xffffffff) + drop_bit 32 acc :: 64 word) = unat acc mod 4294967296 + unat acc div 4294967296"
proof -
  have "unat acc < 18446744073709551616"
    using unsigned_less [of acc] by simp
  then have "unat acc mod 4294967296 + unat acc div 4294967296 < 18446744073709551616"
    by linarith
  then show ?thesis
    by (simp add: unat_plus64 unat_and_mask32 unat_drop32)
qed

lemma fold32_mod:
  "unat ((acc AND 0xffffffff) + drop_bit 32 acc :: 64 word) mod 65535 = unat acc mod 65535"
proof -
  have "unat acc = unat ((acc AND 0xffffffff) + drop_bit 32 acc) + unat acc div 4294967296 * 65537 * 65535"
    using div_mult_mod_eq [of "unat acc" 4294967296] by (simp only: unat_fold32)
  then show ?thesis by (metis mod_mult_self1)
qed

lemma fold32_pos: "0 < unat acc \<Longrightarrow> 0 < unat ((acc AND 0xffffffff) + drop_bit 32 acc :: 64 word)"
  using div_mult_mod_eq [of "unat acc" 4294967296]
  by (simp only: unat_fold32)

lemma folded_sum:
  assumes "length data \<le> 2147483648"
  shows "unat (fold_carry ((ip_sum addr data AND 0xffffffff) + drop_bit 32 (ip_sum addr data)))
    = oc_norm (sum16 (replicate (addr mod 4) 0 @ data))"
proof -
  have "unat (ip_sum addr data) mod 65535 = sum32 (replicate (addr mod 4) 0 @ data) mod 65535"
    using assms by (simp add: ip_sum_exact)
  moreover have "0 < unat (ip_sum addr data)"
    using assms by (simp add: ip_sum_exact)
  ultimately show ?thesis
    by (metis fold_carry_norm fold32_pos fold32_mod sum32_mod oc_norm_cong)
qed

section \<open>Swapping the bytes of a sum\<close>

lemma and_ff00: "drop_bit 8 (acc AND 0xff00 :: 64 word) = take_bit 8 (drop_bit 8 acc)"
proof -
  have m: "(0xff00 :: 64 word) = push_bit 8 (mask 8)"
    by (simp add: mask_eq_exp_minus_1)
  have "drop_bit 8 (acc AND 0xff00) = drop_bit 8 acc AND drop_bit 8 (push_bit 8 (mask 8) :: 64 word)"
    unfolding m by (simp only: drop_bit_and)
  also have "drop_bit 8 (push_bit 8 (mask 8) :: 64 word) = mask 8"
    by (simp add: mask_eq_exp_minus_1)
  finally show ?thesis by (simp only: take_bit_eq_mask)
qed

lemma unat_swap:
  assumes "unat acc < 65536"
  shows "unat (drop_bit 8 (acc AND 0xff00) OR push_bit 8 (acc AND 0x00ff) :: 64 word)
    = unat acc div 256 + 256 * (unat acc mod 256)"
proof -
  have lo: "acc AND 0x00ff = take_bit 8 acc"
    by (simp add: take_bit_eq_mask mask_eq_exp_minus_1)
  have "take_bit 8 (drop_bit 8 acc) OR push_bit 8 (take_bit 8 acc) =
      take_bit 8 (drop_bit 8 acc) + push_bit 8 (take_bit 8 acc)"
    by (rule disjunctive_add [symmetric]) (simp add: bit_take_bit_iff bit_push_bit_iff)
  moreover have "unat (take_bit 8 (drop_bit 8 acc)) = unat acc div 256"
    using assms by (simp add: take_bit_eq_mod drop_bit_eq_div unat_mod_distrib unat_div_distrib
        less_mult_imp_div_less)
  moreover have "unat (push_bit 8 (take_bit 8 acc)) = 256 * (unat acc mod 256)"
    by (simp add: take_bit_eq_mod push_bit_eq_mult unat_mod_distrib unat_word_ariths mult.commute)
  ultimately show ?thesis
    using assms unfolding and_ff00 lo by (simp add: unat_plus64)
qed

lemma swap_mod: "(f div 256 + 256 * (f mod 256)) mod 65535 = 256 * f mod (65535::nat)"
proof -
  have "256 * f = f div 256 + 256 * (f mod 256) + f div 256 * 65535"
    using div_mult_mod_eq [of f 256] by linarith
  then show ?thesis by (metis mod_mult_self1)
qed

lemma sum16_shift: "256 * sum16 (0 # ds) mod 65535 = sum16 ds mod 65535"
proof (induction ds rule: sum16.induct)
  case (1 a b ds)
  have "256 * sum16 (0 # a # b # ds)
      = 256 * unat a + unat b + (256 * sum16 (0 # ds)) + unat b * 65535"
    by (cases ds) simp_all
  then have "256 * sum16 (0 # a # b # ds) mod 65535
      = (256 * unat a + unat b + 256 * sum16 (0 # ds)) mod 65535"
    by (simp only: mod_mult_self1)
  also have "\<dots> = (256 * unat a + unat b + sum16 ds) mod 65535"
    using 1 by (rule mod_add_cong2 [OF refl])
  finally show ?case by simp
qed simp_all

section \<open>Correctness\<close>

lemma unat_not16_mod: "unat (ucast (NOT acc) :: 16 word) = 65535 - unat (acc :: 64 word) mod 65536"
proof -
  have "ucast (NOT acc) = NOT (ucast acc :: 16 word)"
    by (rule bit_word_eqI) (simp add: bit_ucast_iff bit_not_iff)
  moreover have "unat (ucast acc :: 16 word) = unat acc mod 65536"
    by (simp add: unsigned_ucast_eq take_bit_eq_mod)
  moreover have "unat (NOT w) = 65535 - unat w" for w :: "16 word"
  proof -
    have "NOT w = -1 - w" by (simp add: not_eq_complement)
    then show ?thesis
      by (simp add: unat_sub unsigned_minus_1_eq_mask mask_eq_exp_minus_1)
  qed
  ultimately show ?thesis by simp
qed

lemma unat_not16: "unat acc < 65536 \<Longrightarrow> unat (ucast (NOT acc) :: 16 word) = 65535 - unat (acc :: 64 word)"
  by (simp add: unat_not16_mod)

lemma ip_checksum_rfc1071:
  assumes "length data \<le> 2147483648"
  shows "unat (ntohs (ip_checksum addr data)) = rfc1071 data"
proof -
  let ?acc = "fold_carry ((ip_sum addr data AND 0xffffffff) + drop_bit 32 (ip_sum addr data))"
  note f = folded_sum [OF assms, of addr]
  have lt: "unat ?acc < 65536"
    using f oc_norm_range(2) [of "sum16 (replicate (addr mod 4) 0 @ data)"] by simp
  show ?thesis
  proof (cases "odd (addr mod 4)")
    case False
    then have "addr mod 4 = 0 \<or> addr mod 4 = 2" by presburger
    then have "sum16 (replicate (addr mod 4) 0 @ data) = sum16 data"
      by (auto simp: replicate23)
    with False f lt show ?thesis
      by (simp add: ip_checksum_def Let_def unat_not16 rfc1071_def)
  next
    case True
    let ?sw = "drop_bit 8 (?acc AND 0xff00) OR push_bit 8 (?acc AND 0x00ff)"
    from True have "addr mod 4 = 1 \<or> addr mod 4 = 3" by presburger
    then have s: "sum16 (replicate (addr mod 4) 0 @ data) = sum16 (0 # data)"
      by (auto simp: replicate23)
    have "256 * unat ?acc mod 65535 = 256 * sum16 (0 # data) mod 65535"
      using f s oc_norm_mod [of "sum16 (0 # data)"] by (metis mod_mult_right_eq)
    then have "unat ?sw mod 65535 = sum16 data mod 65535"
      by (simp only: unat_swap [OF lt] swap_mod sum16_shift)
    moreover have "1 \<le> unat ?sw" "unat ?sw \<le> 65535"
      using f lt oc_norm_range(1) [of "sum16 (0 # data)"] s div_mult_mod_eq [of "unat ?acc" 256]
        less_mult_imp_div_less [of "unat ?acc" 256 256] mod_less_divisor [of 256 "unat ?acc"]
      by (simp_all only: unat_swap [OF lt])
    ultimately have "unat ?sw = oc_norm (sum16 data)"
      by (intro oc_norm_unique)
    then have "unat (ucast (NOT ?sw) :: 16 word) = rfc1071 data"
      using oc_norm_range(2) [of "sum16 data"] by (subst unat_not16) (simp_all only: rfc1071_def)
    with True show ?thesis
      unfolding ip_checksum_def Let_def by (simp only: if_True htons_htons not_False_eq_True)
  qed
qed

text \<open>A block verifies exactly when its sum is a multiple of \<open>65535\<close>.\<close>

lemma oc_norm_full: "oc_norm n = 65535 \<longleftrightarrow> n mod 65535 = 0"
proof
  assume "oc_norm n = 65535"
  then show "n mod 65535 = 0" using oc_norm_mod [of n] by simp
next
  assume "n mod 65535 = 0"
  then have "oc_norm n = oc_norm 65535" by (intro oc_norm_cong) simp
  then show "oc_norm n = 65535" by (simp add: oc_norm_id)
qed

lemma htons_0 [simp]: "htons 0 = 0"
  using htons_le16 [of 0 0] by (simp add: le16.simps)

lemma ip_checksum_zero_iff:
  assumes "length data \<le> 2147483648"
  shows "ip_checksum addr data = 0 \<longleftrightarrow> sum16 data mod 65535 = 0"
proof -
  have "ip_checksum addr data = 0 \<longleftrightarrow> ntohs (ip_checksum addr data) = ntohs 0"
    by (simp only: htons_eq_iff)
  also have "\<dots> \<longleftrightarrow> unat (ntohs (ip_checksum addr data)) = 0"
    by (simp add: unat_eq_zero)
  also have "\<dots> \<longleftrightarrow> oc_norm (sum16 data) = 65535"
    using oc_norm_range(2) [of "sum16 data"] by (simp add: ip_checksum_rfc1071 [OF assms] rfc1071_def)
  finally show ?thesis by (simp only: oc_norm_full)
qed

lemma sum16_append: "even (length xs) \<Longrightarrow> sum16 (xs @ ys) = sum16 xs + sum16 ys"
  by (induction xs rule: sum16.induct) simp_all

lemma sum16_put16: "sum16 (put16 w) = unat (ntohs w)"
  by (cases w rule: put16_cases) (simp add: htons_le16 unat_le16)

lemma ip_checksum_verifies:
  assumes "even (length xs)" "length xs + 2 + length ys \<le> 2147483648"
    and c: "c = ip_checksum addr (xs @ [0, 0] @ ys)"
  shows "ip_checksum addr' (xs @ put16 c @ ys) = 0"
proof -
  let ?s = "sum16 (xs @ [0, 0] @ ys)"
  have "unat (ntohs c) + oc_norm ?s = 65535"
    using assms(2) oc_norm_range(2) [of ?s] unfolding c by (subst ip_checksum_rfc1071) (simp_all add: rfc1071_def)
  then have "(unat (ntohs c) + ?s) mod 65535 = 0"
    by (metis mod_add_right_eq mod_self oc_norm_mod)
  moreover have "sum16 (xs @ put16 c @ ys) = unat (ntohs c) + ?s"
    using assms(1) by (simp add: sum16_append sum16_put16)
  ultimately show ?thesis
    using assms(2) by (simp add: ip_checksum_zero_iff)
qed

section \<open>The ICMP checksum\<close>

fun sum_le :: "bytes \<Rightarrow> nat" where
  "sum_le (a # b # ds) = unat a + 256 * unat b + sum_le ds"
| "sum_le _ = 0"

lemma sum_le_append: "even (length xs) \<Longrightarrow> sum_le (xs @ ys) = sum_le xs + sum_le ys"
  by (induction xs rule: sum_le.induct) simp_all

lemma sum_le_put16: "sum_le (put16 w) = unat w"
  by (cases w rule: put16_cases) (simp add: unat_le16)

lemma sum_le_bound: "2 * sum_le ds \<le> 65535 * length ds"
proof (induction ds rule: sum_le.induct)
  case (1 a b ds)
  then show ?case using unat_byte_le [of a] unat_byte_le [of b] by simp
qed simp_all

lemma unat_ucast_le16: "unat (ucast (le16 [a, b]) :: 64 word) = unat a + 256 * unat b"
  using unat_16_less [of "le16 [a, b]"]
  by (simp add: unsigned_ucast_eq take_bit_nat_eq_self unat_le16)

lemma icmp_sum_exact:
  "even (length ds) \<Longrightarrow> unat cksum + sum_le ds < 18446744073709551616 \<Longrightarrow>
   \<exists>s. icmp_sum cksum (ds @ more) (length ds) = Inr s \<and> unat s = unat cksum + sum_le ds"
proof (induction ds arbitrary: cksum rule: sum_le.induct)
  case (1 a b ds)
  let ?c = "cksum + ucast (le16 [a, b])"
  have "unat ?c = unat cksum + (unat a + 256 * unat b)"
    using "1.prems" by (simp add: unat_plus64 unat_ucast_le16)
  with "1.IH" [of ?c] "1.prems" show ?case
    by (cases ds) auto
next
  case "2_1"
  then show ?case by (cases more rule: sum_le.cases) simp_all
qed simp_all

definition icmp_fold :: "nat \<Rightarrow> nat" where
  "icmp_fold s = (if s = 0 then 0 else oc_norm s)"

lemma icmp_checksum_spec:
  assumes "even (length ds)" "length ds \<le> 65534"
  shows "\<exists>c. icmp_checksum (ds @ more) (length ds) = Inr c \<and> unat c = 65535 - icmp_fold (sum_le ds)"
proof -
  have b: "sum_le ds \<le> 2147385345"
    using sum_le_bound [of ds] assms(2) by simp
  obtain s where s: "icmp_sum 0 (ds @ more) (length ds) = Inr s" "unat s = sum_le ds"
    using icmp_sum_exact [OF assms(1), of 0] b by auto
  let ?c1 = "drop_bit 16 s + (s AND 0xffff)" and ?S = "sum_le ds"
  let ?c2 = "?c1 + drop_bit 16 ?c1"
  have c1: "unat ?c1 = ?S div 65536 + ?S mod 65536"
    using unat_fold16 [of s] by (simp add: s(2) add.commute)
  have b1: "?S div 65536 \<le> 32767" using b by simp
  then have c1b: "unat ?c1 \<le> 98302" using c1 by simp
  have c2: "unat ?c2 = unat ?c1 + unat ?c1 div 65536"
    using c1b by (subst unat_plus64) (simp_all add: unat_drop16)
  have m: "unat ?c1 mod 65535 = ?S mod 65535"
  proof -
    have "?S = unat ?c1 + ?S div 65536 * 65535"
      using div_mult_mod_eq [of ?S 65536] c1 by simp
    then show ?thesis by (metis mod_mult_self1)
  qed
  have f: "unat ?c2 mod 65536 = icmp_fold ?S"
  proof (cases "?S = 0")
    case True
    with c1 c2 show ?thesis by (simp add: icmp_fold_def)
  next
    case False
    then have p: "1 \<le> unat ?c1" using c1 div_mult_mod_eq [of ?S 65536] by linarith
    have "unat ?c2 mod 65536 = (if unat ?c1 < 65536 then unat ?c1 else unat ?c1 - 65535)"
      using c2 c1b by (auto simp: le_mod_geq)
    moreover have "(if unat ?c1 < 65536 then unat ?c1 else unat ?c1 - 65535) = oc_norm ?S"
      using p c1b m by (intro oc_norm_unique) (auto simp: le_mod_geq)
    ultimately show ?thesis using False by (simp add: icmp_fold_def)
  qed
  have "unat (ucast (NOT ?c2) :: 16 word) = 65535 - unat ?c2 mod 65536"
    by (rule unat_not16_mod)
  with s f show ?thesis by (simp add: icmp_checksum_def Let_def)
qed

end
