(* ===== verification/CString.thy ===== *)
theory CString
  imports Prelude
begin

text \<open>
  C strings and the functions of \<^verbatim>\<open>string.h\<close> and \<^verbatim>\<open>ctype.h\<close> the programs call. A C string is
  the list of its characters; the terminator is not in the list and is what is read at its
  end. Positions are offsets into the list.
\<close>

abbreviation uchar :: "char \<Rightarrow> nat" where "uchar c \<equiv> of_char c"
abbreviation NUL :: char where "NUL \<equiv> CHR 0x00"
abbreviation DQUOTE :: char where "DQUOTE \<equiv> CHR 0x22"
abbreviation BACKSLASH :: char where "BACKSLASH \<equiv> CHR 0x5C"

text \<open>\<open>*p\<close>, and \<open>p[i]\<close>.\<close>

fun peek :: "string \<Rightarrow> char" where
  "peek [] = NUL"
| "peek (c # cs) = c"

definition char_at :: "string \<Rightarrow> nat \<Rightarrow> char" where
  "char_at s i = peek (drop i s)"

definition isspace :: "char \<Rightarrow> bool" where
  "isspace c \<longleftrightarrow> c = CHR '' '' \<or> 9 \<le> uchar c \<and> uchar c \<le> 13"

definition isdigit :: "char \<Rightarrow> bool" where
  "isdigit c \<longleftrightarrow> 48 \<le> uchar c \<and> uchar c \<le> 57"

text \<open>\<open>tolower\<close> in the C locale.\<close>

definition to_lower :: "char \<Rightarrow> char" where
  "to_lower c = (if 65 \<le> uchar c \<and> uchar c \<le> 90 then char_of (uchar c + 32) else c)"

definition skip_whitespaces :: "string \<Rightarrow> string" where
  "skip_whitespaces s = dropWhile isspace s"

text \<open>\<open>strncmp(p, s, strlen(p)) == 0\<close> for a string \<open>p\<close> without terminator inside.\<close>

definition starts_with :: "string \<Rightarrow> string \<Rightarrow> bool" where
  "starts_with p s \<longleftrightarrow> take (length p) s = p"

fun strchr :: "string \<Rightarrow> char \<Rightarrow> nat option" where
  "strchr [] c = None"
| "strchr (x # xs) c = (if x = c then Some 0 else map_option Suc (strchr xs c))"

fun strstr :: "string \<Rightarrow> string \<Rightarrow> nat option" where
  "strstr [] t = (if t = [] then Some 0 else None)"
| "strstr (x # xs) t = (if starts_with t (x # xs) then Some 0 else map_option Suc (strstr xs t))"

text \<open>
  \<open>strtok\<close>: the separators at the front are skipped; a token runs to the next separator,
  which is overwritten and skipped. The state kept between calls is the rest of the string;
  the result is the token and the new rest, or none where only separators are left.
\<close>

definition strtok :: "string \<Rightarrow> string \<Rightarrow> (string \<times> string) option" where
  "strtok delim s =
     (let s = dropWhile (\<lambda>c. c \<in> set delim) s
      in if s = [] then None
         else Some (takeWhile (\<lambda>c. c \<notin> set delim) s, drop 1 (dropWhile (\<lambda>c. c \<notin> set delim) s)))"

text \<open>The lower-case hexadecimal digit of a value below 16.\<close>

definition hex_digit :: "nat \<Rightarrow> char" where
  "hex_digit d = (if d < 10 then char_of (48 + d) else char_of (87 + d))"

text \<open>Integers in decimal: what \<open>"%d"\<close> prints, and the value of a row of digits.\<close>

fun nat_text :: "nat \<Rightarrow> string" where
  "nat_text n = (if n < 10 then [char_of (48 + n)] else nat_text (n div 10) @ [char_of (48 + n mod 10)])"

declare nat_text.simps [simp del]

definition int_text :: "int \<Rightarrow> string" where
  "int_text n = (if n < 0 then CHR ''-'' # nat_text (nat (- n)) else nat_text (nat n))"

definition digits_value :: "string \<Rightarrow> nat" where
  "digits_value ds = foldl (\<lambda>v c. 10 * v + (uchar c - 48)) 0 ds"

text \<open>An \<open>int\<close> of 32 bits.\<close>

definition to_int32 :: "int \<Rightarrow> int" where
  "to_int32 x = (x + 2 ^ 31) mod 2 ^ 32 - 2 ^ 31"

text \<open>
  \<open>strtol\<close> on bytes that need not end in a terminator: white space, a sign, digits, the value
  held within a \<open>long\<close>. Where the bytes end first it reads past them: \<open>None\<close>. \<open>atoi\<close> on a string.
\<close>

definition strtol :: "string \<Rightarrow> int option" where
  "strtol s =
     (let s = skip_whitespaces s;
          neg = (peek s = CHR ''-'');
          s = (if peek s \<in> {CHR ''-'', CHR ''+''} then drop 1 s else s);
          ds = takeWhile isdigit s;
          v = (if neg then - int (digits_value ds) else int (digits_value ds))
      in if length ds = length s then None else Some (max (- (2 ^ 63)) (min (2 ^ 63 - 1) v)))"

definition atoi :: "string \<Rightarrow> int" where
  "atoi s = (case strtol (s @ [NUL]) of None \<Rightarrow> 0 | Some v \<Rightarrow> to_int32 v)"

section \<open>Facts\<close>

lemma peek_append: "peek (xs @ ys) = (if xs = [] then peek ys else peek xs)"
  by (cases xs) simp_all

lemma char_at_Cons [simp]: "char_at (c # s) 0 = c" "char_at (c # s) (Suc i) = char_at s i"
    "char_at [] i = NUL"
  by (simp_all add: char_at_def)

lemma char_at_numeral [simp]: "char_at (c # s) (numeral n) = char_at s (pred_numeral n)"
  by (simp add: char_at_def drop_Cons')

lemma char_at_nth: "char_at s i = (if i < length s then s ! i else NUL)"
  by (induction s arbitrary: i) (auto simp: nth_Cons' char_at_def drop_Cons' split: nat.split)

lemma starts_with_append [simp]: "starts_with p (p @ s)"
  by (simp add: starts_with_def)

lemma starts_with_iff: "starts_with p s \<longleftrightarrow> (\<exists>r. s = p @ r)"
  by (auto simp: starts_with_def) (metis append_take_drop_id)

lemma strchr_None: "strchr s c = None \<longleftrightarrow> c \<notin> set s"
  by (induction s) auto

lemma strchr_Some:
  "strchr s c = Some i \<Longrightarrow> i < length s \<and> s = take i s @ c # drop (Suc i) s \<and> c \<notin> set (take i s)"
  by (induction s arbitrary: i) (auto split: if_splits)

lemma strchr_append: "c \<notin> set a \<Longrightarrow> strchr (a @ c # b) c = Some (length a)"
  by (induction a) auto

lemma strstr_Some:
  "strstr s t = Some i \<Longrightarrow> i \<le> length s \<and> (\<exists>r. drop i s = t @ r) \<and> (\<forall>j<i. \<not> starts_with t (drop j s))"
proof (induction s arbitrary: i)
  case Nil
  then show ?case by (simp split: if_splits)
next
  case (Cons x s)
  show ?case
  proof (cases "starts_with t (x # s)")
    case True
    with Cons.prems show ?thesis by (simp add: starts_with_iff)
  next
    case False
    with Cons.prems obtain k where k: "strstr s t = Some k" "i = Suc k" by auto
    from Cons.IH [OF k(1)] False show ?thesis
      by (auto simp: k(2) less_Suc_eq_0_disj)
  qed
qed

lemma strstr_None: "strstr s t = None \<longleftrightarrow> (\<forall>j. \<not> starts_with t (drop j s))"
proof (induction s)
  case Nil
  then show ?case by (auto simp: starts_with_def)
next
  case (Cons x s)
  have "(\<forall>j. \<not> starts_with t (drop j (x # s))) \<longleftrightarrow>
      \<not> starts_with t (x # s) \<and> (\<forall>j. \<not> starts_with t (drop j s))"
    by (metis drop0 drop_Suc_Cons not0_implies_Suc)
  with Cons show ?case by auto
qed

lemma strstr_bound: "strstr s t = Some i \<Longrightarrow> i + length t \<le> length s"
proof -
  assume "strstr s t = Some i"
  then obtain r where i: "i \<le> length s" and r: "drop i s = t @ r" using strstr_Some by blast
  have "length (drop i s) = length t + length r" unfolding r by simp
  with i show ?thesis by simp
qed

lemma strstr_append: "strstr s t = Some k \<Longrightarrow> strstr (s @ r) t = Some k"
proof (induction s arbitrary: k)
  case Nil
  then show ?case by (cases r) (simp_all add: starts_with_def split: if_splits)
next
  case (Cons x s)
  have "length t \<le> length (x # s)" using strstr_bound [OF Cons.prems] by simp
  then have "starts_with t (x # s @ r) = starts_with t (x # s)" by (simp add: starts_with_def take_Cons')
  with Cons show ?case by (auto split: if_splits)
qed

text \<open>What occurs in a part of a string occurs in the string.\<close>

lemma strstr_sub: "strstr (a @ s @ b) t = None \<Longrightarrow> strstr s t = None"
proof -
  assume none: "strstr (a @ s @ b) t = None"
  have "strstr (a @ u) t = None \<Longrightarrow> strstr u t = None" for u
    by (induction a) (simp_all split: if_splits)
  then have "strstr (s @ b) t = None" using none .
  then show ?thesis using strstr_append [of s t _ b] by (cases "strstr s t") simp_all
qed

lemma strstr_drop: "i \<le> length s \<Longrightarrow> strstr (drop i s) t =
    (if starts_with t (drop i s) then Some 0 else if i < length s then map_option Suc (strstr (drop (Suc i) s) t) else None)"
  by (cases "drop i s") (auto simp: starts_with_def Cons_nth_drop_Suc [symmetric])

lemma strstr_short: "length s < length t \<Longrightarrow> strstr s t = None"
  by (induction s) (auto simp: starts_with_def dest: arg_cong [of _ t length])

lemma strstr_prefix:
  assumes "strstr (p @ q) t = Some i" "i + length t \<le> length p"
  shows "strstr p t = Some i"
proof -
  obtain r where "drop i p @ q = t @ r" using strstr_Some [OF assms(1)] assms(2) by auto
  then have "take (length t) (drop i p @ q) = t" by simp
  then have "starts_with t (drop i p)" using assms(2) by (simp add: starts_with_def)
  then obtain k where k: "strstr p t = Some k" using strstr_None [of p t] by (cases "strstr p t") auto
  then have "strstr (p @ q) t = Some k" by (rule strstr_append)
  with assms(1) k show ?thesis by simp
qed

lemma skip_whitespaces_id: "\<not> isspace (peek s) \<Longrightarrow> skip_whitespaces s = s"
  by (cases s) (simp_all add: skip_whitespaces_def)

lemma skip_whitespaces_length: "length (skip_whitespaces s) \<le> length s"
  by (simp add: skip_whitespaces_def length_dropWhile_le)

lemma skip_whitespaces_idem [simp]: "skip_whitespaces (skip_whitespaces s) = skip_whitespaces s"
  by (simp add: skip_whitespaces_def)

lemma skip_whitespaces_space [simp]: "isspace c \<Longrightarrow> skip_whitespaces (c # s) = skip_whitespaces s"
  by (simp add: skip_whitespaces_def)

lemma uchar_char_of: "n < 256 \<Longrightarrow> uchar (char_of n) = n"
  by simp

lemma uchar_less: "uchar c < 256"
  using mod_less_divisor [of 256 "uchar c"] by (simp only: of_char_mod_256)

lemma char_eq_uchar: "c = d \<longleftrightarrow> uchar c = uchar d"
  by simp

lemma uchar_digit: "d < 10 \<Longrightarrow> uchar (char_of (48 + d)) = 48 + d"
  by (rule uchar_char_of) simp

lemma nat_text_digits: "c \<in> set (nat_text n) \<Longrightarrow> isdigit c"
proof (induction n rule: nat_text.induct)
  case (1 n)
  have d: "isdigit (char_of (48 + m))" if "m < 10" for m :: nat
    using that by (simp add: isdigit_def uchar_digit del: of_char_of)
  show ?case
  proof (cases "n < 10")
    case True
    with "1.prems" d show ?thesis by (subst (asm) nat_text.simps) simp
  next
    case False
    with "1.prems" have "c \<in> set (nat_text (n div 10)) \<or> c = char_of (48 + n mod 10)"
      by (subst (asm) nat_text.simps) auto
    with "1.IH" False d [of "n mod 10"] show ?thesis by auto
  qed
qed

lemma nat_text_nonempty [simp]: "nat_text n \<noteq> []"
  by (subst nat_text.simps) simp

lemma digits_value_nat_text: "digits_value (nat_text n) = n"
proof (induction n rule: nat_text.induct)
  case (1 n)
  show ?case
  proof (cases "n < 10")
    case True
    then show ?thesis by (subst nat_text.simps) (simp add: digits_value_def uchar_digit del: of_char_of)
  next
    case False
    then have "digits_value (nat_text n) = 10 * digits_value (nat_text (n div 10)) + n mod 10"
      by (subst nat_text.simps) (simp add: digits_value_def uchar_digit del: of_char_of)
    with "1.IH" False show ?thesis by simp
  qed
qed

lemma nat_text_length: "n < 10 ^ k \<Longrightarrow> 0 < k \<Longrightarrow> length (nat_text n) \<le> k"
proof (induction n arbitrary: k rule: nat_text.induct)
  case (1 n)
  show ?case
  proof (cases "n < 10")
    case True
    with 1 show ?thesis by (simp add: nat_text.simps [of n])
  next
    case False
    obtain j where k: "k = Suc j" using "1.prems"(2) by (cases k) auto
    have "0 < j" using "1.prems"(1) False by (cases j) (simp_all add: k)
    moreover have "n div 10 < 10 ^ j" using "1.prems"(1) by (simp add: k div_less_iff_less_mult mult.commute)
    ultimately have "length (nat_text (n div 10)) \<le> j" using "1.IH" False by simp
    with False show ?thesis by (simp add: nat_text.simps [of n] k)
  qed
qed

lemma nat_text_leading: "0 < n \<Longrightarrow> peek (nat_text n) \<noteq> CHR ''0''"
proof (induction n rule: nat_text.induct)
  case (1 n)
  show ?case
  proof (cases "n < 10")
    case True
    then have "uchar (peek (nat_text n)) = 48 + n"
      by (subst nat_text.simps) (simp add: uchar_digit del: of_char_of)
    with "1.prems" show ?thesis by (auto simp: char_eq_uchar simp del: of_char_eq_iff)
  next
    case False
    then have "peek (nat_text n) = peek (nat_text (n div 10))"
      by (subst nat_text.simps) (simp add: peek_append)
    with "1.IH" False show ?thesis by simp
  qed
qed

section \<open>Tokens\<close>

lemma dropWhile_line: "l \<noteq> [] \<Longrightarrow> \<not> P (hd l) \<Longrightarrow> dropWhile P (l @ s) = l @ s"
  by (cases l) simp_all

lemma strtok_token:
  assumes "t \<noteq> []" "\<forall>c \<in> set t. c \<notin> set delim" "d \<in> set delim"
  shows "strtok delim (t @ d # s) = Some (t, s)" "strtok delim t = Some (t, [])"
proof -
  have "dropWhile (\<lambda>c. c \<in> set delim) (t @ s) = t @ s" for s
    using assms(1,2) by (intro dropWhile_line) auto
  from this [of "d # s"] this [of "[]"] assms show "strtok delim (t @ d # s) = Some (t, s)" "strtok delim t = Some (t, [])"
    by (simp_all add: strtok_def Let_def takeWhile_append2 dropWhile_append2 takeWhile_eq_all_conv [THEN iffD2] dropWhile_eq_Nil_conv [THEN iffD2])
qed

lemma strtok_skip: "d \<in> set delim \<Longrightarrow> strtok delim (d # s) = strtok delim s"
  by (simp add: strtok_def)

lemma strtol_number:
  assumes "n < 2 ^ 63" "\<not> isdigit c"
  shows "strtol (nat_text n @ c # s) = Some (int n)"
proof -
  let ?t = "nat_text n"
  have d: "\<forall>x \<in> set ?t. isdigit x" "?t \<noteq> []" using nat_text_digits nat_text_nonempty by blast+
  then have pk: "isdigit (peek ?t)" by (cases ?t) simp_all
  then have p: "\<not> isspace (peek ?t)" "peek ?t \<noteq> CHR ''-''" "peek ?t \<noteq> CHR ''+''"
    by (auto simp: isspace_def isdigit_def)
  have tw: "takeWhile isdigit (?t @ c # s) = ?t" using d(1) assms(2) by (simp add: takeWhile_append2)
  have sk: "skip_whitespaces (?t @ c # s) = ?t @ c # s"
    using p(1) d(2) by (intro skip_whitespaces_id) (simp add: peek_append)
  have "peek (?t @ c # s) = peek ?t" using d(2) by (simp add: peek_append)
  with p(2,3) tw sk assms show ?thesis by (simp add: strtol_def digits_value_nat_text)
qed

lemma atoi_nat_text: "n < 2 ^ 31 \<Longrightarrow> atoi (nat_text n) = int n"
  using strtol_number [of n NUL "[]"] by (simp add: atoi_def to_int32_def isdigit_def)

end
