(* ===== verification/Skel.thy ===== *)
theory Skel
  imports Checksum CString
begin

text \<open>
  The packet layer of \<^verbatim>\<open>Tema_1/skel.c\<close> and \<^verbatim>\<open>Tema_1/include/skel.h\<close>: the headers as records
  with their layout in bytes, reception and transmission of frames, the parsing helpers, the
  text form of MAC addresses, and the three functions that build and send a packet.
\<close>

unbundle bit_operations_syntax

section \<open>Headers and their layout\<close>

record ether_header =
  ether_dhost :: bytes
  ether_shost :: bytes
  ether_type :: "16 word"

record iphdr =
  ip_version :: "4 word"
  ip_ihl :: "4 word"
  ip_tos :: byte
  ip_tot_len :: "16 word"
  ip_id :: "16 word"
  ip_frag_off :: "16 word"
  ip_ttl :: byte
  ip_protocol :: byte
  ip_check :: "16 word"
  ip_saddr :: "32 word"
  ip_daddr :: "32 word"

record icmphdr =
  ic_type :: byte
  ic_code :: byte
  ic_checksum :: "16 word"
  ic_id :: "16 word"
  ic_sequence :: "16 word"

record arp_header =
  ar_htype :: "16 word"
  ar_ptype :: "16 word"
  ar_hlen :: byte
  ar_plen :: byte
  ar_op :: "16 word"
  ar_sha :: bytes
  ar_spa :: "32 word"
  ar_tha :: bytes
  ar_tpa :: "32 word"

text \<open>The bytes of a header in memory.\<close>

definition eth_bytes :: "ether_header \<Rightarrow> bytes" where
  "eth_bytes h = ether_dhost h @ ether_shost h @ put16 (ether_type h)"

definition ip_bytes :: "iphdr \<Rightarrow> bytes" where
  "ip_bytes h =
     [push_bit 4 (ucast (ip_version h)) OR ucast (ip_ihl h), ip_tos h] @ put16 (ip_tot_len h) @
     put16 (ip_id h) @ put16 (ip_frag_off h) @ [ip_ttl h, ip_protocol h] @ put16 (ip_check h) @
     put32 (ip_saddr h) @ put32 (ip_daddr h)"

definition icmp_bytes :: "icmphdr \<Rightarrow> bytes" where
  "icmp_bytes h =
     [ic_type h, ic_code h] @ put16 (ic_checksum h) @ put16 (ic_id h) @ put16 (ic_sequence h)"

definition arp_bytes :: "arp_header \<Rightarrow> bytes" where
  "arp_bytes h =
     put16 (ar_htype h) @ put16 (ar_ptype h) @ [ar_hlen h, ar_plen h] @ put16 (ar_op h) @
     ar_sha h @ put32 (ar_spa h) @ ar_tha h @ put32 (ar_tpa h)"

text \<open>The header a pointer to offset \<open>i\<close> of a buffer reads.\<close>

definition ether_header_at :: "bytes \<Rightarrow> ether_header" where
  "ether_header_at p =
     \<lparr>ether_dhost = get_bytes p 0 6, ether_shost = get_bytes p 6 6, ether_type = get16 p 12\<rparr>"

definition iphdr_at :: "bytes \<Rightarrow> nat \<Rightarrow> iphdr" where
  "iphdr_at p i =
     \<lparr>ip_version = ucast (drop_bit 4 (get8 p i)), ip_ihl = ucast (get8 p i),
      ip_tos = get8 p (i + 1), ip_tot_len = get16 p (i + 2), ip_id = get16 p (i + 4),
      ip_frag_off = get16 p (i + 6), ip_ttl = get8 p (i + 8), ip_protocol = get8 p (i + 9),
      ip_check = get16 p (i + 10), ip_saddr = get32 p (i + 12), ip_daddr = get32 p (i + 16)\<rparr>"

definition icmphdr_at :: "bytes \<Rightarrow> nat \<Rightarrow> icmphdr" where
  "icmphdr_at p i =
     \<lparr>ic_type = get8 p i, ic_code = get8 p (i + 1), ic_checksum = get16 p (i + 2),
      ic_id = get16 p (i + 4), ic_sequence = get16 p (i + 6)\<rparr>"

definition arp_header_at :: "bytes \<Rightarrow> nat \<Rightarrow> arp_header" where
  "arp_header_at p i =
     \<lparr>ar_htype = get16 p i, ar_ptype = get16 p (i + 2), ar_hlen = get8 p (i + 4),
      ar_plen = get8 p (i + 5), ar_op = get16 p (i + 6), ar_sha = get_bytes p (i + 8) 6,
      ar_spa = get32 p (i + 14), ar_tha = get_bytes p (i + 18) 6, ar_tpa = get32 p (i + 24)\<rparr>"

definition ETH_LEN :: nat where "ETH_LEN = 14"
definition IP_LEN :: nat where "IP_LEN = 20"
definition ICMP_LEN :: nat where "ICMP_LEN = 8"
definition ARP_LEN :: nat where "ARP_LEN = 28"

lemmas header_lens = ETH_LEN_def IP_LEN_def ICMP_LEN_def ARP_LEN_def

lemma length_eth_bytes [layout_simps]:
    "length (eth_bytes e) = length (ether_dhost e) + length (ether_shost e) + 2"
  and length_ip_bytes [layout_simps]: "length (ip_bytes h) = 20"
  and length_icmp_bytes [layout_simps]: "length (icmp_bytes c) = 8"
  and length_arp_bytes [layout_simps]:
    "length (arp_bytes a) = length (ar_sha a) + length (ar_tha a) + 16"
  by (simp_all add: eth_bytes_def ip_bytes_def icmp_bytes_def arp_bytes_def)

lemma get_bytes_append:
  "length pre = i \<Longrightarrow> length bs = n \<Longrightarrow> get_bytes (pre @ bs @ post) i n = bs"
  by (simp add: get_bytes_def)

lemma version_ihl:
  "ucast (drop_bit 4 (push_bit 4 (ucast (v :: 4 word)) OR ucast (w :: 4 word) :: byte)) = v"
  "ucast (push_bit 4 (ucast (v :: 4 word)) OR ucast (w :: 4 word) :: byte) = w"
  by (rule bit_word_eqI; auto simp: bit_simps dest: bit_imp_le_length)+

lemma get16_append: "length pre = i \<Longrightarrow> get16 (pre @ put16 w @ post) i = w"
  and get32_append: "length pre = i \<Longrightarrow> get32 (pre @ put32 v @ post) i = v"
  and get8_append: "length pre = i \<Longrightarrow> get8 (pre @ b # post) i = b"
  by (simp_all add: get16_def get32_def get8_def get_bytes_append nth_append)

text \<open>Reading back a header that was stored: each field is found at its offset.\<close>

lemma ip_layout:
  fixes pre post :: bytes and h :: iphdr
  defines "p \<equiv> pre @ ip_bytes h @ post" and "i \<equiv> length pre"
  shows "get8 p i = push_bit 4 (ucast (ip_version h)) OR ucast (ip_ihl h)"
    "get8 p (i + 1) = ip_tos h" "get16 p (i + 2) = ip_tot_len h" "get16 p (i + 4) = ip_id h"
    "get16 p (i + 6) = ip_frag_off h" "get8 p (i + 8) = ip_ttl h" "get8 p (i + 9) = ip_protocol h"
    "get16 p (i + 10) = ip_check h" "get32 p (i + 12) = ip_saddr h" "get32 p (i + 16) = ip_daddr h"
  unfolding assms ip_bytes_def get16_def get32_def get8_def get_bytes_def put16_def put32_def
  by (simp_all add: nth_append)

lemma icmp_layout:
  fixes pre post :: bytes and h :: icmphdr
  defines "p \<equiv> pre @ icmp_bytes h @ post" and "i \<equiv> length pre"
  shows "get8 p i = ic_type h" "get8 p (i + 1) = ic_code h" "get16 p (i + 2) = ic_checksum h"
    "get16 p (i + 4) = ic_id h" "get16 p (i + 6) = ic_sequence h"
  unfolding assms icmp_bytes_def get16_def get32_def get8_def get_bytes_def put16_def put32_def
  by (simp_all add: nth_append)

lemma arp_layout:
  fixes pre post :: bytes and h :: arp_header
  assumes "length (ar_sha h) = 6" "length (ar_tha h) = 6"
  defines "p \<equiv> pre @ arp_bytes h @ post" and "i \<equiv> length pre"
  shows "get16 p i = ar_htype h" "get16 p (i + 2) = ar_ptype h" "get8 p (i + 4) = ar_hlen h"
    "get8 p (i + 5) = ar_plen h" "get16 p (i + 6) = ar_op h" "get_bytes p (i + 8) 6 = ar_sha h"
    "get32 p (i + 14) = ar_spa h" "get_bytes p (i + 18) 6 = ar_tha h" "get32 p (i + 24) = ar_tpa h"
  unfolding assms(3,4) arp_bytes_def get16_def get32_def get8_def get_bytes_def put16_def put32_def
  by (simp_all add: nth_append assms(1,2))

lemma iphdr_at_bytes: "iphdr_at (pre @ ip_bytes h @ post) (length pre) = h"
  by (cases h) (simp only: iphdr_at_def ip_layout version_ihl iphdr.simps)

lemma icmphdr_at_bytes: "icmphdr_at (pre @ icmp_bytes h @ post) (length pre) = h"
  by (cases h) (simp only: icmphdr_at_def icmp_layout icmphdr.simps)

lemma arp_header_at_bytes:
  "length (ar_sha h) = 6 \<Longrightarrow> length (ar_tha h) = 6 \<Longrightarrow>
   arp_header_at (pre @ arp_bytes h @ post) (length pre) = h"
  by (cases h) (simp only: arp_header_at_def arp_layout arp_header.simps)

lemma ether_header_at_bytes:
  "length (ether_dhost h) = 6 \<Longrightarrow> length (ether_shost h) = 6 \<Longrightarrow>
   ether_header_at (eth_bytes h @ post) = h"
  by (cases h) (simp add: ether_header_at_def eth_bytes_def get16_def get_bytes_def)

section \<open>Frames in and out\<close>

definition MAX_LEN :: nat where "MAX_LEN = 1600"
definition ROUTER_NUM_INTERFACES :: nat where "ROUTER_NUM_INTERFACES = 3"

record packet =
  pk_len :: nat
  pk_payload :: bytes
  pk_interface :: nat

text \<open>A frame handed to the kernel on an interface.\<close>

type_synonym frame = "nat \<times> bytes"

text \<open>\<open>read\<close> overwrites the beginning of the payload; the rest keeps what it held.\<close>

definition socket_receive_message :: "bytes \<Rightarrow> packet \<Rightarrow> packet" where
  "socket_receive_message data m =
     (let data = take MAX_LEN data
      in m\<lparr>pk_len := length data, pk_payload := put_bytes (pk_payload m) 0 data\<rparr>)"

text \<open>
  \<open>get_packet\<close> after \<open>select\<close>: \<open>ready ! i\<close> is the frame waiting on interface \<open>i\<close>, if any. The
  lowest ready interface is served; with none ready the loop goes round again (\<open>None\<close>).
\<close>

fun get_packet_from :: "nat \<Rightarrow> bytes option list \<Rightarrow> packet \<Rightarrow> packet option" where
  "get_packet_from i [] m = None"
| "get_packet_from i (Some data # ready) m = Some ((socket_receive_message data m)\<lparr>pk_interface := i\<rparr>)"
| "get_packet_from i (None # ready) m = get_packet_from (Suc i) ready m"

definition get_packet :: "bytes option list \<Rightarrow> packet \<Rightarrow> packet option" where
  "get_packet ready m = get_packet_from 0 (take ROUTER_NUM_INTERFACES ready) m"

text \<open>\<open>send_packet\<close> writes the first \<open>len\<close> bytes; \<open>interfaces\<close> has three elements.\<close>

definition send_packet :: "nat \<Rightarrow> packet \<Rightarrow> frame c_result" where
  "send_packet i m =
     (if i < ROUTER_NUM_INTERFACES then Inr (i, take (pk_len m) (pk_payload m)) else Inl OutOfBounds)"

section \<open>Parsing helpers\<close>

definition ETHERTYPE_IP :: "16 word" where "ETHERTYPE_IP = 0x0800"
definition ETHERTYPE_ARP :: "16 word" where "ETHERTYPE_ARP = 0x0806"
definition ARPHRD_ETHER :: "16 word" where "ARPHRD_ETHER = 1"
definition ARPOP_REQUEST :: "16 word" where "ARPOP_REQUEST = 1"
definition ARPOP_REPLY :: "16 word" where "ARPOP_REPLY = 2"
definition IPPROTO_ICMP :: byte where "IPPROTO_ICMP = 1"
definition ICMP_ECHOREPLY :: byte where "ICMP_ECHOREPLY = 0"
definition ICMP_DEST_UNREACH :: byte where "ICMP_DEST_UNREACH = 3"
definition ICMP_ECHO :: byte where "ICMP_ECHO = 8"
definition ICMP_TIME_EXCEEDED :: byte where "ICMP_TIME_EXCEEDED = 11"

lemmas protocol_consts = ETHERTYPE_IP_def ETHERTYPE_ARP_def ARPHRD_ETHER_def ARPOP_REQUEST_def
  ARPOP_REPLY_def IPPROTO_ICMP_def ICMP_ECHOREPLY_def ICMP_DEST_UNREACH_def ICMP_ECHO_def
  ICMP_TIME_EXCEEDED_def

definition parse_arp :: "bytes \<Rightarrow> arp_header option" where
  "parse_arp buffer =
     (if ntohs (ether_type (ether_header_at buffer)) = ETHERTYPE_ARP
      then Some (arp_header_at buffer ETH_LEN) else None)"

definition parse_icmp :: "bytes \<Rightarrow> icmphdr option" where
  "parse_icmp buffer =
     (if ntohs (ether_type (ether_header_at buffer)) = ETHERTYPE_IP
      then if ip_protocol (iphdr_at buffer ETH_LEN) = 1
           then Some (icmphdr_at buffer (IP_LEN + ETH_LEN)) else None
      else None)"

section \<open>MAC addresses as text\<close>

text \<open>Reading \<open>*txt++\<close> from a C string: past the last character stands the terminator.\<close>

fun next_char :: "string \<Rightarrow> char \<times> string" where
  "next_char [] = (CHR 0x00, [])"
| "next_char (c # cs) = (c, cs)"

definition code :: "char \<Rightarrow> int" where "code c = int (of_char c)"

definition hex2num :: "char \<Rightarrow> int" where
  "hex2num c =
     (if code CHR ''0'' \<le> code c \<and> code c \<le> code CHR ''9'' then code c - code CHR ''0''
      else if code CHR ''a'' \<le> code c \<and> code c \<le> code CHR ''f'' then code c - code CHR ''a'' + 10
      else if code CHR ''A'' \<le> code c \<and> code c \<le> code CHR ''F'' then code c - code CHR ''A'' + 10
      else -1)"

text \<open>\<open>(a << 4) | b\<close> for hexadecimal digits.\<close>

definition hex_pair :: "int \<Rightarrow> int \<Rightarrow> int" where
  "hex_pair a b = push_bit 4 a OR b"

definition hex2byte :: "string \<Rightarrow> int" where
  "hex2byte hex =
     (let (c, hex) = next_char hex; a = hex2num c
      in if a < 0 then -1
         else let (c, hex) = next_char hex; b = hex2num c
           in if b < 0 then -1 else hex_pair a b)"

text \<open>
  The loop of \<open>hwaddr_aton\<close> with \<open>n\<close> rounds left (\<open>i = 6 - n\<close>): the result code and the
  bytes stored through \<open>addr\<close>.
\<close>

fun hwaddr_loop :: "nat \<Rightarrow> string \<Rightarrow> int \<times> bytes" where
  "hwaddr_loop 0 txt = (0, [])"
| "hwaddr_loop (Suc n) txt =
     (let (c, txt) = next_char txt; a = hex2num c
      in if a < 0 then (-1, [])
         else let (c, txt) = next_char txt; b = hex2num c
           in if b < 0 then (-1, [])
              else let v = word_of_int (hex_pair a b)
                in if 0 < n
                   then let (c, txt) = next_char txt
                     in if c \<noteq> CHR '':'' then (-1, [v])
                        else let (rc, bs) = hwaddr_loop n txt in (rc, v # bs)
                   else (0, [v]))"

definition hwaddr_aton :: "string \<Rightarrow> int \<times> bytes" where
  "hwaddr_aton txt = hwaddr_loop 6 txt"

text \<open>The colon-delimited text of an address, in lower case.\<close>

definition hex_byte :: "byte \<Rightarrow> string" where
  "hex_byte b = [hex_digit (unat b div 16), hex_digit (unat b mod 16)]"

fun mac_text :: "bytes \<Rightarrow> string" where
  "mac_text [] = []"
| "mac_text [b] = hex_byte b"
| "mac_text (b # bs) = hex_byte b @ CHR '':'' # mac_text bs"

lemma hex2num_digit: "d < 16 \<Longrightarrow> hex2num (hex_digit d) = int d"
  by (auto simp: hex2num_def hex_digit_def code_def)

lemma hex_pair_value: "d < 16 \<Longrightarrow> e < 16 \<Longrightarrow> hex_pair (int d) (int e) = int (16 * d + e)"
proof -
  assume a: "d < 16" "e < 16"
  have "push_bit 4 (int d) OR int e = push_bit 4 (int d) + int e"
  proof (rule disjunctive_add [symmetric])
    fix n
    have "int e = take_bit 4 (int e)"
      using a(2) by (simp add: take_bit_int_eq_self)
    then show "\<not> bit (push_bit 4 (int d)) n \<or> \<not> bit (int e) n"
      by (metis bit_push_bit_iff bit_take_bit_iff linorder_not_less)
  qed
  then show ?thesis by (simp add: hex_pair_def push_bit_eq_mult)
qed

lemma nibble_hi [simp]: "unat (b :: byte) div 16 < 16"
  using unat_byte_le [of b] by linarith

lemma hex_byte_value: "word_of_int (hex_pair (int (unat b div 16)) (int (unat b mod 16))) = (b :: byte)"
proof -
  have "hex_pair (int (unat b div 16)) (int (unat b mod 16)) = int (unat b)"
    by (subst hex_pair_value [OF nibble_hi]) (simp_all del: of_nat_add of_nat_mult)
  then show ?thesis by simp
qed

lemma hwaddr_loop_mac_text:
  "length bs = Suc n \<Longrightarrow> hwaddr_loop (Suc n) (mac_text bs @ rest) = (0, bs)"
proof (induction bs arbitrary: n rule: mac_text.induct)
  case (2 b)
  then show ?case by (simp add: hex_byte_def hex2num_digit hex_byte_value)
next
  case (3 b c bs)
  then obtain m where m: "n = Suc m" "length (c # bs) = Suc m" by simp
  from "3.IH" [OF m(2)] show ?case
    by (simp add: m(1) hex_byte_def hex2num_digit hex_byte_value del: mac_text.simps(2))
qed simp

section \<open>Building and sending packets\<close>

definition build_ethhdr :: "bytes \<Rightarrow> bytes \<Rightarrow> 16 word \<Rightarrow> ether_header" where
  "build_ethhdr sha dha typ = \<lparr>ether_dhost = dha, ether_shost = sha, ether_type = typ\<rparr>"

text \<open>
  The IP header both ICMP functions fill in. It is a local variable, hence aligned; its
  checksum is computed with the field zeroed.
\<close>

definition icmp_ip_header :: "32 word \<Rightarrow> 32 word \<Rightarrow> iphdr" where
  "icmp_ip_header daddr saddr =
     (let h = \<lparr>ip_version = 4, ip_ihl = 5, ip_tos = 0,
               ip_tot_len = htons (of_nat (IP_LEN + ICMP_LEN)), ip_id = htons 1, ip_frag_off = 0,
               ip_ttl = 64, ip_protocol = IPPROTO_ICMP, ip_check = 0, ip_saddr = saddr,
               ip_daddr = daddr\<rparr>
      in h\<lparr>ip_check := ip_checksum 0 (ip_bytes h)\<rparr>)"

text \<open>The common end of both functions: checksum, layout of the three headers, transmission.\<close>

definition send_icmp_packet ::
    "ether_header \<Rightarrow> iphdr \<Rightarrow> icmphdr \<Rightarrow> nat \<Rightarrow> frame c_result" where
  "send_icmp_packet eth_hdr ip_hdr icmp_hdr i =
     c_bind (icmp_checksum (icmp_bytes icmp_hdr) ICMP_LEN) (\<lambda>cksum.
       let icmp_hdr = icmp_hdr\<lparr>ic_checksum := cksum\<rparr>
       in send_packet i
            \<lparr>pk_len = ETH_LEN + IP_LEN + ICMP_LEN,
             pk_payload = eth_bytes eth_hdr @ ip_bytes ip_hdr @ icmp_bytes icmp_hdr,
             pk_interface = 0\<rparr>)"

definition send_icmp :: "32 word \<Rightarrow> 32 word \<Rightarrow> bytes \<Rightarrow> bytes \<Rightarrow> byte \<Rightarrow> byte \<Rightarrow> nat \<Rightarrow>
    32 word \<Rightarrow> 32 word \<Rightarrow> frame c_result" where
  "send_icmp daddr saddr sha dha typ cod i ident sq =
     send_icmp_packet (build_ethhdr sha dha (htons ETHERTYPE_IP)) (icmp_ip_header daddr saddr)
       \<lparr>ic_type = typ, ic_code = cod, ic_checksum = 0, ic_id = ucast ident, ic_sequence = ucast sq\<rparr> i"

text \<open>The initialiser of \<open>send_icmp_error\<close> leaves the rest of the ICMP header zero.\<close>

definition send_icmp_error :: "32 word \<Rightarrow> 32 word \<Rightarrow> bytes \<Rightarrow> bytes \<Rightarrow> byte \<Rightarrow> byte \<Rightarrow> nat \<Rightarrow>
    frame c_result" where
  "send_icmp_error daddr saddr sha dha typ cod i =
     send_icmp_packet (build_ethhdr sha dha (htons ETHERTYPE_IP)) (icmp_ip_header daddr saddr)
       \<lparr>ic_type = typ, ic_code = cod, ic_checksum = 0, ic_id = 0, ic_sequence = 0\<rparr> i"

definition send_arp :: "32 word \<Rightarrow> 32 word \<Rightarrow> ether_header \<Rightarrow> nat \<Rightarrow> 16 word \<Rightarrow> frame c_result" where
  "send_arp daddr saddr eth_hdr i arp_op =
     (let arp_hdr = \<lparr>ar_htype = htons ARPHRD_ETHER, ar_ptype = htons 2048, ar_hlen = 6, ar_plen = 4,
                     ar_op = arp_op, ar_sha = ether_shost eth_hdr, ar_spa = saddr,
                     ar_tha = ether_dhost eth_hdr, ar_tpa = daddr\<rparr>;
          payload = put_bytes (put_bytes (replicate MAX_LEN 0) 0 (eth_bytes eth_hdr))
                      ETH_LEN (arp_bytes arp_hdr)
      in send_packet i \<lparr>pk_len = ARP_LEN + ETH_LEN, pk_payload = payload, pk_interface = 0\<rparr>)"

lemma ip_bytes_split: "ip_bytes h = take 10 (ip_bytes h) @ put16 (ip_check h) @ drop 12 (ip_bytes h)"
  by (simp add: ip_bytes_def put16_def)

lemma ip_bytes_set_check:
  "ip_bytes (h\<lparr>ip_check := c\<rparr>) = take 10 (ip_bytes h) @ put16 c @ drop 12 (ip_bytes h)"
  by (simp add: ip_bytes_def put16_def)

lemma put16_0: "put16 0 = [0, 0]"
  by (simp add: put16_def byte_at_def)

lemma ip_header_verifies:
  assumes "ip_check h = 0" "c = ip_checksum addr (ip_bytes h)"
  shows "ip_checksum addr' (ip_bytes (h\<lparr>ip_check := c\<rparr>)) = 0"
proof -
  have "ip_bytes h = take 10 (ip_bytes h) @ [0, 0] @ drop 12 (ip_bytes h)"
    using ip_bytes_split [of h] assms(1) by (simp only: put16_0)
  with assms(2) have c: "c = ip_checksum addr (take 10 (ip_bytes h) @ [0, 0] @ drop 12 (ip_bytes h))"
    by simp
  show ?thesis
    unfolding ip_bytes_set_check
    by (rule ip_checksum_verifies [OF _ _ c]) (simp_all add: length_ip_bytes)
qed

lemma icmp_ip_header_verifies: "ip_checksum addr (ip_bytes (icmp_ip_header daddr saddr)) = 0"
  unfolding icmp_ip_header_def Let_def by (rule ip_header_verifies) simp_all

text \<open>The ICMP checksum written by the sender verifies at the receiver.\<close>

lemma icmp_fold_full: "icmp_fold s = 65535 \<longleftrightarrow> s \<noteq> 0 \<and> s mod 65535 = 0"
  by (simp add: icmp_fold_def oc_norm_full)

lemma sum_le_icmp: "sum_le (icmp_bytes h) = unat (ic_checksum h) + sum_le (icmp_bytes (h\<lparr>ic_checksum := 0\<rparr>))"
proof -
  have "icmp_bytes h = [ic_type h, ic_code h] @ put16 (ic_checksum h) @ put16 (ic_id h) @ put16 (ic_sequence h)"
    for h :: icmphdr by (simp add: icmp_bytes_def)
  then show ?thesis
    by (simp add: sum_le_append sum_le_put16 del: append.simps(2))
qed

lemma icmp_checksum_header:
  "\<exists>c. icmp_checksum (icmp_bytes h) ICMP_LEN = Inr c \<and> unat c = 65535 - icmp_fold (sum_le (icmp_bytes h))"
  using icmp_checksum_spec [of "icmp_bytes h" "[]"] by (simp add: length_icmp_bytes ICMP_LEN_def)

lemma icmp_header_verifies:
  assumes "ic_checksum h = 0" "icmp_checksum (icmp_bytes h) ICMP_LEN = Inr c"
  shows "icmp_checksum (icmp_bytes (h\<lparr>ic_checksum := c\<rparr>)) ICMP_LEN = Inr 0"
proof -
  let ?s = "sum_le (icmp_bytes h)"
  have le: "icmp_fold ?s \<le> 65535"
    using oc_norm_range(2) [of ?s] by (simp add: icmp_fold_def)
  have c: "unat c = 65535 - icmp_fold ?s"
    using icmp_checksum_header [of h] assms(2) by auto
  have h0: "h\<lparr>ic_checksum := c, ic_checksum := 0\<rparr> = h"
    using assms(1) by (cases h) simp
  have s: "sum_le (icmp_bytes (h\<lparr>ic_checksum := c\<rparr>)) = unat c + ?s"
    by (subst sum_le_icmp) (simp add: h0 [simplified])
  have "icmp_fold (unat c + ?s) = 65535"
  proof (cases "?s = 0")
    case True
    with c show ?thesis by (simp add: icmp_fold_full) (simp add: icmp_fold_def)
  next
    case False
    then have "unat c + oc_norm ?s = 65535" using c le by (simp add: icmp_fold_def)
    then have "(unat c + ?s) mod 65535 = 0"
      by (metis mod_add_right_eq mod_self oc_norm_mod)
    with False show ?thesis by (simp add: icmp_fold_full)
  qed
  moreover obtain d where "icmp_checksum (icmp_bytes (h\<lparr>ic_checksum := c\<rparr>)) ICMP_LEN = Inr d"
    "unat d = 65535 - icmp_fold (unat c + ?s)"
    using icmp_checksum_header [of "h\<lparr>ic_checksum := c\<rparr>"] s by auto
  ultimately show ?thesis by (simp add: unat_eq_zero)
qed

lemma send_icmp_packet_spec:
  assumes "length (ether_dhost e) = 6" "length (ether_shost e) = 6" "i < ROUTER_NUM_INTERFACES"
    "ic_checksum c = 0"
  shows "\<exists>k. send_icmp_packet e h c i = Inr (i, eth_bytes e @ ip_bytes h @ icmp_bytes (c\<lparr>ic_checksum := k\<rparr>)) \<and>
    icmp_checksum (icmp_bytes (c\<lparr>ic_checksum := k\<rparr>)) ICMP_LEN = Inr 0"
proof -
  obtain k where "icmp_checksum (icmp_bytes c) ICMP_LEN = Inr k"
    using icmp_checksum_header by blast
  with assms icmp_header_verifies [OF assms(4) this] show ?thesis
    by (intro exI [of _ k]) (simp add: send_icmp_packet_def send_packet_def layout_simps header_lens)
qed

lemma send_arp_spec:
  assumes "length (ether_dhost e) = 6" "length (ether_shost e) = 6" "i < ROUTER_NUM_INTERFACES"
  shows "send_arp daddr saddr e i op = Inr (i, eth_bytes e @ arp_bytes
     \<lparr>ar_htype = htons ARPHRD_ETHER, ar_ptype = htons 2048, ar_hlen = 6, ar_plen = 4, ar_op = op,
      ar_sha = ether_shost e, ar_spa = saddr, ar_tha = ether_dhost e, ar_tpa = daddr\<rparr>)"
  using assms by (simp add: send_arp_def send_packet_def put_bytes_def layout_simps header_lens MAX_LEN_def)

end
