(* ===== verification/RouteTable.thy ===== *)
theory RouteTable
  imports CMem "HOL-Library.Multiset"
begin

text \<open>
  The routing table and the ARP table of \<^verbatim>\<open>Tema_1/router.c\<close>: the order the table is sorted
  by, the binary search over it, and the linear search of the ARP table. Addresses and masks
  are 32-bit integers holding the bytes in network order, as loaded on a little-endian host.
\<close>

unbundle bit_operations_syntax

section \<open>Entries\<close>

record route_table =
  prefix :: "32 word"
  next_hop :: "32 word"
  mask :: "32 word"
  rt_interface :: nat

record arp_entry =
  arp_ip :: "32 word"
  arp_mac :: bytes

text \<open>The test of the lookup: the masked destination is the entry's prefix.\<close>

definition route_matches :: "route_table \<Rightarrow> 32 word \<Rightarrow> bool" where
  "route_matches r dest_ip \<longleftrightarrow> mask r AND dest_ip = prefix r"

section \<open>Sorting with a comparison function\<close>

definition comparator :: "route_table \<Rightarrow> route_table \<Rightarrow> int" where
  "comparator p q =
     (if prefix p = prefix q
      then if mask p > mask q then 1 else if mask p < mask q then -1 else 0
      else if prefix p > prefix q then 1 else -1)"

text \<open>
  \<open>qsort\<close> with a comparison function: a stable sort by insertion, whose result is an ordered
  permutation whenever the comparison is a total preorder, the contract \<open>qsort\<close> asks of it.
\<close>

fun insert_cmp :: "('a \<Rightarrow> 'a \<Rightarrow> int) \<Rightarrow> 'a \<Rightarrow> 'a list \<Rightarrow> 'a list" where
  "insert_cmp cmp x [] = [x]"
| "insert_cmp cmp x (y # ys) = (if cmp x y \<le> 0 then x # y # ys else y # insert_cmp cmp x ys)"

definition qsort :: "('a \<Rightarrow> 'a \<Rightarrow> int) \<Rightarrow> 'a list \<Rightarrow> 'a list" where
  "qsort cmp xs = foldr (insert_cmp cmp) xs []"

lemma mset_insert_cmp: "mset (insert_cmp cmp x ys) = add_mset x (mset ys)"
  by (induction ys) auto

lemma set_insert_cmp: "set (insert_cmp cmp x ys) = insert x (set ys)"
  by (metis mset_insert_cmp set_mset_add_mset_insert set_mset_mset)

locale comparison =
  fixes cmp :: "'a \<Rightarrow> 'a \<Rightarrow> int"
  assumes cmp_total: "cmp x y \<le> 0 \<or> cmp y x \<le> 0"
    and cmp_trans: "cmp x y \<le> 0 \<Longrightarrow> cmp y z \<le> 0 \<Longrightarrow> cmp x z \<le> 0"
begin

lemma sorted_insert_cmp:
  "sorted_wrt (\<lambda>x y. cmp x y \<le> 0) ys \<Longrightarrow> sorted_wrt (\<lambda>x y. cmp x y \<le> 0) (insert_cmp cmp x ys)"
proof (induction ys)
  case (Cons y ys)
  then show ?case
    using cmp_total [of x y] by (auto simp: set_insert_cmp intro: cmp_trans [of x y])
qed simp

lemma mset_qsort: "mset (qsort cmp xs) = mset xs"
  by (induction xs) (simp_all add: qsort_def mset_insert_cmp)

lemma sorted_qsort: "sorted_wrt (\<lambda>x y. cmp x y \<le> 0) (qsort cmp xs)"
  by (induction xs) (auto simp: qsort_def intro: sorted_insert_cmp)

lemma set_qsort: "set (qsort cmp xs) = set xs"
  by (metis mset_qsort set_mset_mset)

lemma length_qsort: "length (qsort cmp xs) = length xs"
  by (metis mset_qsort size_mset)

end

lemma comparator_le_iff:
  "comparator p q \<le> 0 \<longleftrightarrow> prefix p < prefix q \<or> prefix p = prefix q \<and> mask p \<le> mask q"
  by (auto simp: comparator_def)

lemma comparator_antisym: "comparator q p = - comparator p q"
  by (auto simp: comparator_def)

interpretation rt: comparison comparator
  by unfold_locales (auto simp: comparator_le_iff)

section \<open>The binary search\<close>

text \<open>
  The result is the index of the entry the returned pointer points at. An index outside the
  table is a read out of bounds. \<open>left + right\<close> is not negative where it is halved, since
  the search starts at \<open>left = 0\<close>.
\<close>

function get_best_route ::
    "route_table list \<Rightarrow> 32 word \<Rightarrow> int \<Rightarrow> int \<Rightarrow> nat option c_result" where
  "get_best_route rtable dest_ip left right =
     (if left \<le> right
      then let mid = (left + right) div 2
        in if mid < 0 \<or> int (length rtable) \<le> mid then Inl OutOfBounds
           else let e = rtable ! nat mid
             in if mask e AND dest_ip = prefix e then Inr (Some (nat mid))
                else if mask e AND dest_ip > prefix e
                then get_best_route rtable dest_ip (mid + 1) right
                else get_best_route rtable dest_ip left (mid - 1)
      else Inr None)"
  by pat_completeness auto
termination
  by (relation "measure (\<lambda>(t, d, l, r). nat (r - l + 1))") auto

declare get_best_route.simps [simp del]

text \<open>The search with the bounds the program starts from.\<close>

definition lookup_route :: "route_table list \<Rightarrow> 32 word \<Rightarrow> nat option c_result" where
  "lookup_route rtable dest_ip = get_best_route rtable dest_ip 0 (int (length rtable) - 1)"

lemma get_best_route_safe:
  "0 \<le> l \<Longrightarrow> r < int (length t) \<Longrightarrow> \<exists>x. get_best_route t d l r = Inr x"
proof (induction t d l r rule: get_best_route.induct)
  case (1 t d l r)
  show ?case
  proof (cases "l \<le> r")
    case True
    let ?mid = "(l + r) div 2" and ?e = "t ! nat ((l + r) div 2)"
    have mid: "\<not> (?mid < 0 \<or> int (length t) \<le> ?mid)"
      using True "1.prems" by linarith
    have "\<exists>x. get_best_route t d (?mid + 1) r = Inr x" if "\<not> mask ?e AND d = prefix ?e" "mask ?e AND d > prefix ?e"
      using "1.IH"(1) [OF True refl mid refl that] mid "1.prems" by simp
    moreover have "\<exists>x. get_best_route t d l (?mid - 1) = Inr x" if "\<not> mask ?e AND d = prefix ?e" "\<not> mask ?e AND d > prefix ?e"
      using "1.IH"(2) [OF True refl mid refl that] mid "1.prems" by simp
    ultimately show ?thesis
      using True mid by (subst get_best_route.simps) (simp add: Let_def)
  qed (subst get_best_route.simps, simp)
qed

lemma get_best_route_sound:
  "get_best_route t d l r = Inr (Some i) \<Longrightarrow>
   l \<le> int i \<and> int i \<le> r \<and> i < length t \<and> route_matches (t ! i) d"
proof (induction t d l r rule: get_best_route.induct)
  case (1 t d l r)
  let ?mid = "(l + r) div 2" and ?e = "t ! nat ((l + r) div 2)"
  have lr: "l \<le> r" and mid: "\<not> (?mid < 0 \<or> int (length t) \<le> ?mid)"
    using "1.prems" by (subst (asm) get_best_route.simps; simp add: Let_def split: if_splits)+
  have b: "l \<le> ?mid" "?mid \<le> r" using lr by simp_all
  consider "mask ?e AND d = prefix ?e" | "\<not> mask ?e AND d = prefix ?e" "mask ?e AND d > prefix ?e"
    | "\<not> mask ?e AND d = prefix ?e" "\<not> mask ?e AND d > prefix ?e" by blast
  then show ?case
  proof cases
    case 1
    with "1.prems" lr mid b show ?thesis
      by (subst (asm) get_best_route.simps) (auto simp: Let_def route_matches_def)
  next
    case 2
    with "1.prems" lr mid have "get_best_route t d (?mid + 1) r = Inr (Some i)"
      by (subst (asm) get_best_route.simps) (simp add: Let_def)
    from "1.IH"(1) [OF lr refl mid refl 2 this] b show ?thesis by simp
  next
    case 3
    with "1.prems" lr mid have "get_best_route t d l (?mid - 1) = Inr (Some i)"
      by (subst (asm) get_best_route.simps) (simp add: Let_def)
    from "1.IH"(2) [OF lr refl mid refl 3 this] b show ?thesis by simp
  qed
qed

text \<open>
  With one mask for all entries the search misses no match. This is what the order of the
  table buys; with different masks it does not hold.
\<close>

lemma get_best_route_complete:
  assumes "\<forall>r \<in> set t. mask r = m" "sorted (map prefix t)"
  shows "0 \<le> l \<Longrightarrow> r < int (length t) \<Longrightarrow> l \<le> int j \<Longrightarrow> int j \<le> r \<Longrightarrow> route_matches (t ! j) d \<Longrightarrow>
    \<exists>i. get_best_route t d l r = Inr (Some i)"
  using assms
proof (induction t d l r rule: get_best_route.induct)
  case (1 t d l r)
  let ?mid = "(l + r) div 2" and ?e = "t ! nat ((l + r) div 2)"
  have lr: "l \<le> r" using "1.prems" by linarith
  have mid: "\<not> (?mid < 0 \<or> int (length t) \<le> ?mid)"
    using lr "1.prems"(1,2) by linarith
  have jl: "j < length t" using "1.prems" by linarith
  have m: "mask ?e = m" "mask (t ! j) = m"
    using "1.prems"(6) mid jl by auto
  have pj: "prefix (t ! j) = m AND d" using "1.prems"(5) m by (simp add: route_matches_def)
  have mono: "prefix (t ! a) \<le> prefix (t ! b)" if "a \<le> b" "b < length t" for a b
    using sorted_nth_mono [OF "1.prems"(7), of a b] that by simp
  consider "mask ?e AND d = prefix ?e" | "\<not> mask ?e AND d = prefix ?e" "mask ?e AND d > prefix ?e"
    | "\<not> mask ?e AND d = prefix ?e" "\<not> mask ?e AND d > prefix ?e" by blast
  then show ?case
  proof cases
    case 1
    with lr mid show ?thesis by (subst get_best_route.simps) (simp add: Let_def)
  next
    case 2
    have "?mid < int j"
    proof (rule ccontr)
      assume "\<not> ?mid < int j"
      then have "prefix (t ! j) \<le> prefix ?e" using mid by (intro mono) linarith+
      with 2 m pj show False by simp
    qed
    with "1.IH"(1) [OF lr refl mid refl 2] "1.prems" mid
    have "\<exists>i. get_best_route t d (?mid + 1) r = Inr (Some i)" by simp
    with 2 lr mid show ?thesis by (subst get_best_route.simps) (simp add: Let_def)
  next
    case 3
    have "int j < ?mid"
    proof (rule ccontr)
      assume "\<not> int j < ?mid"
      then have "prefix ?e \<le> prefix (t ! j)" using mid jl by (intro mono) linarith+
      with 3 m pj show False by simp
    qed
    with "1.IH"(2) [OF lr refl mid refl 3] "1.prems" mid
    have "\<exists>i. get_best_route t d l (?mid - 1) = Inr (Some i)" by simp
    with 3 lr mid show ?thesis by (subst get_best_route.simps) (simp add: Let_def)
  qed
qed

lemma lookup_route_safe: "\<exists>x. lookup_route t d = Inr x"
  unfolding lookup_route_def by (rule get_best_route_safe) simp_all

lemma lookup_route_sound: "lookup_route t d = Inr (Some i) \<Longrightarrow> i < length t \<and> route_matches (t ! i) d"
  unfolding lookup_route_def by (drule get_best_route_sound) simp

lemma sorted_prefix_qsort: "sorted (map prefix (qsort comparator t))"
  using rt.sorted_qsort [of t] by (auto simp: sorted_map comparator_le_iff elim: sorted_wrt_mono_rel [rotated])

section \<open>The ARP table\<close>

text \<open>The loop of \<open>get_arp_entry\<close>: the index of the first entry with the address.\<close>

fun get_arp_entry :: "arp_entry list \<Rightarrow> 32 word \<Rightarrow> nat option" where
  "get_arp_entry [] ip = None"
| "get_arp_entry (e # es) ip = (if ip = arp_ip e then Some 0 else map_option Suc (get_arp_entry es ip))"

lemma get_arp_entry_None: "get_arp_entry es ip = None \<longleftrightarrow> ip \<notin> arp_ip ` set es"
  by (induction es) auto

lemma get_arp_entry_Some:
  "get_arp_entry es ip = Some i \<Longrightarrow> i < length es \<and> arp_ip (es ! i) = ip"
  by (induction es arbitrary: i) (auto split: if_splits)

lemma get_arp_entry_append:
  "get_arp_entry (es @ fs) ip = (case get_arp_entry es ip of Some i \<Rightarrow> Some i
     | None \<Rightarrow> map_option (\<lambda>i. length es + i) (get_arp_entry fs ip))"
  by (induction es; cases "get_arp_entry fs ip") (auto split: option.split)

text \<open>\<open>malloc(sizeof(struct arp_entry) * 10)\<close>: the eleventh entry is written out of bounds.\<close>

definition ARP_CAP :: nat where "ARP_CAP = 10"

definition arp_add :: "arp_entry list \<Rightarrow> 32 word \<Rightarrow> bytes \<Rightarrow> arp_entry list c_result" where
  "arp_add table spa sha =
     (if get_arp_entry table spa = None
      then if length table < ARP_CAP then Inr (table @ [\<lparr>arp_ip = spa, arp_mac = sha\<rparr>])
           else Inl OutOfBounds
      else Inr table)"

definition arp_wf :: "arp_entry list \<Rightarrow> bool" where
  "arp_wf table \<longleftrightarrow> distinct (map arp_ip table) \<and> length table \<le> ARP_CAP"

lemma arp_add_wf: "arp_wf t \<Longrightarrow> arp_add t ip mac = Inr t' \<Longrightarrow> arp_wf t'"
  by (auto simp: arp_wf_def arp_add_def get_arp_entry_None split: if_splits)

lemma arp_add_lookup:
  "arp_add t ip mac = Inr t' \<Longrightarrow> \<exists>i. get_arp_entry t' ip = Some i"
  by (auto simp: arp_add_def get_arp_entry_append split: if_splits option.splits)

lemma arp_add_keeps:
  "arp_add t ip mac = Inr t' \<Longrightarrow> get_arp_entry t ip' = Some i \<Longrightarrow> get_arp_entry t' ip' = Some i \<and> t' ! i = t ! i"
  by (auto simp: arp_add_def get_arp_entry_append nth_append dest: get_arp_entry_Some split: if_splits)

end
