(* ===== verification/PacketQueue.thy ===== *)
theory PacketQueue
  imports Prelude
begin

text \<open>
  The linked list of \<^verbatim>\<open>Tema_1/list.c\<close> and the FIFO queue of \<^verbatim>\<open>Tema_1/queue.c\<close>, on an
  explicit heap of cells. \<open>malloc\<close> hands out an address no live cell has (it is taken
  never to fail, as the code takes it), \<open>free\<close> removes the cell. The interface the router
  relies on is the locale \<open>fifo\<close>; the linked queue is shown to provide it.
\<close>

section \<open>Cells and the heap\<close>

type_synonym addr = nat

record 'e cell =
  cell_element :: 'e
  cell_next :: "addr option"

record 'e heap =
  store :: "addr \<Rightarrow> 'e cell option"
  fresh :: addr

definition empty_heap :: "'e heap" where
  "empty_heap = \<lparr>store = (\<lambda>_. None), fresh = 0\<rparr>"

definition deref :: "'e heap \<Rightarrow> addr option \<Rightarrow> (addr \<times> 'e cell) c_result" where
  "deref h p = (case p of None \<Rightarrow> Inl NullDeref
     | Some a \<Rightarrow> (case store h a of None \<Rightarrow> Inl BadPointer | Some c \<Rightarrow> Inr (a, c)))"

definition store_cell :: "addr \<Rightarrow> 'e cell \<Rightarrow> 'e heap \<Rightarrow> 'e heap" where
  "store_cell a c h = h\<lparr>store := (store h)(a := Some c)\<rparr>"

text \<open>\<open>list.c\<close>.\<close>

definition cons :: "'e \<Rightarrow> addr option \<Rightarrow> 'e heap \<Rightarrow> addr option \<times> 'e heap" where
  "cons el l h =
     (Some (fresh h),
      \<lparr>store = (store h)(fresh h := Some \<lparr>cell_element = el, cell_next = l\<rparr>),
       fresh = Suc (fresh h)\<rparr>)"

definition cdr_and_free :: "addr option \<Rightarrow> 'e heap \<Rightarrow> (addr option \<times> 'e heap) c_result" where
  "cdr_and_free l h =
     c_bind (deref h l) (\<lambda>(a, c). Inr (cell_next c, h\<lparr>store := (store h)(a := None)\<rparr>))"

section \<open>The queue\<close>

record queue =
  q_head :: "addr option"
  q_tail :: "addr option"

definition queue_create :: queue where
  "queue_create = \<lparr>q_head = None, q_tail = None\<rparr>"

definition queue_empty :: "queue \<Rightarrow> bool" where
  "queue_empty q \<longleftrightarrow> q_head q = None"

definition queue_enq :: "queue \<times> 'e heap \<Rightarrow> 'e \<Rightarrow> (queue \<times> 'e heap) c_result" where
  "queue_enq s el = (case s of (q, h) \<Rightarrow>
     if queue_empty q
     then let (p, h') = cons el None h in Inr (q\<lparr>q_head := p, q_tail := p\<rparr>, h')
     else let (p, h') = cons el None h in
       c_bind (deref h' (q_tail q)) (\<lambda>(a, c).
         Inr (q\<lparr>q_tail := p\<rparr>, store_cell a (c\<lparr>cell_next := p\<rparr>) h')))"

definition queue_deq :: "queue \<times> 'e heap \<Rightarrow> ('e \<times> queue \<times> 'e heap) c_result" where
  "queue_deq s = (case s of (q, h) \<Rightarrow>
     if queue_empty q then Inl AssertFail
     else c_bind (deref h (q_head q)) (\<lambda>(a, c).
       c_bind (cdr_and_free (q_head q) h) (\<lambda>(p, h').
         Inr (cell_element c, q\<lparr>q_head := p\<rparr>, h'))))"

section \<open>The FIFO interface\<close>

text \<open>
  A client of a queue sees operations on an opaque state and a relation to the list the
  state stands for, front first.
\<close>

datatype 'e qop = Enq 'e | Deq

fun run_queue :: "('s \<Rightarrow> 'e \<Rightarrow> 's c_result) \<Rightarrow> ('s \<Rightarrow> ('e \<times> 's) c_result) \<Rightarrow>
    's \<Rightarrow> 'e qop list \<Rightarrow> ('e list \<times> 's) c_result" where
  "run_queue enq deq s [] = Inr ([], s)"
| "run_queue enq deq s (Enq x # ops) = c_bind (enq s x) (\<lambda>s'. run_queue enq deq s' ops)"
| "run_queue enq deq s (Deq # ops) =
     c_bind (deq s) (\<lambda>(x, s').
       c_bind (run_queue enq deq s' ops) (\<lambda>(xs, s''). Inr (x # xs, s'')))"

text \<open>The specification: a list, added to at the end and removed from at the front.\<close>

definition enq_list :: "'e list \<Rightarrow> 'e \<Rightarrow> 'e list c_result" where
  "enq_list xs x = Inr (xs @ [x])"

fun deq_list :: "'e list \<Rightarrow> ('e \<times> 'e list) c_result" where
  "deq_list [] = Inl AssertFail"
| "deq_list (x # xs) = Inr (x, xs)"

locale fifo =
  fixes enq :: "'s \<Rightarrow> 'e \<Rightarrow> 's c_result"
    and deq :: "'s \<Rightarrow> ('e \<times> 's) c_result"
    and is_empty :: "'s \<Rightarrow> bool"
    and rep :: "'s \<Rightarrow> 'e list \<Rightarrow> bool"
  assumes rep_empty: "rep s xs \<Longrightarrow> is_empty s \<longleftrightarrow> xs = []"
    and rep_enq: "rep s xs \<Longrightarrow> \<exists>s'. enq s x = Inr s' \<and> rep s' (xs @ [x])"
    and rep_deq: "rep s (x # xs) \<Longrightarrow> \<exists>s'. deq s = Inr (x, s') \<and> rep s' xs"
    and rep_deq_nil: "rep s [] \<Longrightarrow> deq s = Inl AssertFail"
begin

text \<open>Any sequence of operations behaves as on the list, failures included.\<close>

lemma run_refines:
  "rep s xs \<Longrightarrow>
   (case run_queue enq_list deq_list xs ops of
      Inl e \<Rightarrow> run_queue enq deq s ops = Inl e
    | Inr (out, ys) \<Rightarrow> \<exists>s'. run_queue enq deq s ops = Inr (out, s') \<and> rep s' ys)"
proof (induction ops arbitrary: s xs)
  case Nil
  then show ?case by simp
next
  case (Cons op ops)
  show ?case
  proof (cases op)
    case (Enq x)
    from rep_enq [OF Cons.prems] obtain s' where s': "enq s x = Inr s'" "rep s' (xs @ [x])"
      by blast
    from Cons.IH [OF s'(2)] show ?thesis
      by (auto simp: Enq enq_list_def s'(1) split: sum.splits)
  next
    case Deq
    show ?thesis
    proof (cases xs)
      case Nil
      with Deq Cons.prems rep_deq_nil show ?thesis by simp
    next
      case (Cons x xs')
      with rep_deq Cons.prems obtain s' where s': "deq s = Inr (x, s')" "rep s' xs'"
        by blast
      from Cons.IH [OF s'(2)] show ?thesis
        by (cases "run_queue enq_list deq_list xs' ops") (auto simp: Deq Cons s'(1))
    qed
  qed
qed

lemma never_stuck_nonempty: "rep s xs \<Longrightarrow> \<not> is_empty s \<Longrightarrow> \<exists>x s'. deq s = Inr (x, s')"
  by (cases xs) (auto simp: rep_empty dest: rep_deq)

end

section \<open>The linked queue provides the interface\<close>

fun lseg :: "'e heap \<Rightarrow> addr option \<Rightarrow> addr list \<Rightarrow> 'e list \<Rightarrow> bool" where
  "lseg h p [] xs \<longleftrightarrow> p = None \<and> xs = []"
| "lseg h p (a # as) xs \<longleftrightarrow> p = Some a \<and>
     (case (store h a, xs) of
        (Some c, x # xs') \<Rightarrow> cell_element c = x \<and> lseg h (cell_next c) as xs'
      | _ \<Rightarrow> False)"

definition queue_rep :: "queue \<times> 'e heap \<Rightarrow> 'e list \<Rightarrow> bool" where
  "queue_rep s xs \<longleftrightarrow> (case s of (q, h) \<Rightarrow>
     \<exists>as. distinct as \<and> lseg h (q_head q) as xs \<and> dom (store h) = set as \<and>
       (\<forall>a \<in> set as. a < fresh h) \<and> (as \<noteq> [] \<longrightarrow> q_tail q = Some (last as)))"

lemma lseg_frame: "a \<notin> set as \<Longrightarrow> store h' = (store h)(a := v) \<Longrightarrow> lseg h' p as xs = lseg h p as xs"
  by (induction h p as xs rule: lseg.induct) (auto split: option.splits list.splits)

lemma lseg_length: "lseg h p as xs \<Longrightarrow> length as = length xs"
  by (induction h p as xs rule: lseg.induct) (auto split: option.splits list.splits)

lemma lseg_store: "lseg h p as xs \<Longrightarrow> a \<in> set as \<Longrightarrow> \<exists>c. store h a = Some c"
  by (induction h p as xs rule: lseg.induct) (auto split: option.splits list.splits)

lemma lseg_snoc:
  assumes "lseg h p as xs" "as \<noteq> []" "distinct as" "n \<notin> set as" "store h (last as) = Some c"
    "store h' = (store h)(n := Some \<lparr>cell_element = x, cell_next = None\<rparr>,
                          last as := Some (c\<lparr>cell_next := Some n\<rparr>))"
  shows "lseg h' p (as @ [n]) (xs @ [x])"
  using assms
proof (induction as arbitrary: p xs)
  case Nil
  then show ?case by simp
next
  case (Cons a as)
  show ?case
  proof (cases "as = []")
    case True
    with Cons.prems show ?thesis by (auto split: option.splits list.splits)
  next
    case False
    from Cons.prems(1) obtain d y ys where d: "p = Some a" "store h a = Some d" "xs = y # ys"
      "cell_element d = y" "lseg h (cell_next d) as ys"
      by (auto split: option.splits list.splits)
    from False Cons.prems have "lseg h' (cell_next d) (as @ [n]) (ys @ [x])"
      by (intro Cons.IH) (auto simp: d)
    with False Cons.prems d show ?thesis by auto
  qed
qed

lemma queue_rep_create: "queue_rep (queue_create, empty_heap) []"
  by (auto simp: queue_rep_def queue_create_def empty_heap_def intro: exI [of _ "[]"])

lemma queue_rep_empty: "queue_rep s xs \<Longrightarrow> queue_empty (fst s) \<longleftrightarrow> xs = []"
proof -
  assume "queue_rep s xs"
  then obtain as where "lseg (snd s) (q_head (fst s)) as xs"
    unfolding queue_rep_def case_prod_beta by blast
  then show ?thesis
    by (cases as) (auto simp: queue_empty_def split: option.splits list.splits)
qed

lemma queue_rep_enq:
  assumes "queue_rep s xs"
  shows "\<exists>s'. queue_enq s x = Inr s' \<and> queue_rep s' (xs @ [x])"
proof -
  obtain q h where s: "s = (q, h)" by (cases s)
  obtain as where as: "distinct as" "lseg h (q_head q) as xs" "dom (store h) = set as"
    "\<forall>a \<in> set as. a < fresh h" "as \<noteq> [] \<longrightarrow> q_tail q = Some (last as)"
    using assms unfolding queue_rep_def s prod.case by blast
  from as(4) have fr: "fresh h \<notin> set as" by blast
  show ?thesis
  proof (cases "as = []")
    case True
    with as have "q_head q = None" "xs = []" "store h = Map.empty" by auto
    then show ?thesis
      by (auto simp: s queue_enq_def queue_empty_def cons_def queue_rep_def
          intro!: exI [of _ "[fresh h]"])
  next
    case False
    with as(2) obtain a where hd: "q_head q = Some a" by (cases as) auto
    from False as(2) obtain c where c: "store h (last as) = Some c"
      using lseg_store last_in_set by metis
    from False fr have ne: "last as \<noteq> fresh h" by (metis last_in_set)
    let ?h = "store_cell (last as) (c\<lparr>cell_next := Some (fresh h)\<rparr>) (snd (cons x None h))"
    have "queue_enq s x = Inr (q\<lparr>q_tail := Some (fresh h)\<rparr>, ?h)"
      using False as(5) c hd ne by (simp add: s queue_enq_def queue_empty_def cons_def deref_def)
    moreover have "lseg ?h (q_head q) (as @ [fresh h]) (xs @ [x])"
      by (rule lseg_snoc [OF as(2) False as(1) fr c]) (simp add: store_cell_def cons_def)
    moreover have "dom (store ?h) = set (as @ [fresh h])"
      using as(3) False by (auto simp: store_cell_def cons_def)
    ultimately show ?thesis
      using as fr by (auto simp: queue_rep_def less_Suc_eq store_cell_def cons_def
          intro!: exI [of _ "as @ [fresh h]"])
  qed
qed

lemma queue_rep_deq:
  assumes "queue_rep s (x # xs)"
  shows "\<exists>s'. queue_deq s = Inr (x, s') \<and> queue_rep s' xs"
proof -
  obtain q h where s: "s = (q, h)" by (cases s)
  from assms obtain as where as: "distinct as" "lseg h (q_head q) as (x # xs)"
    "dom (store h) = set as" "\<forall>a \<in> set as. a < fresh h" "as \<noteq> [] \<longrightarrow> q_tail q = Some (last as)"
    by (auto simp: queue_rep_def s)
  from as(2) obtain a as' c where a: "as = a # as'" "q_head q = Some a" "store h a = Some c"
    "cell_element c = x" "lseg h (cell_next c) as' xs"
    by (cases as) (auto split: option.splits)
  let ?h = "h\<lparr>store := (store h)(a := None)\<rparr>"
  have "queue_deq s = Inr (x, q\<lparr>q_head := cell_next c\<rparr>, ?h)"
    by (simp add: s queue_deq_def queue_empty_def deref_def cdr_and_free_def a)
  moreover have "lseg ?h (cell_next c) as' xs"
    using a(1,5) as(1) lseg_frame [of a as' ?h h None] by simp
  ultimately show ?thesis
    using as a by (auto simp: queue_rep_def intro!: exI [of _ as'])
qed

lemma queue_rep_deq_nil: "queue_rep s [] \<Longrightarrow> queue_deq s = Inl AssertFail"
  using queue_rep_empty [of s "[]"] by (auto simp: queue_deq_def split: prod.splits)

interpretation lq: fifo queue_enq queue_deq "\<lambda>s. queue_empty (fst s)" queue_rep
  by unfold_locales (simp_all only: queue_rep_empty queue_rep_enq queue_rep_deq queue_rep_deq_nil)

end
