(* ===== verification/Router.thy ===== *)
theory Router
  imports Skel RouteTable PacketQueue
begin

text \<open>
  The forwarding loop of \<^verbatim>\<open>Tema_1/router.c\<close>. One step receives a frame into the packet
  buffer \<open>m\<close> and handles it; its result is the new state and the frames sent, or the error
  the code runs into.
\<close>

unbundle bit_operations_syntax

section \<open>State and environment\<close>

text \<open>
  What the program asks the operating system, and one thing C leaves open. \<open>if_ip\<close> and
  \<open>if_mac\<close> are the addresses of the interfaces, \<open>pid\<close> the process id. Every packet put in the
  queue is the address of the block-local variable \<open>p\<close>, read after the block has ended:
  \<open>stale\<close> gives what that read yields from the bytes last stored in \<open>p\<close>. A compiler that
  leaves the stack slot alone is \<open>stale = (\<lambda>p. p)\<close>.
\<close>

record env =
  if_ip :: "nat \<Rightarrow> 32 word"
  if_mac :: "nat \<Rightarrow> bytes"
  pid :: "32 word"
  stale :: "packet \<Rightarrow> packet"

datatype packet_ptr = AddrOfP

record router =
  rtable :: "route_table list"
  arp_table :: "arp_entry list"
  pqueue :: "queue \<times> packet_ptr heap"
  p_slot :: packet
  msg :: packet

type_synonym outcome = "(router \<times> frame list) c_result"

definition router_init :: "route_table list \<Rightarrow> packet \<Rightarrow> packet \<Rightarrow> router" where
  "router_init routes p m =
     \<lparr>rtable = qsort comparator routes, arp_table = [], pqueue = (queue_create, empty_heap),
      p_slot = p, msg = m\<rparr>"

definition send_and_stop :: "router \<Rightarrow> frame c_result \<Rightarrow> outcome" where
  "send_and_stop s r = c_bind r (\<lambda>f. Inr (s, [f]))"

section \<open>IP packets\<close>

text \<open>The IP header of a received packet starts 2 bytes past a multiple of 4.\<close>

definition IP_HDR_ADDR :: nat where "IP_HDR_ADDR = 4 + ETH_LEN"

definition echo_for_me :: "env \<Rightarrow> packet \<Rightarrow> bool" where
  "echo_for_me e m =
     (case parse_icmp (pk_payload m) of
        None \<Rightarrow> False
      | Some icmp_hdr \<Rightarrow>
          ip_daddr (iphdr_at (pk_payload m) ETH_LEN) = if_ip e (pk_interface m) \<and>
          ic_type icmp_hdr = ICMP_ECHO \<and> ic_code icmp_hdr = 0)"

text \<open>\<open>ttl--\<close>, \<open>check = 0\<close>, \<open>check = ip_checksum(...)\<close>, in the packet buffer.\<close>

definition decrement_ttl :: "bytes \<Rightarrow> bytes" where
  "decrement_ttl p =
     (let p = put_bytes p (ETH_LEN + 8) [get8 p (ETH_LEN + 8) - 1];
          p = put_bytes p (ETH_LEN + 10) (put16 0)
      in put_bytes p (ETH_LEN + 10) (put16 (ip_checksum IP_HDR_ADDR (get_bytes p ETH_LEN IP_LEN))))"

text \<open>\<open>ether_shost\<close>, then \<open>ether_dhost\<close>, rewritten in place.\<close>

definition set_macs :: "bytes \<Rightarrow> bytes \<Rightarrow> bytes \<Rightarrow> bytes" where
  "set_macs shost dhost p = put_bytes (put_bytes p 6 shost) 0 dhost"

definition arp_query :: "env \<Rightarrow> router \<Rightarrow> route_table \<Rightarrow> outcome" where
  "arp_query e s best_route =
     (let i = rt_interface best_route;
          new_eth_hdr_1 = \<lparr>ether_dhost = snd (hwaddr_aton ''ff:ff:ff:ff:ff:ff:ff''),
                           ether_shost = if_mac e i, ether_type = htons ETHERTYPE_ARP\<rparr>
      in c_bind (send_arp (next_hop best_route) (if_ip e i) new_eth_hdr_1 i (htons ARPOP_REQUEST)) (\<lambda>f.
         c_bind (queue_enq (pqueue s) AddrOfP) (\<lambda>q.
           Inr (s\<lparr>p_slot := msg s, pqueue := q\<rparr>, [f]))))"

definition forward_ip :: "env \<Rightarrow> router \<Rightarrow> route_table \<Rightarrow> outcome" where
  "forward_ip e s best_route =
     (let m = (msg s)\<lparr>pk_payload := decrement_ttl (pk_payload (msg s))\<rparr>;
          s = s\<lparr>msg := m\<rparr>;
          ip_hdr = iphdr_at (pk_payload m) ETH_LEN
      in case get_arp_entry (arp_table s) (ip_daddr ip_hdr) of
           None \<Rightarrow> arp_query e s best_route
         | Some k \<Rightarrow>
             let m = m\<lparr>pk_payload := set_macs (if_mac e (rt_interface best_route))
                                     (arp_mac (arp_table s ! k)) (pk_payload m)\<rparr>
             in send_and_stop (s\<lparr>msg := m\<rparr>) (send_packet (rt_interface best_route) m))"

definition handle_ip :: "env \<Rightarrow> router \<Rightarrow> outcome" where
  "handle_ip e s =
     (let m = msg s;
          eth_hdr = ether_header_at (pk_payload m);
          ip_hdr = iphdr_at (pk_payload m) ETH_LEN;
          i = pk_interface m
      in if echo_for_me e m
         then send_and_stop s (send_icmp (ip_saddr ip_hdr) (ip_daddr ip_hdr) (ether_dhost eth_hdr)
                (ether_shost eth_hdr) ICMP_ECHOREPLY 0 i (ucast (htons (ucast (pid e)))) 0)
         else if ip_ttl ip_hdr \<le> 1
         then send_and_stop s (send_icmp_error (ip_saddr ip_hdr) (ip_daddr ip_hdr)
                (ether_dhost eth_hdr) (ether_shost eth_hdr) ICMP_TIME_EXCEEDED 0 i)
         else if ip_checksum IP_HDR_ADDR (get_bytes (pk_payload m) ETH_LEN IP_LEN) \<noteq> 0
         then Inr (s, [])
         else c_bind (lookup_route (rtable s) (ip_daddr ip_hdr)) (\<lambda>best_route.
           case best_route of
             None \<Rightarrow> send_and_stop s (send_icmp_error (ip_saddr ip_hdr) (ip_daddr ip_hdr)
                (ether_dhost eth_hdr) (ether_shost eth_hdr) ICMP_DEST_UNREACH 0 i)
           | Some k \<Rightarrow> forward_ip e s (rtable s ! k)))"

section \<open>ARP packets\<close>

text \<open>
  One queued packet is sent after an ARP reply. \<open>best_r\<close> is read without a check for
  \<open>NULL\<close>.
\<close>

definition flush_one :: "env \<Rightarrow> router \<Rightarrow> arp_header \<Rightarrow> outcome" where
  "flush_one e s arp_hdr =
     c_bind (queue_deq (pqueue s)) (\<lambda>(ptr, q).
       let packet_aux = (case ptr of AddrOfP \<Rightarrow> stale e (p_slot s));
           ip_hdr_p = iphdr_at (pk_payload packet_aux) ETH_LEN
       in c_bind (lookup_route (rtable s) (ip_daddr ip_hdr_p)) (\<lambda>best_r.
            case best_r of
              None \<Rightarrow> Inl NullDeref
            | Some k \<Rightarrow>
                let i = rt_interface (rtable s ! k);
                    payload = put_bytes (pk_payload packet_aux) 0 (ar_sha arp_hdr);
                    payload = put_bytes payload 6 (if_mac e i)
                in send_and_stop (s\<lparr>pqueue := q\<rparr>)
                     (send_packet i (packet_aux\<lparr>pk_payload := payload\<rparr>))))"

definition answer_request :: "env \<Rightarrow> router \<Rightarrow> arp_header \<Rightarrow> frame list c_result" where
  "answer_request e s arp_hdr =
     (let m = msg s; eth_hdr = ether_header_at (pk_payload m); i = pk_interface m
      in if ar_tpa arp_hdr = if_ip e i
         then if ar_op arp_hdr = htons ARPOP_REQUEST
              then let new_eth_hdr = \<lparr>ether_dhost = ether_shost eth_hdr, ether_shost = if_mac e i,
                                      ether_type = ether_type eth_hdr\<rparr>
                in c_bind (send_arp (ar_spa arp_hdr) (ar_tpa arp_hdr) new_eth_hdr i (htons ARPOP_REPLY))
                     (\<lambda>f. Inr [f])
              else Inr []
         else Inr [])"

definition learn_reply :: "env \<Rightarrow> router \<Rightarrow> arp_header \<Rightarrow> outcome" where
  "learn_reply e s arp_hdr =
     (if ar_op arp_hdr = htons ARPOP_REPLY
      then c_bind (arp_add (arp_table s) (ar_spa arp_hdr) (ar_sha arp_hdr)) (\<lambda>table.
             let s = s\<lparr>arp_table := table\<rparr>
             in if \<not> queue_empty (fst (pqueue s)) then flush_one e s arp_hdr else Inr (s, []))
      else Inr (s, []))"

definition handle_arp :: "env \<Rightarrow> router \<Rightarrow> outcome" where
  "handle_arp e s =
     (case parse_arp (pk_payload (msg s)) of
        None \<Rightarrow> Inr (s, [])
      | Some arp_hdr \<Rightarrow>
          c_bind (answer_request e s arp_hdr) (\<lambda>fs.
          c_bind (learn_reply e s arp_hdr) (\<lambda>(s, fs'). Inr (s, fs @ fs'))))"

section \<open>The loop\<close>

definition handle_packet :: "env \<Rightarrow> router \<Rightarrow> outcome" where
  "handle_packet e s =
     (let typ = ether_type (ether_header_at (pk_payload (msg s)))
      in if typ = htons ETHERTYPE_IP then handle_ip e s
         else if typ = htons ETHERTYPE_ARP then handle_arp e s
         else Inr (s, []))"

definition router_step :: "env \<Rightarrow> router \<Rightarrow> bytes option list \<Rightarrow> outcome" where
  "router_step e s ready =
     (case get_packet ready (msg s) of
        None \<Rightarrow> Inr (s, [])
      | Some m \<Rightarrow> handle_packet e (s\<lparr>msg := m\<rparr>))"

fun router_run :: "env \<Rightarrow> router \<Rightarrow> bytes option list list \<Rightarrow> outcome" where
  "router_run e s [] = Inr (s, [])"
| "router_run e s (ready # rest) =
     c_bind (router_step e s ready) (\<lambda>(s, fs).
       c_bind (router_run e s rest) (\<lambda>(s, fs'). Inr (s, fs @ fs')))"

section \<open>Rewriting a packet in place\<close>

lemma put_bytes_within:
  "length pre = i \<Longrightarrow> j + length bs \<le> length xs \<Longrightarrow>
   put_bytes (pre @ xs @ post) (i + j) bs = pre @ put_bytes xs j bs @ post"
  by (simp add: put_bytes_def)

lemma get_bytes_within:
  "length pre = i \<Longrightarrow> j + n \<le> length xs \<Longrightarrow> get_bytes (pre @ xs @ post) (i + j) n = get_bytes xs j n"
  by (simp add: get_bytes_def)

text \<open>A frame is its Ethernet header, its IP header, and what follows.\<close>

lemma nibbles: "push_bit 4 (ucast (ucast (drop_bit 4 b) :: 4 word)) OR ucast (ucast b :: 4 word) = (b :: byte)"
  by (rule bit_word_eqI) (auto simp: bit_simps dest: bit_imp_le_length)

lemma ip_bytes_at: "i + 20 \<le> length p \<Longrightarrow> ip_bytes (iphdr_at p i) = get_bytes p i 20"
proof -
  assume a: "i + 20 \<le> length p"
  define q where "q = get_bytes p i 20"
  have q: "length q = 20" using a by (simp add: q_def length_get_bytes)
  then obtain b0 b1 b2 b3 b4 b5 b6 b7 b8 b9 b10 b11 b12 b13 b14 b15 b16 b17 b18 b19 where
    qs: "q = [b0, b1, b2, b3, b4, b5, b6, b7, b8, b9, b10, b11, b12, b13, b14, b15, b16, b17, b18, b19]"
    by (auto simp: numeral_eq_Suc length_Suc_conv)
  have p: "p = take i p @ q @ drop (i + 20) p"
    by (simp add: q_def get_bytes_def) (metis append_take_drop_id drop_drop add.commute)
  have ti: "length (take i p) = i" using a by simp
  have "iphdr_at p i = iphdr_at (take i p @ q @ drop (i + 20) p) i" using p by simp
  also have "\<dots> = iphdr_at q 0"
    using ti unfolding iphdr_at_def get8_def get16_def get32_def
    by (simp add: get_bytes_within qs nth_append) (simp add: get_bytes_def)
  finally have "ip_bytes (iphdr_at p i) = ip_bytes (iphdr_at q 0)" by simp
  also have "\<dots> = q"
    by (simp add: ip_bytes_def iphdr_at_def get8_def get16_def get32_def get_bytes_def qs nibbles)
  finally show ?thesis by (simp add: q_def)
qed

lemma eth_bytes_at: "14 \<le> length p \<Longrightarrow> eth_bytes (ether_header_at p) = take 14 p"
proof -
  assume a: "14 \<le> length p"
  have "take (6 + (6 + 2)) p = take 6 p @ take 6 (drop 6 p) @ take 2 (drop 6 (drop 6 p))"
    by (simp only: take_add)
  then have "take 14 p = take 6 p @ take 6 (drop 6 p) @ take 2 (drop 12 p)"
    by simp
  moreover have "put16 (get16 p 12) = take 2 (drop 12 p)"
  proof -
    obtain x y where "take 2 (drop 12 p) = [x, y]"
      using a length_2_conv [of "take 2 (drop 12 p)"] by auto
    then show ?thesis by (simp add: get16_def get_bytes_def)
  qed
  ultimately show ?thesis
    by (simp add: eth_bytes_def ether_header_at_def get_bytes_def)
qed

lemma frame_split:
  assumes "34 \<le> length p"
  shows "p = eth_bytes (ether_header_at p) @ ip_bytes (iphdr_at p ETH_LEN) @ drop 34 p"
proof -
  have "p = take 14 p @ take 20 (drop 14 p) @ drop 20 (drop 14 p)" by (simp only: append_take_drop_id)
  then show ?thesis
    using assms by (simp add: eth_bytes_at ip_bytes_at ETH_LEN_def get_bytes_def)
qed

lemma ip_bytes_put_ttl: "put_bytes (ip_bytes h) 8 [v] = ip_bytes (h\<lparr>ip_ttl := v\<rparr>)"
  and ip_bytes_put_check: "put_bytes (ip_bytes h) 10 (put16 c) = ip_bytes (h\<lparr>ip_check := c\<rparr>)"
  by (simp_all add: put_bytes_def ip_bytes_def put16_def put32_def)

definition next_ip :: "iphdr \<Rightarrow> iphdr" where
  "next_ip h = (let h = h\<lparr>ip_ttl := ip_ttl h - 1, ip_check := 0\<rparr>
                in h\<lparr>ip_check := ip_checksum IP_HDR_ADDR (ip_bytes h)\<rparr>)"

lemma decrement_ttl_frame:
  assumes "length pre = 14"
  shows "decrement_ttl (pre @ ip_bytes h @ post) = pre @ ip_bytes (next_ip h) @ post"
proof -
  have w: "put_bytes (pre @ ip_bytes k @ post) (ETH_LEN + j) bs = pre @ put_bytes (ip_bytes k) j bs @ post"
    if "j + length bs \<le> 20" for j bs k
    using that assms by (intro put_bytes_within) (simp_all add: ETH_LEN_def length_ip_bytes)
  have "get8 (pre @ ip_bytes h @ post) (ETH_LEN + 8) = ip_ttl h"
    using ip_layout(6) [of pre h post] assms by (simp add: ETH_LEN_def)
  moreover have "get_bytes (pre @ ip_bytes k @ post) ETH_LEN IP_LEN = ip_bytes k" for k
    using assms by (intro get_bytes_append) (simp_all add: header_lens length_ip_bytes)
  ultimately show ?thesis
    by (simp add: decrement_ttl_def Let_def w ip_bytes_put_ttl ip_bytes_put_check next_ip_def)
qed

lemma next_ip_verifies: "ip_checksum addr (ip_bytes (next_ip h)) = 0"
  unfolding next_ip_def Let_def by (rule ip_header_verifies) simp_all

lemma next_ip_fields [simp]:
  "ip_ttl (next_ip h) = ip_ttl h - 1" "ip_daddr (next_ip h) = ip_daddr h"
  "ip_saddr (next_ip h) = ip_saddr h" "ip_protocol (next_ip h) = ip_protocol h"
  by (simp_all add: next_ip_def Let_def)

lemma next_ip_shape: "next_ip h = h\<lparr>ip_ttl := ip_ttl h - 1, ip_check := ip_check (next_ip h)\<rparr>"
  by (simp add: next_ip_def Let_def)

lemma set_macs_frame:
  assumes "length (ether_dhost e) = 6" "length (ether_shost e) = 6" "length sh = 6" "length dh = 6"
  shows "set_macs sh dh (eth_bytes e @ r) = eth_bytes (e\<lparr>ether_dhost := dh, ether_shost := sh\<rparr>) @ r"
  using assms by (simp add: set_macs_def put_bytes_def eth_bytes_def)

lemma ether_header_at_lengths:
  "14 \<le> length p \<Longrightarrow> length (ether_dhost (ether_header_at p)) = 6"
  "14 \<le> length p \<Longrightarrow> length (ether_shost (ether_header_at p)) = 6"
  by (simp_all add: ether_header_at_def get_bytes_def)

lemma decrement_ttl_spec:
  assumes "34 \<le> length p"
  shows "decrement_ttl p =
    eth_bytes (ether_header_at p) @ ip_bytes (next_ip (iphdr_at p ETH_LEN)) @ drop 34 p"
  using assms by (subst frame_split [OF assms]) (simp add: decrement_ttl_frame eth_bytes_at)

lemma iphdr_at_decrement: "34 \<le> length p \<Longrightarrow> iphdr_at (decrement_ttl p) ETH_LEN = next_ip (iphdr_at p ETH_LEN)"
  using iphdr_at_bytes [of "eth_bytes (ether_header_at p)"]
  by (simp add: decrement_ttl_spec eth_bytes_at ETH_LEN_def)

lemma length_decrement_ttl: "34 \<le> length p \<Longrightarrow> length (decrement_ttl p) = length p"
  by (simp add: decrement_ttl_spec eth_bytes_at length_ip_bytes)

section \<open>The IP path\<close>

text \<open>The frame the router sends for a packet it forwards.\<close>

definition forwarded_frame :: "bytes \<Rightarrow> bytes \<Rightarrow> packet \<Rightarrow> bytes" where
  "forwarded_frame shost dhost m =
     take (pk_len m)
       (eth_bytes ((ether_header_at (pk_payload m))\<lparr>ether_dhost := dhost, ether_shost := shost\<rparr>) @
        ip_bytes (next_ip (iphdr_at (pk_payload m) ETH_LEN)) @ drop 34 (pk_payload m))"

text \<open>The packet is for forwarding: an intact IP packet that lives on.\<close>

definition to_forward :: "env \<Rightarrow> packet \<Rightarrow> bool" where
  "to_forward e m \<longleftrightarrow>
     ether_type (ether_header_at (pk_payload m)) = htons ETHERTYPE_IP \<and> \<not> echo_for_me e m \<and>
     1 < ip_ttl (iphdr_at (pk_payload m) ETH_LEN) \<and>
     ip_checksum IP_HDR_ADDR (get_bytes (pk_payload m) ETH_LEN IP_LEN) = 0"

abbreviation dest :: "packet \<Rightarrow> 32 word" where
  "dest m \<equiv> ip_daddr (iphdr_at (pk_payload m) ETH_LEN)"

lemma handle_packet_forward:
  "to_forward e (msg s) \<Longrightarrow> lookup_route (rtable s) (dest (msg s)) = Inr (Some k) \<Longrightarrow>
   handle_packet e s = forward_ip e s (rtable s ! k)"
  by (auto simp: handle_packet_def handle_ip_def to_forward_def Let_def dest: leD)

lemma forward_ip_hit:
  assumes "34 \<le> length (pk_payload (msg s))" "get_arp_entry (arp_table s) (dest (msg s)) = Some a"
    "length (arp_mac (arp_table s ! a)) = 6" "length (if_mac e (rt_interface r)) = 6"
    "rt_interface r < ROUTER_NUM_INTERFACES"
  shows "\<exists>m. forward_ip e s r = Inr (s\<lparr>msg := m\<rparr>,
    [(rt_interface r, forwarded_frame (if_mac e (rt_interface r)) (arp_mac (arp_table s ! a)) (msg s))])"
proof -
  let ?p = "pk_payload (msg s)"
  have "set_macs (if_mac e (rt_interface r)) (arp_mac (arp_table s ! a)) (decrement_ttl ?p) =
      eth_bytes ((ether_header_at ?p)\<lparr>ether_dhost := arp_mac (arp_table s ! a),
        ether_shost := if_mac e (rt_interface r)\<rparr>) @ ip_bytes (next_ip (iphdr_at ?p ETH_LEN)) @ drop 34 ?p"
    using assms by (simp add: decrement_ttl_spec set_macs_frame ether_header_at_lengths)
  with assms show ?thesis
    by (auto simp: forward_ip_def Let_def iphdr_at_decrement send_and_stop_def send_packet_def
        forwarded_frame_def)
qed

lemma broadcast: "hwaddr_aton ''ff:ff:ff:ff:ff:ff:ff'' = (0, replicate 6 0xff)"
  by code_simp

text \<open>The ARP request for the next hop of a route.\<close>

definition request_frame :: "env \<Rightarrow> route_table \<Rightarrow> bytes" where
  "request_frame e r =
     eth_bytes (build_ethhdr (if_mac e (rt_interface r)) (replicate 6 0xff) (htons ETHERTYPE_ARP)) @
     arp_bytes \<lparr>ar_htype = htons ARPHRD_ETHER, ar_ptype = htons 2048, ar_hlen = 6, ar_plen = 4,
       ar_op = htons ARPOP_REQUEST, ar_sha = if_mac e (rt_interface r),
       ar_spa = if_ip e (rt_interface r), ar_tha = replicate 6 0xff, ar_tpa = next_hop r\<rparr>"

lemma arp_query_spec:
  assumes "queue_rep (pqueue s) xs" "length (if_mac e (rt_interface r)) = 6"
    "rt_interface r < ROUTER_NUM_INTERFACES"
  shows "\<exists>q. arp_query e s r = Inr (s\<lparr>p_slot := msg s, pqueue := q\<rparr>, [(rt_interface r, request_frame e r)]) \<and>
    queue_rep q (xs @ [AddrOfP])"
proof -
  obtain q where "queue_enq (pqueue s) AddrOfP = Inr q" "queue_rep q (xs @ [AddrOfP])"
    using lq.rep_enq [OF assms(1)] by blast
  with assms show ?thesis
    by (intro exI [of _ q])
      (simp add: arp_query_def Let_def broadcast send_arp_spec request_frame_def build_ethhdr_def)
qed

lemma forward_ip_miss:
  assumes "34 \<le> length (pk_payload (msg s))" "get_arp_entry (arp_table s) (dest (msg s)) = None"
    "queue_rep (pqueue s) xs" "length (if_mac e (rt_interface r)) = 6"
    "rt_interface r < ROUTER_NUM_INTERFACES"
  shows "\<exists>q m. forward_ip e s r =
      Inr (s\<lparr>msg := m, p_slot := m, pqueue := q\<rparr>, [(rt_interface r, request_frame e r)]) \<and>
    queue_rep q (xs @ [AddrOfP]) \<and>
    m = (msg s)\<lparr>pk_payload := decrement_ttl (pk_payload (msg s))\<rparr>"
proof -
  let ?m = "(msg s)\<lparr>pk_payload := decrement_ttl (pk_payload (msg s))\<rparr>"
  have "forward_ip e s r = arp_query e (s\<lparr>msg := ?m\<rparr>) r"
    using assms(1,2) by (simp add: forward_ip_def Let_def iphdr_at_decrement)
  moreover obtain q where "arp_query e (s\<lparr>msg := ?m\<rparr>) r =
      Inr (s\<lparr>msg := ?m, p_slot := ?m, pqueue := q\<rparr>, [(rt_interface r, request_frame e r)])"
    "queue_rep q (xs @ [AddrOfP])"
    using arp_query_spec [of "s\<lparr>msg := ?m\<rparr>" xs e r] assms(3-5) by auto
  ultimately show ?thesis by (intro exI [of _ q] exI [of _ ?m]) simp
qed

text \<open>
  An ICMP message to the sender: addresses swapped, IP and ICMP checksums that verify.
\<close>

definition icmp_reply :: "packet \<Rightarrow> byte \<Rightarrow> 16 word \<Rightarrow> frame \<Rightarrow> bool" where
  "icmp_reply m typ ident f \<longleftrightarrow>
     (let eth = ether_header_at (pk_payload m); ip = iphdr_at (pk_payload m) ETH_LEN in
      \<exists>k. let icmp = \<lparr>ic_type = typ, ic_code = 0, ic_checksum = k, ic_id = ident, ic_sequence = 0\<rparr>
        in f = (pk_interface m,
             eth_bytes (build_ethhdr (ether_dhost eth) (ether_shost eth) (htons ETHERTYPE_IP)) @
             ip_bytes (icmp_ip_header (ip_saddr ip) (ip_daddr ip)) @ icmp_bytes icmp) \<and>
           icmp_checksum (icmp_bytes icmp) ICMP_LEN = Inr 0)"

lemma send_icmp_reply:
  assumes "34 \<le> length (pk_payload m)" "pk_interface m < ROUTER_NUM_INTERFACES"
  shows "\<exists>f. send_icmp_packet
      (build_ethhdr (ether_dhost (ether_header_at (pk_payload m)))
         (ether_shost (ether_header_at (pk_payload m))) (htons ETHERTYPE_IP))
      (icmp_ip_header (ip_saddr (iphdr_at (pk_payload m) ETH_LEN)) (dest m))
      \<lparr>ic_type = typ, ic_code = 0, ic_checksum = 0, ic_id = ident, ic_sequence = 0\<rparr> (pk_interface m) = Inr f \<and>
    icmp_reply m typ ident f"
proof -
  let ?c = "\<lparr>ic_type = typ, ic_code = 0, ic_checksum = 0, ic_id = ident, ic_sequence = 0\<rparr>"
  let ?e = "build_ethhdr (ether_dhost (ether_header_at (pk_payload m)))
         (ether_shost (ether_header_at (pk_payload m))) (htons ETHERTYPE_IP)"
  have "length (ether_dhost ?e) = 6" "length (ether_shost ?e) = 6" "ic_checksum ?c = 0"
    using assms(1) by (simp_all add: build_ethhdr_def ether_header_at_lengths)
  from send_icmp_packet_spec [OF this(1,2) assms(2) this(3)] show ?thesis
    by (fastforce simp: icmp_reply_def Let_def)
qed

lemma handle_ip_echo:
  assumes "34 \<le> length (pk_payload (msg s))" "pk_interface (msg s) < ROUTER_NUM_INTERFACES"
    "echo_for_me e (msg s)"
  shows "\<exists>f. handle_ip e s = Inr (s, [f]) \<and>
    icmp_reply (msg s) ICMP_ECHOREPLY (htons (ucast (pid e))) f"
proof -
  have "ucast (ucast w :: 32 word) = (w :: 16 word)" for w
    by (rule bit_word_eqI) (simp add: bit_ucast_iff)
  then show ?thesis
    using send_icmp_reply [OF assms(1,2), of ICMP_ECHOREPLY "htons (ucast (pid e))"] assms(3)
    by (auto simp: handle_ip_def Let_def send_icmp_def send_and_stop_def)
qed

lemma handle_ip_ttl:
  assumes "34 \<le> length (pk_payload (msg s))" "pk_interface (msg s) < ROUTER_NUM_INTERFACES"
    "\<not> echo_for_me e (msg s)" "ip_ttl (iphdr_at (pk_payload (msg s)) ETH_LEN) \<le> 1"
  shows "\<exists>f. handle_ip e s = Inr (s, [f]) \<and> icmp_reply (msg s) ICMP_TIME_EXCEEDED 0 f"
  using send_icmp_reply [OF assms(1,2), of ICMP_TIME_EXCEEDED 0] assms(3,4)
  by (auto simp: handle_ip_def Let_def send_icmp_error_def send_and_stop_def)

lemma handle_ip_unreachable:
  assumes "34 \<le> length (pk_payload (msg s))" "pk_interface (msg s) < ROUTER_NUM_INTERFACES"
    "to_forward e (msg s)" "lookup_route (rtable s) (dest (msg s)) = Inr None"
  shows "\<exists>f. handle_ip e s = Inr (s, [f]) \<and> icmp_reply (msg s) ICMP_DEST_UNREACH 0 f"
  using send_icmp_reply [OF assms(1,2), of ICMP_DEST_UNREACH 0] assms(3,4)
  by (auto simp: handle_ip_def Let_def send_icmp_error_def send_and_stop_def to_forward_def dest: leD)

lemma handle_ip_corrupt:
  assumes "\<not> echo_for_me e (msg s)" "1 < ip_ttl (iphdr_at (pk_payload (msg s)) ETH_LEN)"
    "ip_checksum IP_HDR_ADDR (get_bytes (pk_payload (msg s)) ETH_LEN IP_LEN) \<noteq> 0"
  shows "handle_ip e s = Inr (s, [])"
  using assms by (auto simp: handle_ip_def Let_def dest: leD)

section \<open>The ARP path\<close>

definition reply_frame :: "env \<Rightarrow> packet \<Rightarrow> arp_header \<Rightarrow> frame" where
  "reply_frame e m a =
     (let i = pk_interface m; eth = ether_header_at (pk_payload m) in
      (i, eth_bytes (build_ethhdr (if_mac e i) (ether_shost eth) (ether_type eth)) @
          arp_bytes \<lparr>ar_htype = htons ARPHRD_ETHER, ar_ptype = htons 2048, ar_hlen = 6, ar_plen = 4,
            ar_op = htons ARPOP_REPLY, ar_sha = if_mac e i, ar_spa = ar_tpa a,
            ar_tha = ether_shost eth, ar_tpa = ar_spa a\<rparr>))"

lemma answer_request_spec:
  assumes "14 \<le> length (pk_payload (msg s))" "pk_interface (msg s) < ROUTER_NUM_INTERFACES"
    "length (if_mac e (pk_interface (msg s))) = 6"
  shows "answer_request e s a = Inr
    (if ar_tpa a = if_ip e (pk_interface (msg s)) \<and> ar_op a = htons ARPOP_REQUEST
     then [reply_frame e (msg s) a] else [])"
  using assms by (simp add: answer_request_def Let_def send_arp_spec reply_frame_def build_ethhdr_def
      ether_header_at_lengths)

lemma flush_one_spec:
  assumes "queue_rep (pqueue s) (AddrOfP # xs)" "stale e (p_slot s) = p"
    "lookup_route (rtable s) (dest p) = Inr (Some k)"
    "rt_interface (rtable s ! k) < ROUTER_NUM_INTERFACES"
  shows "\<exists>q. flush_one e s a = Inr (s\<lparr>pqueue := q\<rparr>,
      [(rt_interface (rtable s ! k),
        take (pk_len p) (put_bytes (put_bytes (pk_payload p) 0 (ar_sha a)) 6
          (if_mac e (rt_interface (rtable s ! k)))))]) \<and> queue_rep q xs"
proof -
  obtain q where q: "queue_deq (pqueue s) = Inr (AddrOfP, q)" "queue_rep q xs"
    using lq.rep_deq [OF assms(1)] by blast
  with assms(2-) show ?thesis
    by (intro exI [of _ q]) (simp add: flush_one_def Let_def send_and_stop_def send_packet_def)
qed

section \<open>The invariant of the loop\<close>

definition env_ok :: "env \<Rightarrow> bool" where
  "env_ok e \<longleftrightarrow> (\<forall>i. length (if_mac e i) = 6)"

definition packet_ok :: "packet \<Rightarrow> bool" where
  "packet_ok m \<longleftrightarrow> length (pk_payload m) = MAX_LEN \<and> pk_len m \<le> MAX_LEN"

text \<open>
  The ARP table has one entry per address and fits its array; the queue is well formed; the
  bytes of the last queued packet name a destination the routing table has a route for;
  routes name interfaces that exist.
\<close>

definition router_inv :: "router \<Rightarrow> bool" where
  "router_inv s \<longleftrightarrow>
     arp_wf (arp_table s) \<and> (\<forall>a \<in> set (arp_table s). length (arp_mac a) = 6) \<and>
     (\<forall>r \<in> set (rtable s). rt_interface r < ROUTER_NUM_INTERFACES) \<and>
     packet_ok (msg s) \<and> packet_ok (p_slot s) \<and>
     (\<exists>xs. queue_rep (pqueue s) xs \<and>
        (xs \<noteq> [] \<longrightarrow> (\<exists>k. lookup_route (rtable s) (dest (p_slot s)) = Inr (Some k))))"

lemma router_invD:
  assumes "router_inv s"
  shows "arp_wf (arp_table s)" "\<And>k. k < length (arp_table s) \<Longrightarrow> length (arp_mac (arp_table s ! k)) = 6"
    "\<And>k. k < length (rtable s) \<Longrightarrow> rt_interface (rtable s ! k) < ROUTER_NUM_INTERFACES"
    "packet_ok (msg s)" "packet_ok (p_slot s)" "34 \<le> length (pk_payload (msg s))"
    "14 \<le> length (pk_payload (msg s))" "length (pk_payload (p_slot s)) = MAX_LEN"
  using assms by (auto simp: router_inv_def packet_ok_def MAX_LEN_def)

lemma router_init_inv:
  assumes "\<forall>r \<in> set routes. rt_interface r < ROUTER_NUM_INTERFACES" "packet_ok p" "packet_ok m"
  shows "router_inv (router_init routes p m)"
  using assms queue_rep_create
  by (auto simp: router_inv_def router_init_def arp_wf_def rt.set_qsort ARP_CAP_def)

text \<open>A step of the IP path always succeeds and keeps the invariant and both tables.\<close>

definition step_ok :: "router \<Rightarrow> outcome \<Rightarrow> bool" where
  "step_ok s r \<longleftrightarrow> (\<exists>s' fs. r = Inr (s', fs) \<and> router_inv s' \<and> rtable s' = rtable s \<and>
     arp_table s' = arp_table s)"

lemma send_and_stop_ok: "router_inv s \<Longrightarrow> r = Inr f \<Longrightarrow> step_ok s (send_and_stop s r)"
  by (simp add: step_ok_def send_and_stop_def)

lemma step_ok_same: "router_inv s \<Longrightarrow> r = Inr (s, fs) \<Longrightarrow> step_ok s r"
  by (simp add: step_ok_def)

lemma forward_ip_ok:
  assumes "env_ok e" "router_inv s" "lookup_route (rtable s) (dest (msg s)) = Inr (Some k)"
  shows "step_ok s (forward_ip e s (rtable s ! k))"
proof -
  let ?r = "rtable s ! k" and ?m = "(msg s)\<lparr>pk_payload := decrement_ttl (pk_payload (msg s))\<rparr>"
  note inv = router_invD [OF assms(2)]
  have i: "rt_interface ?r < ROUTER_NUM_INTERFACES" and mac: "length (if_mac e (rt_interface ?r)) = 6"
    using lookup_route_sound [OF assms(3)] inv(3) assms(1) by (auto simp: env_ok_def)
  show ?thesis
  proof (cases "get_arp_entry (arp_table s) (dest (msg s))")
    case None
    obtain xs where xs: "queue_rep (pqueue s) xs" using assms(2) by (auto simp: router_inv_def)
    obtain q where q: "forward_ip e s ?r =
        Inr (s\<lparr>msg := ?m, p_slot := ?m, pqueue := q\<rparr>, [(rt_interface ?r, request_frame e ?r)])"
      "queue_rep q (xs @ [AddrOfP])"
      using forward_ip_miss [OF inv(6) None xs mac i] by blast
    have "packet_ok ?m" using inv(4,6) by (simp add: packet_ok_def length_decrement_ttl)
    moreover have "dest ?m = dest (msg s)" using inv(6) by (simp add: iphdr_at_decrement)
    ultimately have "router_inv (s\<lparr>msg := ?m, p_slot := ?m, pqueue := q\<rparr>)"
      using assms(2,3) q(2) by (auto simp: router_inv_def)
    with q(1) show ?thesis by (simp add: step_ok_def)
  next
    case (Some a)
    let ?p = "set_macs (if_mac e (rt_interface ?r)) (arp_mac (arp_table s ! a)) (decrement_ttl (pk_payload (msg s)))"
    have a: "length (arp_mac (arp_table s ! a)) = 6"
      using get_arp_entry_Some [OF Some] inv(2) by simp
    have "length ?p = MAX_LEN"
      using inv(4,6) mac a by (simp add: set_macs_def length_decrement_ttl packet_ok_def)
    then have "router_inv (s\<lparr>msg := ?m\<lparr>pk_payload := ?p\<rparr>\<rparr>)"
      using assms(2) inv(4) by (auto simp: router_inv_def packet_ok_def)
    then show ?thesis
      using i Some inv(6)
      by (simp add: forward_ip_def Let_def iphdr_at_decrement send_packet_def send_and_stop_def step_ok_def)
  qed
qed

lemma handle_ip_ok:
  assumes "env_ok e" "router_inv s" "pk_interface (msg s) < ROUTER_NUM_INTERFACES"
    "ether_type (ether_header_at (pk_payload (msg s))) = htons ETHERTYPE_IP"
  shows "step_ok s (handle_ip e s)"
proof -
  let ?ip = "iphdr_at (pk_payload (msg s)) ETH_LEN"
  note l = router_invD(6) [OF assms(2)]
  consider "echo_for_me e (msg s)" | "\<not> echo_for_me e (msg s)" "ip_ttl ?ip \<le> 1"
    | "\<not> echo_for_me e (msg s)" "1 < ip_ttl ?ip"
      "ip_checksum IP_HDR_ADDR (get_bytes (pk_payload (msg s)) ETH_LEN IP_LEN) \<noteq> 0"
    | "to_forward e (msg s)"
    using assms(4) unfolding to_forward_def by (metis not_le)
  then show ?thesis
  proof cases
    case 1
    then show ?thesis using handle_ip_echo [OF l assms(3)] assms(2) step_ok_same by blast
  next
    case 2
    then show ?thesis using handle_ip_ttl [OF l assms(3)] assms(2) step_ok_same by blast
  next
    case 3
    then show ?thesis using handle_ip_corrupt assms(2) step_ok_same by blast
  next
    case 4
    obtain r where r: "lookup_route (rtable s) (dest (msg s)) = Inr r"
      using lookup_route_safe by blast
    show ?thesis
    proof (cases r)
      case None
      with handle_ip_unreachable [OF l assms(3) 4] r assms(2) show ?thesis
        by (auto simp: step_ok_def)
    next
      case (Some k)
      with r have "handle_ip e s = forward_ip e s (rtable s ! k)"
        using 4 by (auto simp: handle_ip_def to_forward_def Let_def dest: leD)
      with forward_ip_ok [OF assms(1,2)] r Some show ?thesis by simp
    qed
  qed
qed

text \<open>
  The ARP path fails only where an eleventh address is to be stored. This needs the queued
  bytes to survive (\<open>stale\<close> the identity): otherwise \<open>best_r\<close> can be null.
\<close>

lemma flush_one_ok:
  assumes "env_ok e" "router_inv s" "stale e = (\<lambda>p. p)" "\<not> queue_empty (fst (pqueue s))"
  shows "step_ok s (flush_one e s a)"
proof -
  obtain xs where xs: "queue_rep (pqueue s) xs"
    "xs \<noteq> [] \<Longrightarrow> \<exists>k. lookup_route (rtable s) (dest (p_slot s)) = Inr (Some k)"
    using assms(2) by (auto simp: router_inv_def)
  with assms(4) obtain ys where ys: "queue_rep (pqueue s) (AddrOfP # ys)"
    by (metis (full_types) lq.rep_empty list.exhaust packet_ptr.exhaust)
  with assms(4) xs obtain k where k: "lookup_route (rtable s) (dest (p_slot s)) = Inr (Some k)"
    using lq.rep_empty by blast
  then have "rt_interface (rtable s ! k) < ROUTER_NUM_INTERFACES"
    using lookup_route_sound router_invD(3) [OF assms(2)] by blast
  with flush_one_spec [OF ys _ k] assms(3) obtain q fs
    where "flush_one e s a = Inr (s\<lparr>pqueue := q\<rparr>, fs)" "queue_rep q ys"
    by metis
  with assms(2) k show ?thesis
    by (auto simp: step_ok_def router_inv_def)
qed

lemma handle_arp_ok:
  assumes "env_ok e" "router_inv s" "stale e = (\<lambda>p. p)" "pk_interface (msg s) < ROUTER_NUM_INTERFACES"
  shows "(\<exists>s' fs. handle_arp e s = Inr (s', fs) \<and> router_inv s' \<and> rtable s' = rtable s \<and>
      length (arp_table s') \<le> Suc (length (arp_table s))) \<or>
    handle_arp e s = Inl OutOfBounds \<and> length (arp_table s) = ARP_CAP"
proof (cases "parse_arp (pk_payload (msg s))")
  case None
  with assms(2) show ?thesis by (simp add: handle_arp_def)
next
  case (Some a)
  have "length (ar_sha a) = 6"
    using Some router_invD(4) [OF assms(2)]
    by (auto simp: parse_arp_def arp_header_at_def length_get_bytes packet_ok_def MAX_LEN_def header_lens
        split: if_splits)
  moreover obtain fs where fs: "answer_request e s a = Inr fs"
    using answer_request_spec [of s e a] router_invD(7) [OF assms(2)] assms(1,4)
    by (simp add: env_ok_def)
  ultimately show ?thesis
  proof (cases "arp_add (arp_table s) (ar_spa a) (ar_sha a)")
    case (Inl err)
    then have "err = OutOfBounds \<and> length (arp_table s) = ARP_CAP"
      using router_invD(1) [OF assms(2)] by (auto simp: arp_add_def arp_wf_def split: if_splits)
    with Inl assms(2) Some fs show ?thesis
      by (auto simp: handle_arp_def learn_reply_def)
  next
    case (Inr t)
    let ?s = "s\<lparr>arp_table := t\<rparr>"
    have t: "length t \<le> Suc (length (arp_table s))" "set t \<subseteq> insert \<lparr>arp_ip = ar_spa a, arp_mac = ar_sha a\<rparr> (set (arp_table s))"
      using Inr by (auto simp: arp_add_def split: if_splits)
    have inv: "router_inv ?s"
      using assms(2) arp_add_wf [OF router_invD(1) [OF assms(2)] Inr] t(2) \<open>length (ar_sha a) = 6\<close>
      by (fastforce simp: router_inv_def)
    have "\<exists>s' fs'. learn_reply e s a = Inr (s', fs') \<and> router_inv s' \<and> rtable s' = rtable s \<and>
        length (arp_table s') \<le> Suc (length (arp_table s))"
    proof (cases "ar_op a = htons ARPOP_REPLY \<and> \<not> queue_empty (fst (pqueue ?s))")
      case True
      with flush_one_ok [OF assms(1) inv assms(3), of a] t(1) Inr show ?thesis
        by (auto simp: step_ok_def learn_reply_def Let_def)
    next
      case False
      with Inr inv t(1) assms(2) show ?thesis by (auto simp: learn_reply_def Let_def)
    qed
    with Some fs show ?thesis by (auto simp: handle_arp_def)
  qed
qed

lemma get_packet_ok:
  assumes "packet_ok m" "get_packet ready m = Some m'"
  shows "packet_ok m' \<and> pk_interface m' < ROUTER_NUM_INTERFACES"
proof -
  have "get_packet_from i r m = Some m' \<Longrightarrow> packet_ok m \<Longrightarrow> i + length r \<le> ROUTER_NUM_INTERFACES \<Longrightarrow>
      packet_ok m' \<and> pk_interface m' < ROUTER_NUM_INTERFACES" for i r
  proof (induction i r m rule: get_packet_from.induct)
    case (2 i data ready m)
    then show ?case
      by (auto simp: socket_receive_message_def Let_def packet_ok_def put_bytes_def min_def)
  qed auto
  from this [of 0 "take ROUTER_NUM_INTERFACES ready"] assms show ?thesis
    by (simp add: get_packet_def)
qed

lemma router_step_ok:
  assumes "env_ok e" "router_inv s" "stale e = (\<lambda>p. p)"
  shows "(\<exists>s' fs. router_step e s ready = Inr (s', fs) \<and> router_inv s' \<and> rtable s' = rtable s \<and>
      length (arp_table s') \<le> Suc (length (arp_table s))) \<or>
    router_step e s ready = Inl OutOfBounds \<and> length (arp_table s) = ARP_CAP"
proof (cases "get_packet ready (msg s)")
  case None
  with assms(2) show ?thesis by (simp add: router_step_def)
next
  case (Some m)
  let ?s = "s\<lparr>msg := m\<rparr>"
  have m: "packet_ok m" "pk_interface m < ROUTER_NUM_INTERFACES"
    using get_packet_ok [OF router_invD(4) [OF assms(2)] Some] by simp_all
  then have inv: "router_inv ?s" using assms(2) by (auto simp: router_inv_def)
  consider "ether_type (ether_header_at (pk_payload m)) = htons ETHERTYPE_IP"
    | "ether_type (ether_header_at (pk_payload m)) \<noteq> htons ETHERTYPE_IP"
      "ether_type (ether_header_at (pk_payload m)) = htons ETHERTYPE_ARP"
    | "ether_type (ether_header_at (pk_payload m)) \<noteq> htons ETHERTYPE_IP"
      "ether_type (ether_header_at (pk_payload m)) \<noteq> htons ETHERTYPE_ARP" by blast
  then show ?thesis
  proof cases
    case 1
    with handle_ip_ok [OF assms(1) inv] m show ?thesis
      by (auto simp: router_step_def Some handle_packet_def step_ok_def)
  next
    case 2
    with handle_arp_ok [OF assms(1) inv assms(3)] m show ?thesis
      by (simp add: router_step_def Some handle_packet_def del: htons_eq_iff)
  next
    case 3
    with inv show ?thesis by (simp add: router_step_def Some handle_packet_def)
  qed
qed

lemma router_run_ok:
  assumes "env_ok e" "stale e = (\<lambda>p. p)"
  shows "router_inv s \<Longrightarrow> length (arp_table s) + length rs \<le> ARP_CAP \<Longrightarrow>
    \<exists>s' fs. router_run e s rs = Inr (s', fs) \<and> router_inv s'"
proof (induction rs arbitrary: s)
  case (Cons ready rs)
  then obtain s1 fs where s1: "router_step e s ready = Inr (s1, fs)" "router_inv s1"
    "length (arp_table s1) \<le> Suc (length (arp_table s))"
    using router_step_ok [OF assms(1) Cons.prems(1) assms(2), of ready] by auto
  with Cons.IH [OF s1(2)] Cons.prems(2) show ?case by auto
qed simp

lemma router_run_inv:
  assumes "env_ok e" "stale e = (\<lambda>p. p)"
  shows "router_inv s \<Longrightarrow> (case router_run e s rs of Inr (s', fs) \<Rightarrow> router_inv s' | Inl err \<Rightarrow> err = OutOfBounds)"
proof (induction rs arbitrary: s)
  case (Cons ready rs)
  show ?case
  proof (cases "router_step e s ready")
    case (Inl err)
    with router_step_ok [OF assms(1) Cons.prems assms(2), of ready] show ?thesis by simp
  next
    case (Inr r)
    obtain s1 fs where r: "r = (s1, fs)" by (cases r)
    with Inr router_step_ok [OF assms(1) Cons.prems assms(2), of ready] have "router_inv s1" by simp
    from Cons.IH [OF this] show ?thesis
      by (cases "router_run e s1 rs") (auto simp: Inr r)
  qed
qed simp

section \<open>What an ARP reply does\<close>

lemma handle_arp_reply:
  assumes "ether_type (ether_header_at (pk_payload (msg s))) = htons ETHERTYPE_ARP"
    "a = arp_header_at (pk_payload (msg s)) ETH_LEN" "ar_op a = htons ARPOP_REPLY"
  shows "handle_packet e s = learn_reply e s a"
proof -
  have ne: "ETHERTYPE_ARP \<noteq> ETHERTYPE_IP" "ARPOP_REPLY \<noteq> ARPOP_REQUEST" by (simp_all add: protocol_consts)
  have "parse_arp (pk_payload (msg s)) = Some a"
    using assms by (simp add: parse_arp_def)
  moreover have "answer_request e s a = Inr []"
    using assms(3) ne by (simp add: answer_request_def Let_def)
  ultimately show ?thesis
    using assms(1) ne by (cases "learn_reply e s a") (auto simp: handle_packet_def handle_arp_def)
qed

lemma arp_reply_flush:
  assumes "ether_type (ether_header_at (pk_payload (msg s))) = htons ETHERTYPE_ARP"
    "a = arp_header_at (pk_payload (msg s)) ETH_LEN" "ar_op a = htons ARPOP_REPLY"
    "arp_add (arp_table s) (ar_spa a) (ar_sha a) = Inr t"
    "queue_rep (pqueue s) (AddrOfP # xs)" "stale e (p_slot s) = p"
    "lookup_route (rtable s) (dest p) = Inr (Some k)"
    "rt_interface (rtable s ! k) < ROUTER_NUM_INTERFACES"
  shows "\<exists>q. handle_packet e s = Inr (s\<lparr>arp_table := t, pqueue := q\<rparr>,
      [(rt_interface (rtable s ! k),
        take (pk_len p) (put_bytes (put_bytes (pk_payload p) 0 (ar_sha a)) 6
          (if_mac e (rt_interface (rtable s ! k)))))]) \<and> queue_rep q xs"
proof -
  have "\<not> queue_empty (fst (pqueue s))"
    using lq.rep_empty [OF assms(5)] by simp
  with flush_one_spec [of "s\<lparr>arp_table := t\<rparr>" xs e p k a] assms(3-8) show ?thesis
    by (simp add: handle_arp_reply [OF assms(1-3)] learn_reply_def)
qed

end
