(* ===== verification/RouterProps.thy ===== *)
theory RouterProps
  imports Router
begin

text \<open>
  The properties of the router of \<^verbatim>\<open>Tema_1\<close>, each with an instance at a concrete input.
\<close>

section \<open>A concrete router\<close>

text \<open>
  One interface network 192.168.1.0/24 behind interface 1; a datagram from 192.168.0.2 to
  192.168.1.2 with time to live 64 and a correct checksum.
\<close>

definition demo_env :: env where
  "demo_env = \<lparr>if_ip = (\<lambda>i. 0x0100a8c0), if_mac = (\<lambda>i. [2, 0, 0, 0, 0, 1]), pid = 7, stale = (\<lambda>p. p)\<rparr>"

definition demo_bytes :: bytes where
  "demo_bytes = [2, 0, 0, 0, 0, 1, 2, 0, 0, 0, 0, 9, 8, 0,
     0x45, 0, 0, 0x14, 0, 1, 0, 0, 0x40, 0x11, 0xf8, 0x83, 0xc0, 0xa8, 0, 2, 0xc0, 0xa8, 1, 2]"

definition demo_packet :: packet where
  "demo_packet = \<lparr>pk_len = 34, pk_payload = demo_bytes, pk_interface = 0\<rparr>"

definition demo_route :: route_table where
  "demo_route = \<lparr>prefix = 0x0001a8c0, next_hop = 0x0201a8c0, mask = 0x00ffffff, rt_interface = 1\<rparr>"

definition demo_router :: "arp_entry list \<Rightarrow> router" where
  "demo_router arp = (router_init [demo_route] demo_packet demo_packet)\<lparr>arp_table := arp\<rparr>"

lemma demo_checksum: "ip_checksum IP_HDR_ADDR (get_bytes demo_bytes ETH_LEN IP_LEN) = 0"
  by (simp add: ip_checksum_zero_iff demo_bytes_def get_bytes_def header_lens)

lemma demo_to_forward: "to_forward demo_env demo_packet"
  using demo_checksum
  by (simp add: to_forward_def demo_packet_def echo_for_me_def parse_icmp_def) 
    (simp add: demo_bytes_def ether_header_at_def iphdr_at_def get16_def get8_def get_bytes_def
      header_lens protocol_consts htons_eval le16.simps word_less_nat_alt)

lemma demo_lookup: "lookup_route (rtable (demo_router arp)) (dest demo_packet) = Inr (Some 0)"
  by (simp add: lookup_route_def demo_router_def router_init_def qsort_def get_best_route.simps
      demo_route_def demo_packet_def demo_bytes_def iphdr_at_def get32_def get_bytes_def header_lens
      le32.simps)

lemma demo_lens: "34 \<le> length (pk_payload demo_packet)" "pk_interface demo_packet < ROUTER_NUM_INTERFACES"
  by (simp_all add: demo_packet_def demo_bytes_def ROUTER_NUM_INTERFACES_def)

lemma demo_dest: "dest demo_packet = 0x0201a8c0"
  by (simp add: demo_packet_def demo_bytes_def iphdr_at_def get32_def get_bytes_def header_lens le32.simps)

lemma demo_msg [simp]: "msg (demo_router arp) = demo_packet"
  and demo_arp [simp]: "arp_table (demo_router arp) = arp"
  and demo_rtable [simp]: "rtable (demo_router arp) = [demo_route]"
  and demo_queue [simp]: "pqueue (demo_router arp) = (queue_create, empty_heap)"
  by (simp_all add: demo_router_def router_init_def qsort_def)

section \<open>Forwarding\<close>

text \<open>
  C1: An intact IP packet that is not an echo request for the router, whose destination has a
  route and a known MAC address, leaves as exactly one frame on the route's interface: the
  Ethernet addresses are those of the next link, the time to live is one lower, the new header
  checksum verifies at any alignment, and every byte after the IP header is unchanged. Only
  the packet buffer of the state changes.
\<close>

theorem forward_known_mac:
  assumes "34 \<le> length (pk_payload (msg s))" "to_forward e (msg s)"
    "lookup_route (rtable s) (dest (msg s)) = Inr (Some k)"
    "rt_interface (rtable s ! k) < ROUTER_NUM_INTERFACES"
    "get_arp_entry (arp_table s) (dest (msg s)) = Some a"
    "length (arp_mac (arp_table s ! a)) = 6" "length (if_mac e (rt_interface (rtable s ! k))) = 6"
  shows "\<exists>m h. handle_packet e s = Inr (s\<lparr>msg := m\<rparr>, [(rt_interface (rtable s ! k),
      take (pk_len (msg s))
        (eth_bytes ((ether_header_at (pk_payload (msg s)))
           \<lparr>ether_dhost := arp_mac (arp_table s ! a),
            ether_shost := if_mac e (rt_interface (rtable s ! k))\<rparr>) @
         ip_bytes h @ drop 34 (pk_payload (msg s))))]) \<and>
    h = (iphdr_at (pk_payload (msg s)) ETH_LEN)
          \<lparr>ip_ttl := ip_ttl (iphdr_at (pk_payload (msg s)) ETH_LEN) - 1, ip_check := ip_check h\<rparr> \<and>
    (\<forall>addr. ip_checksum addr (ip_bytes h) = 0)"
proof -
  let ?r = "rtable s ! k"
  have "handle_packet e s = forward_ip e s ?r"
    using assms(2,3) by (rule handle_packet_forward)
  moreover obtain m where "forward_ip e s ?r = Inr (s\<lparr>msg := m\<rparr>,
      [(rt_interface ?r, forwarded_frame (if_mac e (rt_interface ?r)) (arp_mac (arp_table s ! a)) (msg s))])"
    using forward_ip_hit [OF assms(1,5,6,7,4)] by blast
  ultimately show ?thesis
    by (intro exI [of _ m] exI [of _ "next_ip (iphdr_at (pk_payload (msg s)) ETH_LEN)"] conjI
        next_ip_shape) (simp_all only: forwarded_frame_def next_ip_verifies simp_thms)
qed

theorem forward_known_mac_witness:
  "\<exists>m f. handle_packet demo_env (demo_router [\<lparr>arp_ip = 0x0201a8c0, arp_mac = [2, 0, 0, 0, 0, 7]\<rparr>]) =
     Inr ((demo_router [\<lparr>arp_ip = 0x0201a8c0, arp_mac = [2, 0, 0, 0, 0, 7]\<rparr>])\<lparr>msg := m\<rparr>, [(1, f)])"
proof -
  let ?s = "demo_router [\<lparr>arp_ip = 0x0201a8c0, arp_mac = [2, 0, 0, 0, 0, 7]\<rparr>]"
  have "rt_interface demo_route = 1" "length (if_mac demo_env 1) = 6"
    by (simp_all add: demo_route_def demo_env_def)
  then show ?thesis
    using forward_known_mac [of ?s demo_env 0 0] demo_to_forward demo_lookup demo_lens
    by (simp add: demo_dest ROUTER_NUM_INTERFACES_def) blast
qed

text \<open>
  C39: An IP packet whose time to live is 0 or 1 and that is no echo request for the router is
  never forwarded: the sender gets one ICMP time-exceeded message, with the addresses swapped
  and with IP and ICMP checksums that verify, and the state does not change.
\<close>

theorem ttl_expired:
  assumes "34 \<le> length (pk_payload (msg s))" "pk_interface (msg s) < ROUTER_NUM_INTERFACES"
    "ether_type (ether_header_at (pk_payload (msg s))) = htons ETHERTYPE_IP"
    "\<not> echo_for_me e (msg s)" "ip_ttl (iphdr_at (pk_payload (msg s)) ETH_LEN) \<le> 1"
  shows "\<exists>f. handle_packet e s = Inr (s, [f]) \<and> icmp_reply (msg s) ICMP_TIME_EXCEEDED 0 f"
  using handle_ip_ttl [OF assms(1,2,4,5)] assms(3) by (simp add: handle_packet_def)

theorem ttl_expired_witness:
  "let m = demo_packet\<lparr>pk_payload := put_bytes demo_bytes 22 [1]\<rparr> in
   \<exists>f. handle_packet demo_env ((demo_router [])\<lparr>msg := m\<rparr>) = Inr ((demo_router [])\<lparr>msg := m\<rparr>, [f])"
proof -
  let ?m = "demo_packet\<lparr>pk_payload := put_bytes demo_bytes 22 [1]\<rparr>"
  have "\<not> echo_for_me demo_env ?m" "ip_ttl (iphdr_at (pk_payload ?m) ETH_LEN) \<le> 1"
    "ether_type (ether_header_at (pk_payload ?m)) = htons ETHERTYPE_IP"
    by (simp_all add: echo_for_me_def parse_icmp_def demo_bytes_def put_bytes_def iphdr_at_def
        ether_header_at_def get16_def get8_def get_bytes_def header_lens protocol_consts htons_eval le16.simps)
  then show ?thesis
    using ttl_expired [of "(demo_router [])\<lparr>msg := ?m\<rparr>" demo_env]
    by (auto simp: demo_packet_def demo_bytes_def put_bytes_def ROUTER_NUM_INTERFACES_def)
qed

text \<open>
  An IP packet that fails the header checksum, and is neither expired nor an echo request
  for the router, is dropped: nothing is sent and nothing changes.
\<close>

theorem corrupt_dropped:
  assumes "ether_type (ether_header_at (pk_payload (msg s))) = htons ETHERTYPE_IP"
    "\<not> echo_for_me e (msg s)" "1 < ip_ttl (iphdr_at (pk_payload (msg s)) ETH_LEN)"
    "sum16 (get_bytes (pk_payload (msg s)) ETH_LEN IP_LEN) mod 65535 \<noteq> 0"
  shows "handle_packet e s = Inr (s, [])"
proof -
  have "length (get_bytes (pk_payload (msg s)) ETH_LEN IP_LEN) \<le> 2147483648"
    by (simp add: get_bytes_def IP_LEN_def min_def)
  with assms(4) have "ip_checksum IP_HDR_ADDR (get_bytes (pk_payload (msg s)) ETH_LEN IP_LEN) \<noteq> 0"
    by (simp add: ip_checksum_zero_iff)
  with assms(1-3) show ?thesis
    by (simp add: handle_packet_def handle_ip_corrupt)
qed

theorem corrupt_dropped_witness:
  "let s = (demo_router [])\<lparr>msg := demo_packet\<lparr>pk_payload := put_bytes demo_bytes 24 [0, 0]\<rparr>\<rparr> in
   handle_packet demo_env s = Inr (s, [])"
  unfolding Let_def
  by (rule corrupt_dropped)
    (simp_all add: demo_packet_def echo_for_me_def parse_icmp_def demo_bytes_def put_bytes_def iphdr_at_def
        ether_header_at_def get16_def get8_def get_bytes_def header_lens protocol_consts htons_eval
        le16.simps word_less_nat_alt)

text \<open>
  An intact IP packet with no matching route gets one ICMP destination-unreachable message
  back and is not forwarded.
\<close>

theorem no_route_unreachable:
  assumes "34 \<le> length (pk_payload (msg s))" "pk_interface (msg s) < ROUTER_NUM_INTERFACES"
    "to_forward e (msg s)" "\<forall>r \<in> set (rtable s). \<not> route_matches r (dest (msg s))"
  shows "\<exists>f. handle_packet e s = Inr (s, [f]) \<and> icmp_reply (msg s) ICMP_DEST_UNREACH 0 f"
proof -
  obtain r where r: "lookup_route (rtable s) (dest (msg s)) = Inr r"
    using lookup_route_safe by blast
  then have "lookup_route (rtable s) (dest (msg s)) = Inr None"
    using assms(4) by (cases r) (auto dest!: lookup_route_sound)
  from handle_ip_unreachable [OF assms(1-3) this] assms(3) show ?thesis
    by (simp add: handle_packet_def to_forward_def)
qed

theorem no_route_unreachable_witness:
  "\<exists>f. handle_packet demo_env ((demo_router [])\<lparr>rtable := []\<rparr>) = Inr ((demo_router [])\<lparr>rtable := []\<rparr>, [f])"
proof -
  have "msg ((demo_router [])\<lparr>rtable := []\<rparr>) = demo_packet"
    by (simp add: demo_router_def router_init_def)
  from no_route_unreachable [of "(demo_router [])\<lparr>rtable := []\<rparr>" demo_env, unfolded this]
  show ?thesis using demo_to_forward demo_lens by fastforce
qed

text \<open>
  An ICMP echo request addressed to the router on the interface it came in on is answered
  by exactly one echo reply with swapped addresses and valid checksums, whatever its time to
  live and its own checksum. The identifier of the reply is the router's process id and its
  sequence number 0, not those of the request.
\<close>

theorem echo_answered:
  assumes "34 \<le> length (pk_payload (msg s))" "pk_interface (msg s) < ROUTER_NUM_INTERFACES"
    "ether_type (ether_header_at (pk_payload (msg s))) = htons ETHERTYPE_IP" "echo_for_me e (msg s)"
  shows "\<exists>f. handle_packet e s = Inr (s, [f]) \<and>
    icmp_reply (msg s) ICMP_ECHOREPLY (htons (ucast (pid e))) f"
  using handle_ip_echo [OF assms(1,2,4)] assms(3) by (simp add: handle_packet_def)

theorem echo_answered_witness:
  "let s = (demo_router [])\<lparr>msg := demo_packet\<lparr>pk_payload :=
      put_bytes (put_bytes demo_bytes 23 [1]) 30 [192, 168, 0, 1] @ [8, 0, 0, 0, 0, 5, 0, 9]\<rparr>\<rparr> in
   \<exists>f. handle_packet demo_env s = Inr (s, [f])"
proof -
  let ?p = "put_bytes (put_bytes demo_bytes 23 [1]) 30 [192, 168, 0, 1] @ [8, 0, 0, 0, 0, 5, 0, 9]"
  let ?s = "(demo_router [])\<lparr>msg := demo_packet\<lparr>pk_payload := ?p\<rparr>\<rparr>"
  have p: "?p = [2, 0, 0, 0, 0, 1, 2, 0, 0, 0, 0, 9, 8, 0,
     0x45, 0, 0, 0x14, 0, 1, 0, 0, 0x40, 1, 0xf8, 0x83, 0xc0, 0xa8, 0, 2, 0xc0, 0xa8, 0, 1,
     8, 0, 0, 0, 0, 5, 0, 9]"
    by (simp add: demo_bytes_def put_bytes_def)
  have "echo_for_me demo_env (msg ?s)" "ether_type (ether_header_at (pk_payload (msg ?s))) = htons ETHERTYPE_IP"
    by (simp_all add: p echo_for_me_def parse_icmp_def iphdr_at_def icmphdr_at_def ether_header_at_def
        get16_def get32_def get8_def get_bytes_def header_lens protocol_consts htons_eval le16.simps
        le32.simps demo_packet_def demo_env_def)
  then show ?thesis
    using echo_answered [of ?s demo_env] by (auto simp: p demo_packet_def ROUTER_NUM_INTERFACES_def)
qed

section \<open>Address resolution\<close>

text \<open>
  An ARP request for the router's address on the interface it came in on is answered by
  one ARP reply to the asker, carrying the interface's MAC address, and changes nothing.
\<close>

theorem arp_request_answered:
  assumes "14 \<le> length (pk_payload (msg s))" "pk_interface (msg s) < ROUTER_NUM_INTERFACES"
    "length (if_mac e (pk_interface (msg s))) = 6"
    "ether_type (ether_header_at (pk_payload (msg s))) = htons ETHERTYPE_ARP"
    "a = arp_header_at (pk_payload (msg s)) ETH_LEN"
    "ar_op a = htons ARPOP_REQUEST" "ar_tpa a = if_ip e (pk_interface (msg s))"
  shows "handle_packet e s = Inr (s, [reply_frame e (msg s) a])"
proof -
  have ne: "ETHERTYPE_ARP \<noteq> ETHERTYPE_IP" "ARPOP_REQUEST \<noteq> ARPOP_REPLY" by (simp_all add: protocol_consts)
  have "parse_arp (pk_payload (msg s)) = Some a"
    using assms(4,5) by (simp add: parse_arp_def)
  then show ?thesis
    using assms(4,6,7) ne answer_request_spec [OF assms(1-3), of a]
    by (simp add: handle_packet_def handle_arp_def learn_reply_def)
qed

definition demo_arp_packet :: "16 word \<Rightarrow> packet" where
  "demo_arp_packet op =
     \<lparr>pk_len = 42,
      pk_payload = eth_bytes (build_ethhdr [2, 0, 0, 0, 0, 9] (replicate 6 0xff) (htons ETHERTYPE_ARP)) @
        arp_bytes \<lparr>ar_htype = htons 1, ar_ptype = htons 2048, ar_hlen = 6, ar_plen = 4, ar_op = htons op,
          ar_sha = [2, 0, 0, 0, 0, 9], ar_spa = 0x0201a8c0, ar_tha = replicate 6 0, ar_tpa = 0x0100a8c0\<rparr>,
      pk_interface = 0\<rparr>"

lemma demo_arp_fields:
  "length (pk_payload (demo_arp_packet op)) = 42"
  "ether_type (ether_header_at (pk_payload (demo_arp_packet op))) = htons ETHERTYPE_ARP"
  "ar_op (arp_header_at (pk_payload (demo_arp_packet op)) ETH_LEN) = htons op"
  "ar_tpa (arp_header_at (pk_payload (demo_arp_packet op)) ETH_LEN) = 0x0100a8c0"
proof -
  let ?e = "build_ethhdr [2, 0, 0, 0, 0, 9] (replicate 6 0xff) (htons ETHERTYPE_ARP)"
  let ?a = "\<lparr>ar_htype = htons 1, ar_ptype = htons 2048, ar_hlen = 6, ar_plen = 4, ar_op = htons op,
          ar_sha = [2, 0, 0, 0, 0, 9], ar_spa = 0x0201a8c0, ar_tha = replicate 6 0, ar_tpa = 0x0100a8c0\<rparr>"
  have e: "length (ether_dhost ?e) = 6" "length (ether_shost ?e) = 6"
    by (simp_all add: build_ethhdr_def)
  have p: "pk_payload (demo_arp_packet op) = eth_bytes ?e @ arp_bytes ?a @ []"
    by (simp add: demo_arp_packet_def)
  show "length (pk_payload (demo_arp_packet op)) = 42"
    using e by (simp only: p) (simp add: layout_simps)
  show "ether_type (ether_header_at (pk_payload (demo_arp_packet op))) = htons ETHERTYPE_ARP"
    unfolding p ether_header_at_bytes [OF e] by (simp add: build_ethhdr_def)
  have n: "ETH_LEN = length (eth_bytes ?e)" using e by (simp add: layout_simps header_lens)
  have "arp_header_at (eth_bytes ?e @ arp_bytes ?a @ []) (length (eth_bytes ?e)) = ?a"
    by (rule arp_header_at_bytes) simp_all
  then have "arp_header_at (pk_payload (demo_arp_packet op)) ETH_LEN = ?a"
    by (simp only: p n)
  then show "ar_op (arp_header_at (pk_payload (demo_arp_packet op)) ETH_LEN) = htons op"
    "ar_tpa (arp_header_at (pk_payload (demo_arp_packet op)) ETH_LEN) = 0x0100a8c0"
    by simp_all
qed

theorem arp_request_answered_witness:
  "let s = (demo_router [])\<lparr>msg := demo_arp_packet ARPOP_REQUEST\<rparr> in
   \<exists>f. handle_packet demo_env s = Inr (s, [f])"
  using arp_request_answered [of "(demo_router [])\<lparr>msg := demo_arp_packet ARPOP_REQUEST\<rparr>" demo_env]
  by (simp add: demo_arp_fields) (simp add: demo_arp_packet_def demo_env_def ROUTER_NUM_INTERFACES_def)

text \<open>
  The router looks a packet's destination up in the ARP table, not the next hop of its
  route. So for a destination with no ARP entry of its own the packet is not sent even when
  the MAC address of the next hop is known: another ARP request for that next hop goes out,
  the packet is stored and its address appended to the queue.
\<close>

theorem next_hop_not_consulted:
  assumes "34 \<le> length (pk_payload (msg s))" "to_forward e (msg s)"
    "lookup_route (rtable s) (dest (msg s)) = Inr (Some k)"
    "rt_interface (rtable s ! k) < ROUTER_NUM_INTERFACES" "length (if_mac e (rt_interface (rtable s ! k))) = 6"
    "get_arp_entry (arp_table s) (dest (msg s)) = None"
    "get_arp_entry (arp_table s) (next_hop (rtable s ! k)) = Some a"
    "queue_rep (pqueue s) xs"
  shows "\<exists>s'. handle_packet e s =
      Inr (s', [(rt_interface (rtable s ! k), request_frame e (rtable s ! k))]) \<and>
    queue_rep (pqueue s') (xs @ [AddrOfP]) \<and> arp_table s' = arp_table s \<and>
    pk_payload (p_slot s') = decrement_ttl (pk_payload (msg s))"
  using handle_packet_forward [OF assms(2,3)] forward_ip_miss [OF assms(1,6,8,5,4)]
  by auto

theorem next_hop_not_consulted_witness:
  "let s = (demo_router [\<lparr>arp_ip = 9, arp_mac = [2, 0, 0, 0, 0, 7]\<rparr>])\<lparr>rtable := [demo_route\<lparr>next_hop := 9\<rparr>]\<rparr>
   in get_arp_entry (arp_table s) (next_hop (rtable s ! 0)) = Some 0 \<and>
     (\<exists>s'. handle_packet demo_env s = Inr (s', [(1, request_frame demo_env (rtable s ! 0))]))"
proof -
  let ?s = "(demo_router [\<lparr>arp_ip = 9, arp_mac = [2, 0, 0, 0, 0, 7]\<rparr>])\<lparr>rtable := [demo_route\<lparr>next_hop := 9\<rparr>]\<rparr>"
  have r: "rtable ?s ! 0 = demo_route\<lparr>next_hop := 9\<rparr>" "rt_interface (demo_route\<lparr>next_hop := 9\<rparr>) = 1"
    "length (if_mac demo_env 1) = 6"
    by (simp_all add: demo_route_def demo_env_def)
  have l: "lookup_route (rtable ?s) (dest demo_packet) = Inr (Some 0)"
    by (simp add: demo_dest lookup_route_def get_best_route.simps demo_route_def)
  show ?thesis
    using next_hop_not_consulted [of ?s demo_env 0 0 "[]"] l demo_to_forward demo_lens queue_rep_create r
    by (simp add: demo_dest ROUTER_NUM_INTERFACES_def) blast
qed


text \<open>
  Two packets for unresolved destinations leave two queue entries, but both entries are
  the address of the one variable \<open>p\<close>. Even on a machine that leaves that variable alone, the
  two ARP replies that follow send the second packet twice; the first packet is never sent.
\<close>

theorem queued_packet_overwritten:
  assumes "34 \<le> length (pk_payload (msg s))" "34 \<le> length (pk_payload m2)"
    "to_forward e (msg s)" "to_forward e m2"
    "lookup_route (rtable s) (dest (msg s)) = Inr (Some k)" "lookup_route (rtable s) (dest m2) = Inr (Some j)"
    "get_arp_entry (arp_table s) (dest (msg s)) = None" "get_arp_entry (arp_table s) (dest m2) = None"
    "\<forall>r \<in> set (rtable s). rt_interface r < ROUTER_NUM_INTERFACES" "env_ok e" "stale e = (\<lambda>p. p)"
    "queue_rep (pqueue s) []" "length (arp_table s) + 2 \<le> ARP_CAP"
    "\<forall>r \<in> {r1, r2}. ether_type (ether_header_at (pk_payload r)) = htons ETHERTYPE_ARP \<and>
       ar_op (arp_header_at (pk_payload r) ETH_LEN) = htons ARPOP_REPLY"
  defines "sent r \<equiv> (rt_interface (rtable s ! j),
      take (pk_len m2) (put_bytes (put_bytes (decrement_ttl (pk_payload m2)) 0
        (ar_sha (arp_header_at (pk_payload r) ETH_LEN))) 6 (if_mac e (rt_interface (rtable s ! j)))))"
  shows "\<exists>s1 s2 s3 s4 f1 f2.
    handle_packet e s = Inr (s1, [f1]) \<and> handle_packet e (s1\<lparr>msg := m2\<rparr>) = Inr (s2, [f2]) \<and>
    handle_packet e (s2\<lparr>msg := r1\<rparr>) = Inr (s3, [sent r1]) \<and>
    handle_packet e (s3\<lparr>msg := r2\<rparr>) = Inr (s4, [sent r2]) \<and> queue_rep (pqueue s4) []"
proof -
  have i: "rt_interface (rtable s ! k) < ROUTER_NUM_INTERFACES" "rt_interface (rtable s ! j) < ROUTER_NUM_INTERFACES"
    using assms(5,6,9) by (auto dest: lookup_route_sound)
  have mac: "length (if_mac e n) = 6" for n using assms(10) by (simp add: env_ok_def)
  let ?m = "m2\<lparr>pk_payload := decrement_ttl (pk_payload m2)\<rparr>"
  have d: "dest ?m = dest m2" using assms(2) by (simp add: iphdr_at_decrement)
  obtain q m where s1: "handle_packet e s =
      Inr (s\<lparr>msg := m, p_slot := m, pqueue := q\<rparr>, [(rt_interface (rtable s ! k), request_frame e (rtable s ! k))])"
    "queue_rep q [AddrOfP]"
    using forward_ip_miss [OF assms(1,7,12) mac i(1)] handle_packet_forward [OF assms(3,5)] by auto
  obtain q2 where s2: "handle_packet e (s\<lparr>msg := m2, p_slot := m, pqueue := q\<rparr>) =
      Inr (s\<lparr>msg := ?m, p_slot := ?m, pqueue := q2\<rparr>, [(rt_interface (rtable s ! j), request_frame e (rtable s ! j))])"
    "queue_rep q2 [AddrOfP, AddrOfP]"
    using forward_ip_miss [of "s\<lparr>msg := m2, p_slot := m, pqueue := q\<rparr>" "[AddrOfP]" e "rtable s ! j"]
      handle_packet_forward [of e "s\<lparr>msg := m2, p_slot := m, pqueue := q\<rparr>" j] assms(2,4,6,8) mac i(2) s1(2)
    by auto
  have add: "\<exists>t'. arp_add t ip mac' = Inr t' \<and> length t' \<le> Suc (length t)" if "length t < ARP_CAP" for t ip mac'
    using that by (auto simp: arp_add_def)
  obtain t1 where t1: "arp_add (arp_table s) (ar_spa (arp_header_at (pk_payload r1) ETH_LEN))
      (ar_sha (arp_header_at (pk_payload r1) ETH_LEN)) = Inr t1" "length t1 \<le> Suc (length (arp_table s))"
    using add [of "arp_table s"] assms(13) by fastforce
  obtain t2 where t2: "arp_add t1 (ar_spa (arp_header_at (pk_payload r2) ETH_LEN))
      (ar_sha (arp_header_at (pk_payload r2) ETH_LEN)) = Inr t2"
    using add [of t1] t1(2) assms(13) by fastforce
  obtain q3 where s3: "handle_packet e (s\<lparr>msg := r1, p_slot := ?m, pqueue := q2\<rparr>) =
      Inr (s\<lparr>msg := r1, p_slot := ?m, arp_table := t1, pqueue := q3\<rparr>, [sent r1])" "queue_rep q3 [AddrOfP]"
    using arp_reply_flush [of "s\<lparr>msg := r1, p_slot := ?m, pqueue := q2\<rparr>" _ t1 "[AddrOfP]" e ?m j]
      assms(6,11,14) d i(2) s2(2) t1(1)
    by (auto simp: sent_def)
  obtain q4 where s4: "handle_packet e (s\<lparr>msg := r2, p_slot := ?m, arp_table := t1, pqueue := q3\<rparr>) =
      Inr (s\<lparr>msg := r2, p_slot := ?m, arp_table := t2, pqueue := q4\<rparr>, [sent r2])" "queue_rep q4 []"
    using arp_reply_flush [of "s\<lparr>msg := r2, p_slot := ?m, arp_table := t1, pqueue := q3\<rparr>" _ t2 "[]" e ?m j]
      assms(6,11,14) d i(2) s3(2) t2
    by (auto simp: sent_def)
  let ?s1 = "s\<lparr>msg := m, p_slot := m, pqueue := q\<rparr>" and ?s2 = "s\<lparr>msg := ?m, p_slot := ?m, pqueue := q2\<rparr>"
    and ?s3 = "s\<lparr>msg := r1, p_slot := ?m, arp_table := t1, pqueue := q3\<rparr>"
    and ?s4 = "s\<lparr>msg := r2, p_slot := ?m, arp_table := t2, pqueue := q4\<rparr>"
  have u: "?s1\<lparr>msg := m2\<rparr> = s\<lparr>msg := m2, p_slot := m, pqueue := q\<rparr>"
    "?s2\<lparr>msg := r1\<rparr> = s\<lparr>msg := r1, p_slot := ?m, pqueue := q2\<rparr>"
    "?s3\<lparr>msg := r2\<rparr> = s\<lparr>msg := r2, p_slot := ?m, arp_table := t1, pqueue := q3\<rparr>"
    by simp_all
  show ?thesis
    by (rule exI [of _ ?s1], rule exI [of _ ?s2], rule exI [of _ ?s3], rule exI [of _ ?s4],
        intro exI conjI, rule s1(1), simp only: u, rule s2(1), simp only: u, rule s3(1), simp only: u, rule s4(1))
      (simp add: s4(2))
qed

theorem queued_packet_overwritten_witness:
  "let r = demo_arp_packet ARPOP_REPLY in
   \<exists>s1 s2 s3 s4 f1 f2 f3 f4.
    handle_packet demo_env (demo_router []) = Inr (s1, [f1]) \<and>
    handle_packet demo_env (s1\<lparr>msg := demo_packet\<rparr>) = Inr (s2, [f2]) \<and>
    handle_packet demo_env (s2\<lparr>msg := r\<rparr>) = Inr (s3, [f3]) \<and>
    handle_packet demo_env (s3\<lparr>msg := r\<rparr>) = Inr (s4, [f4])"
proof -
  have "env_ok demo_env" "stale demo_env = (\<lambda>p. p)" "rt_interface demo_route < ROUTER_NUM_INTERFACES"
    by (simp_all add: demo_env_def env_ok_def demo_route_def ROUTER_NUM_INTERFACES_def)
  then show ?thesis
    using queued_packet_overwritten [of "demo_router []" demo_packet demo_env 0 0
        "demo_arp_packet ARPOP_REPLY" "demo_arp_packet ARPOP_REPLY"]
      demo_lens demo_to_forward demo_lookup [of "[]"]
    by (simp add: demo_arp_fields ARP_CAP_def queue_rep_create Let_def) blast
qed



text \<open>
  Over any number of frames the only failure is the write of an eleventh entry into the
  ten-entry ARP table; as long as that does not happen the invariant of the loop holds.
\<close>

theorem only_arp_table_overflows:
  assumes "env_ok e" "stale e = (\<lambda>p. p)" "\<forall>r \<in> set routes. rt_interface r < ROUTER_NUM_INTERFACES"
    "packet_ok p" "packet_ok m"
  shows "case router_run e (router_init routes p m) rs of
      Inr (s', fs) \<Rightarrow> router_inv s' | Inl err \<Rightarrow> err = OutOfBounds"
  by (rule router_run_inv [OF assms(1,2) router_init_inv [OF assms(3-5)]])

theorem only_arp_table_overflows_witness:
  "case router_run demo_env (router_init [demo_route] \<lparr>pk_len = 0, pk_payload = replicate MAX_LEN 0, pk_interface = 0\<rparr>
     \<lparr>pk_len = 0, pk_payload = replicate MAX_LEN 0, pk_interface = 0\<rparr>) (replicate 50 [None, Some demo_bytes]) of
      Inr (s', fs) \<Rightarrow> router_inv s' | Inl err \<Rightarrow> err = OutOfBounds"
  by (rule only_arp_table_overflows)
    (simp_all add: demo_env_def env_ok_def demo_route_def ROUTER_NUM_INTERFACES_def packet_ok_def)

text \<open>
  An ARP reply that finds no packet queued only teaches the table: its sender can be
  looked up from then on, no known address changes, and nothing is sent.
\<close>

theorem arp_reply_learned:
  assumes "ether_type (ether_header_at (pk_payload (msg s))) = htons ETHERTYPE_ARP"
    "ar_op (arp_header_at (pk_payload (msg s)) ETH_LEN) = htons ARPOP_REPLY"
    "queue_rep (pqueue s) []" "length (arp_table s) < ARP_CAP"
  shows "\<exists>t. handle_packet e s = Inr (s\<lparr>arp_table := t\<rparr>, []) \<and>
    (\<exists>i. get_arp_entry t (ar_spa (arp_header_at (pk_payload (msg s)) ETH_LEN)) = Some i) \<and>
    (\<forall>ip i. get_arp_entry (arp_table s) ip = Some i \<longrightarrow> get_arp_entry t ip = Some i \<and> t ! i = arp_table s ! i)"
proof -
  let ?a = "arp_header_at (pk_payload (msg s)) ETH_LEN"
  obtain t where t: "arp_add (arp_table s) (ar_spa ?a) (ar_sha ?a) = Inr t"
    using assms(4) by (cases "arp_add (arp_table s) (ar_spa ?a) (ar_sha ?a)") (auto simp: arp_add_def split: if_splits)
  have "queue_empty (fst (pqueue s))" using lq.rep_empty [OF assms(3)] by simp
  with t have "handle_packet e s = Inr (s\<lparr>arp_table := t\<rparr>, [])"
    by (simp add: handle_arp_reply [OF assms(1) refl assms(2)] learn_reply_def assms(2))
  with arp_add_lookup [OF t] arp_add_keeps [OF t] show ?thesis by blast
qed

theorem arp_reply_learned_witness:
  "\<exists>t. handle_packet demo_env ((demo_router [])\<lparr>msg := demo_arp_packet ARPOP_REPLY\<rparr>) =
     Inr ((demo_router [])\<lparr>msg := demo_arp_packet ARPOP_REPLY, arp_table := t\<rparr>, [])"
  using arp_reply_learned [of "(demo_router [])\<lparr>msg := demo_arp_packet ARPOP_REPLY\<rparr>" demo_env] queue_rep_create
  by (simp add: demo_arp_fields ARP_CAP_def) blast

end
