(* ===== verification/Inet.thy ===== *)
theory Inet
  imports CString
begin

text \<open>
  The text of internet addresses, as \<^verbatim>\<open>inet_addr\<close> in \<^verbatim>\<open>Tema_1\<close> and \<^verbatim>\<open>inet_aton\<close> in \<^verbatim>\<open>Tema_2\<close> read it.
\<close>

section \<open>Reading\<close>

text \<open>
  One part of an address as \<open>inet_addr\<close> reads it: decimal, octal behind a zero, hexadecimal
  behind \<open>0x\<close>; the result is the value and the rest.
\<close>

definition digit_in :: "nat \<Rightarrow> char \<Rightarrow> bool" where
  "digit_in base c \<longleftrightarrow>
     (if base = 16 then isdigit c \<or> 97 \<le> uchar (to_lower c) \<and> uchar (to_lower c) \<le> 102
      else 48 \<le> uchar c \<and> uchar c < 48 + base)"

definition digit_of :: "char \<Rightarrow> nat" where
  "digit_of c = (if isdigit c then uchar c - 48 else uchar (to_lower c) - 87)"

definition inet_number :: "string \<Rightarrow> (nat \<times> string) option" where
  "inet_number s =
     (if \<not> isdigit (peek s) then None
      else let (base, s) =
             (if peek s = CHR ''0'' \<and> to_lower (char_at s 1) = CHR ''x'' \<and> digit_in 16 (char_at s 2) then (16, drop 2 s)
              else if peek s = CHR ''0'' then (8, s) else (10, s))
        in Some (foldl (\<lambda>v c. base * v + digit_of c) 0 (takeWhile (digit_in base) s), dropWhile (digit_in base) s))"

text \<open>Up to three more parts, each but the last a byte.\<close>

fun inet_parts :: "nat \<Rightarrow> string \<Rightarrow> (nat list \<times> string) option" where
  "inet_parts n s =
     (case inet_number s of None \<Rightarrow> None
      | Some (v, r) \<Rightarrow>
          if peek r = CHR ''.''
          then (case n of 0 \<Rightarrow> None
                | Suc k \<Rightarrow> if v > 255 then None else map_option (\<lambda>(vs, r). (v # vs, r)) (inet_parts k (drop 1 r)))
          else Some ([v], r))"

declare inet_parts.simps [simp del]

text \<open>The number of the address, first part highest; the last part fills the bytes that are left.\<close>

definition inet_host :: "string \<Rightarrow> nat option" where
  "inet_host s =
     (case inet_parts 3 s of None \<Rightarrow> None
      | Some (vs, r) \<Rightarrow>
          if r \<noteq> [] \<and> \<not> isspace (peek r) \<or> last vs \<ge> 256 ^ (5 - length vs) then None
          else Some (foldl (\<lambda>v b. 256 * v + b) 0 (butlast vs) * 256 ^ (5 - length vs) + last vs))"

text \<open>\<open>htons\<close> takes the low 16 bits of the number.\<close>

definition port_number :: "int \<Rightarrow> nat" where
  "port_number portno = nat (portno mod 65536)"

section \<open>Numbers in decimal\<close>

lemma digit_in_10: "digit_in 10 = isdigit"
  by (rule ext) (auto simp: digit_in_def isdigit_def)

lemma foldl_digits: "\<forall>c \<in> set ds. isdigit c \<Longrightarrow> foldl (\<lambda>v c. 10 * v + digit_of c) n ds = foldl (\<lambda>v c. 10 * v + (uchar c - 48)) n ds"
  by (induction ds arbitrary: n) (simp_all add: digit_of_def)

lemma peek_nat_text: "isdigit (peek (nat_text n @ r))"
  using nat_text_digits [of "peek (nat_text n)" n] by (cases "nat_text n") (simp_all add: peek_append)

lemma takeWhile_stop: "\<forall>c \<in> set xs. P c \<Longrightarrow> r = [] \<or> \<not> P (peek r) \<Longrightarrow> takeWhile P (xs @ r) = xs \<and> dropWhile P (xs @ r) = r"
  by (cases r) (auto simp: takeWhile_append2 dropWhile_append2 takeWhile_tail)

lemma inet_number_text:
  assumes "r = [] \<or> peek r = CHR ''.''"
  shows "inet_number (nat_text v @ r) = Some (v, r)"
proof (cases "v = 0")
  case True
  have z: "nat_text 0 = ''0''" by code_simp
  have "to_lower (char_at (''0'' @ r) 1) \<noteq> CHR ''x''" using assms by (cases r) (auto simp: to_lower_def)
  moreover have "takeWhile (digit_in 8) (''0'' @ r) = ''0'' \<and> dropWhile (digit_in 8) (''0'' @ r) = r"
    using assms by (intro takeWhile_stop) (auto simp: digit_in_def)
  ultimately show ?thesis
    unfolding True z by (simp add: inet_number_def isdigit_def digit_of_def)
next
  case False
  then have "peek (nat_text v @ r) \<noteq> CHR ''0''" using nat_text_leading [of v] by (simp add: peek_append)
  moreover have "takeWhile isdigit (nat_text v @ r) = nat_text v \<and> dropWhile isdigit (nat_text v @ r) = r"
    using assms nat_text_digits by (intro takeWhile_stop) (auto simp: isdigit_def)
  moreover have "foldl (\<lambda>v c. 10 * v + digit_of c) 0 (nat_text v) = v"
    using foldl_digits [of "nat_text v" 0] nat_text_digits digits_value_nat_text [of v] by (simp add: digits_value_def)
  ultimately show ?thesis
    using peek_nat_text by (simp add: inet_number_def digit_in_10)
qed

lemma inet_parts_text:
  "inet_parts n (nat_text v) = Some ([v], [])"
  "v \<le> 255 \<Longrightarrow> inet_parts (Suc k) (nat_text v @ CHR ''.'' # s) = map_option (\<lambda>(vs, r). (v # vs, r)) (inet_parts k s)"
  using inet_number_text [of "[]" v] inet_number_text [of "CHR ''.'' # s" v]
  by (simp_all add: inet_parts.simps [of _ "nat_text v"] inet_parts.simps [of _ "nat_text v @ CHR ''.'' # s"])

text \<open>An address of four bytes.\<close>

definition dotted_quad :: "nat \<Rightarrow> nat \<Rightarrow> nat \<Rightarrow> nat \<Rightarrow> string" where
  "dotted_quad a b c d = nat_text a @ CHR ''.'' # nat_text b @ CHR ''.'' # nat_text c @ CHR ''.'' # nat_text d"

lemma port_number_int: "port_number (int p) = p mod 65536"
  by (simp add: port_number_def nat_mod_distrib)

lemma inet_host_dotted:
  assumes "a \<le> 255" "b \<le> 255" "c \<le> 255" "d \<le> 255"
  shows "inet_host (dotted_quad a b c d) = Some (((a * 256 + b) * 256 + c) * 256 + d)"
proof -
  have "inet_parts 3 (dotted_quad a b c d) = Some ([a, b, c, d], [])"
    unfolding numeral_3_eq_3 using assms by (simp add: dotted_quad_def numeral_2_eq_2 inet_parts_text)
  with assms show ?thesis by (simp add: inet_host_def)
qed

end
