(* ===== verification/RouteFile.thy ===== *)
theory RouteFile
  imports RouteTable Inet
begin

text \<open>
  The reading of the routing table: \<open>parsing_rtable\<close> of \<^verbatim>\<open>Tema_1/router.c\<close>, with the functions of the standard
  library it calls on the text of the file.
\<close>

section \<open>Addresses\<close>

text \<open>The address in network order, or the broadcast address for what is none.\<close>

definition INADDR_NONE :: "32 word" where "INADDR_NONE = 0xffffffff"

definition inet_addr :: "string \<Rightarrow> 32 word" where
  "inet_addr s = (case inet_host s of None \<Rightarrow> INADDR_NONE | Some v \<Rightarrow> htonl (word_of_nat v))"

section \<open>Lines\<close>

text \<open>\<open>fgets\<close> into \<open>n\<close> bytes: the line with its newline, or \<open>n - 1\<close> characters of it; and the rest of the file.\<close>

definition fgets :: "nat \<Rightarrow> string \<Rightarrow> string \<times> string" where
  "fgets n s =
     (let line = takeWhile (\<lambda>c. c \<noteq> CHR 0x0A) s;
          k = min (n - 1) (if length line < length s then Suc (length line) else length line)
      in (take k s, drop k s))"

text \<open>The conversions \<open>"%s"\<close> and \<open>"%d"\<close>.\<close>

definition scan_word :: "string \<Rightarrow> (string \<times> string) option" where
  "scan_word s =
     (let s = skip_whitespaces s
      in if s = [] then None else Some (takeWhile (\<lambda>c. \<not> isspace c) s, dropWhile (\<lambda>c. \<not> isspace c) s))"

definition scan_int :: "string \<Rightarrow> int option" where
  "scan_int s =
     (let s = skip_whitespaces s;
          neg = (peek s = CHR ''-'');
          s = (if peek s \<in> {CHR ''-'', CHR ''+''} then drop 1 s else s);
          ds = takeWhile isdigit s;
          v = (if neg then - int (digits_value ds) else int (digits_value ds))
      in if ds = [] then None else Some (to_int32 (max (- (2 ^ 63)) (min (2 ^ 63 - 1) v))))"

text \<open>The variables a line is read into; where a conversion fails those behind it keep what they had.\<close>

record row_fields =
  f_prefix :: string
  f_next_hop :: string
  f_mask :: string
  f_interface :: int

definition store_word :: "(string \<Rightarrow> row_fields \<Rightarrow> row_fields) \<Rightarrow> (string \<Rightarrow> row_fields \<Rightarrow> row_fields c_result) \<Rightarrow>
    string \<Rightarrow> row_fields \<Rightarrow> row_fields c_result" where
  "store_word set_field rest s f =
     (case scan_word s of None \<Rightarrow> Inr f
      | Some (w, s) \<Rightarrow> if length w \<ge> 25 then Inl OutOfBounds else rest s (set_field w f))"

definition scan_line :: "string \<Rightarrow> row_fields \<Rightarrow> row_fields c_result" where
  "scan_line line =
     store_word (\<lambda>w. f_prefix_update (\<lambda>_. w))
       (store_word (\<lambda>w. f_next_hop_update (\<lambda>_. w))
         (store_word (\<lambda>w. f_mask_update (\<lambda>_. w))
           (\<lambda>s f. Inr (case scan_int s of None \<Rightarrow> f | Some i \<Rightarrow> f\<lparr>f_interface := i\<rparr>))))
     (takeWhile (\<lambda>c. c \<noteq> NUL) line)"

text \<open>A negative interface stands as its unsigned value, which is no interface either.\<close>

definition row_of :: "row_fields \<Rightarrow> route_table" where
  "row_of f = \<lparr>prefix = inet_addr (f_prefix f), next_hop = inet_addr (f_next_hop f), mask = inet_addr (f_mask f),
     rt_interface = nat (f_interface f mod 2 ^ 32)\<rparr>"

definition RTABLE_CAP :: nat where "RTABLE_CAP = 100000"

lemma fgets_progress: "s \<noteq> [] \<Longrightarrow> 1 < n \<Longrightarrow> length (snd (fgets n s)) < length s"
  by (cases s) (auto simp: fgets_def Let_def)

function parse_rows :: "nat \<Rightarrow> string \<Rightarrow> row_fields \<Rightarrow> route_table list c_result" where
  "parse_rows nr s f =
     (if s = [] then Inr []
      else c_bind (scan_line (fst (fgets 50 s)) f) (\<lambda>f.
             if nr \<ge> RTABLE_CAP then Inl OutOfBounds
             else c_bind (parse_rows (Suc nr) (snd (fgets 50 s)) f) (\<lambda>rows. Inr (row_of f # rows))))"
  by pat_completeness auto
termination
  by (relation "measure (\<lambda>(nr, s, f). length s)") (simp_all add: fgets_progress)

declare parse_rows.simps [simp del]

text \<open>A file that cannot be opened is read through a null pointer. What the variables hold at first is a parameter.\<close>

definition parsing_rtable :: "row_fields \<Rightarrow> string option \<Rightarrow> route_table list c_result" where
  "parsing_rtable f0 file = (case file of None \<Rightarrow> Inl NullDeref | Some s \<Rightarrow> parse_rows 0 s f0)"

end
