(* ===== verification/RouteFileProps.thy ===== *)
theory RouteFileProps
  imports RouteFile
begin

text \<open>
  What the router reads from a well-formed file is the table in it, except for the rows that
  fill the line buffer.
\<close>

abbreviation LF :: char where "LF \<equiv> CHR 0x0A"

section \<open>Addresses in dotted form\<close>

definition dotted :: "32 word \<Rightarrow> string" where
  "dotted w = (let b = (\<lambda>i. nat_text (unat (put32 w ! i))) in b 0 @ CHR ''.'' # b 1 @ CHR ''.'' # b 2 @ CHR ''.'' # b 3)"

lemma inet_addr_dotted: "inet_addr (dotted w) = w"
proof -
  obtain a b c d where w: "w = le32 [a, b, c, d]" using put32_cases by blast
  have "inet_parts 3 (dotted w) = Some ([unat a, unat b, unat c, unat d], [])"
    unfolding numeral_3_eq_3 by (simp add: w dotted_def numeral_2_eq_2 inet_parts_text unat_byte_le)
  moreover have "word_of_nat (((unat a * 256 + unat b) * 256 + unat c) * 256 + unat d) = le32 [d, c, b, a]"
    by (simp add: le32.simps algebra_simps)
  ultimately show ?thesis
    using unat_byte_less [of d, folded not_le] by (simp add: inet_addr_def inet_host_def w htonl_le32 algebra_simps)
qed

lemma dotted_chars: "c \<in> set (dotted w) \<Longrightarrow> isdigit c \<or> c = CHR ''.''"
  using nat_text_digits by (auto simp: dotted_def Let_def)

lemma dotted_no_space: "c \<in> set (dotted w) \<Longrightarrow> \<not> isspace c \<and> c \<noteq> NUL \<and> c \<noteq> LF"
  using dotted_chars [of c w] by (auto simp: isdigit_def isspace_def)

lemma length_dotted: "length (dotted w) \<le> 15" "dotted w \<noteq> []"
proof -
  have "length (nat_text (unat (b :: 8 word))) \<le> 3" for b
    using nat_text_length [of "unat b" 3] unat_byte_less [of b] by simp
  from this [of "put32 w ! 0"] this [of "put32 w ! 1"] this [of "put32 w ! 2"] this [of "put32 w ! 3"]
  show "length (dotted w) \<le> 15" by (simp add: dotted_def)
qed (simp add: dotted_def)

section \<open>Rows\<close>

definition row_text :: "route_table \<Rightarrow> string" where
  "row_text r = dotted (prefix r) @ '' '' @ dotted (next_hop r) @ '' '' @ dotted (mask r) @ '' '' @ nat_text (rt_interface r)"

definition fields_of :: "route_table \<Rightarrow> row_fields" where
  "fields_of r = \<lparr>f_prefix = dotted (prefix r), f_next_hop = dotted (next_hop r), f_mask = dotted (mask r),
     f_interface = int (rt_interface r)\<rparr>"

lemma row_of_fields: "rt_interface r < 2 ^ 31 \<Longrightarrow> row_of (fields_of r) = r"
  by (cases r) (simp add: row_of_def fields_of_def inet_addr_dotted)

lemma scan_word_text:
  assumes "w \<noteq> []" "\<forall>c \<in> set w. \<not> isspace c"
  shows "scan_word (w @ '' '' @ s) = Some (w, '' '' @ s)" "scan_word ('' '' @ w @ s) = scan_word (w @ s)"
proof -
  have "skip_whitespaces (w @ x) = w @ x" for x using assms by (intro skip_whitespaces_id) (cases w; simp)
  moreover have "takeWhile (\<lambda>c. \<not> isspace c) (w @ '' '' @ s) = w \<and> dropWhile (\<lambda>c. \<not> isspace c) (w @ '' '' @ s) = '' '' @ s"
    using assms(2) by (intro takeWhile_stop) (simp_all add: isspace_def)
  ultimately show "scan_word (w @ '' '' @ s) = Some (w, '' '' @ s)" using assms(1) by (simp add: scan_word_def)
  show "scan_word ('' '' @ w @ s) = scan_word (w @ s)" by (simp add: scan_word_def isspace_def)
qed

lemma scan_int_text:
  assumes "n < 2 ^ 31" "r = [] \<or> r = [LF]"
  shows "scan_int ('' '' @ nat_text n @ r) = Some (int n)"
proof -
  have p: "isdigit (peek (nat_text n @ r))" by (rule peek_nat_text)
  then have "\<not> isspace (peek (nat_text n @ r))" "peek (nat_text n @ r) \<notin> {CHR ''-'', CHR ''+''}"
    by (auto simp: isspace_def isdigit_def)
  moreover have "skip_whitespaces ('' '' @ nat_text n @ r) = nat_text n @ r"
    using skip_whitespaces_id [OF calculation(1)] by (simp add: isspace_def)
  moreover have "takeWhile isdigit (nat_text n @ r) = nat_text n \<and> dropWhile isdigit (nat_text n @ r) = r"
    using assms(2) nat_text_digits by (intro takeWhile_stop) (auto simp: isdigit_def)
  moreover have "to_int32 (int n) = int n" using assms(1) by (simp add: to_int32_def)
  ultimately show ?thesis using assms(1) by (simp add: scan_int_def digits_value_nat_text)
qed

lemma scan_row:
  assumes "rt_interface r < 2 ^ 31" "s = [] \<or> s = [LF]"
  shows "scan_line (row_text r @ s) f = Inr (fields_of r)"
proof -
  have "NUL \<notin> set (row_text r)" using dotted_no_space nat_text_digits [of NUL] by (auto simp: row_text_def isdigit_def)
  then have "takeWhile (\<lambda>c. c \<noteq> NUL) (row_text r @ s) = row_text r @ s"
    using takeWhile_stop [of "row_text r @ s" "\<lambda>c. c \<noteq> NUL" "[]"] assms(2) by auto
  then have "scan_line (row_text r @ s) f = store_word (\<lambda>w. f_prefix_update (\<lambda>_. w))
       (store_word (\<lambda>w. f_next_hop_update (\<lambda>_. w))
         (store_word (\<lambda>w. f_mask_update (\<lambda>_. w))
           (\<lambda>s f. Inr (case scan_int s of None \<Rightarrow> f | Some i \<Rightarrow> f\<lparr>f_interface := i\<rparr>)))) (row_text r @ s) f"
    by (simp only: scan_line_def)
  moreover have "\<forall>c \<in> set (dotted w). \<not> isspace c" "\<not> 25 \<le> length (dotted w)" for w
    using dotted_no_space length_dotted(1) [of w] by auto
  ultimately show ?thesis
    using scan_int_text [OF assms] scan_word_text [OF length_dotted(2)]
    by (cases f) (simp add: row_text_def store_word_def fields_of_def)
qed

lemma scan_newline: "scan_line [LF] f = Inr f"
  by (simp add: scan_line_def store_word_def scan_word_def isspace_def skip_whitespaces_def)

lemma fgets_line:
  assumes "LF \<notin> set l"
  shows "length l + 1 < n \<Longrightarrow> fgets n (l @ LF # s) = (l @ [LF], s)" "length l + 1 = n \<Longrightarrow> fgets n (l @ LF # s) = (l, LF # s)"
proof -
  have "takeWhile (\<lambda>c. c \<noteq> LF) (l @ LF # s) = l"
    using assms by (subst takeWhile_stop [THEN conjunct1]) auto
  then show "length l + 1 < n \<Longrightarrow> fgets n (l @ LF # s) = (l @ [LF], s)" "length l + 1 = n \<Longrightarrow> fgets n (l @ LF # s) = (l, LF # s)"
    by (auto simp: fgets_def)
qed

lemma row_text_line: "LF \<notin> set (row_text r)"
  using dotted_no_space nat_text_digits [of LF] by (auto simp: row_text_def isdigit_def)

text \<open>A row of 49 characters fills the buffer; its newline is then read as a line of its own.\<close>

abbreviation rows_read :: "route_table \<Rightarrow> route_table list" where
  "rows_read r \<equiv> (if length (row_text r) = 49 then [r, r] else [r])"

abbreviation table_text :: "route_table list \<Rightarrow> string" where
  "table_text rs \<equiv> concat (map (\<lambda>r. row_text r @ [LF]) rs)"

lemma parse_rows_text:
  assumes "\<forall>r \<in> set rs. length (row_text r) < 50 \<and> rt_interface r < 2 ^ 31" "nr + 2 * length rs \<le> RTABLE_CAP"
  shows "parse_rows nr (table_text rs) f = Inr (concat (map rows_read rs))"
  using assms
proof (induction rs arbitrary: nr f)
  case (Cons r rs)
  have r: "length (row_text r) < 50" "rt_interface r < 2 ^ 31" using Cons.prems(1) by simp_all
  have cap: "\<not> RTABLE_CAP \<le> nr" "\<not> RTABLE_CAP \<le> Suc nr" using Cons.prems(2) by simp_all
  let ?s = "table_text rs"
  show ?case
  proof (cases "length (row_text r) = 49")
    case True
    have "parse_rows (Suc (Suc nr)) ?s (fields_of r) = Inr (concat (map rows_read rs))"
      using Cons.prems by (intro Cons.IH) simp_all
    then have "parse_rows (Suc nr) (LF # ?s) (fields_of r) = Inr (r # concat (map rows_read rs))"
      using fgets_line(1) [of "[]" 50 ?s] cap r(2)
      by (subst parse_rows.simps) (simp add: scan_newline row_of_fields)
    then show ?thesis
      using fgets_line(2) [OF row_text_line, of r 50 ?s] True cap r(2) scan_row [OF r(2), of "[]"]
      by (subst parse_rows.simps) (simp add: row_of_fields)
  next
    case False
    have "parse_rows (Suc nr) ?s (fields_of r) = Inr (concat (map rows_read rs))"
      using Cons.prems by (intro Cons.IH) simp_all
    then show ?thesis
      using fgets_line(1) [OF row_text_line, of r 50 ?s] False cap r scan_row [OF r(2), of "[LF]"]
      by (subst parse_rows.simps) (simp add: row_of_fields)
  qed
qed (simp add: parse_rows.simps)

lemma parsing_rtable_text:
  assumes "\<forall>r \<in> set rs. length (row_text r) < 50 \<and> rt_interface r < 2 ^ 31" "2 * length rs \<le> RTABLE_CAP"
  shows "parsing_rtable f0 (Some (table_text rs)) = Inr (concat (map rows_read rs))"
  using parse_rows_text [OF assms(1), of 0 f0] assms(2) by (simp add: parsing_rtable_def)

text \<open>
  C36: From a file with one row per line, addresses in dotted form, the table is read as it is written, whatever the
  variables held before; only a row of exactly 49 characters, which fills the line buffer, is entered twice.
\<close>

theorem table_file_read_back:
  assumes "\<forall>r \<in> set rs. length (row_text r) < 50 \<and> rt_interface r < 2 ^ 31" "2 * length rs \<le> RTABLE_CAP"
  shows "parsing_rtable f0 (Some (table_text rs)) = Inr (concat (map (\<lambda>r. if length (row_text r) = 49 then [r, r] else [r]) rs)) \<and>
    ((\<forall>r \<in> set rs. length (row_text r) < 49) \<longrightarrow> parsing_rtable f0 (Some (table_text rs)) = Inr rs)"
proof -
  note parsing_rtable_text [OF assms]
  moreover have "concat (map rows_read rs) = rs" if "\<forall>r \<in> set rs. length (row_text r) < 49"
    using that by (induction rs) auto
  ultimately show ?thesis by simp
qed

theorem table_file_read_back_witness:
  "\<exists>r. parsing_rtable \<lparr>f_prefix = [], f_next_hop = [], f_mask = [], f_interface = 0\<rparr>
      (Some (''192.168.100.100 192.168.100.101 255.255.255.255 2'' @ [LF])) = Inr [r, r]"
proof -
  let ?r = "\<lparr>prefix = le32 [192, 168, 100, 100], next_hop = le32 [192, 168, 100, 101], mask = le32 [255, 255, 255, 255],
    rt_interface = 2\<rparr>"
  have "nat_text 192 = ''192''" "nat_text 168 = ''168''" "nat_text 100 = ''100''" "nat_text 101 = ''101''" "nat_text 255 = ''255''"
    "nat_text 2 = ''2''" by code_simp+
  then have t: "row_text ?r = ''192.168.100.100 192.168.100.101 255.255.255.255 2''" by (simp add: row_text_def dotted_def)
  from table_file_read_back [of "[?r]"] show ?thesis by (simp add: t RTABLE_CAP_def)
qed

end
