(* ===== verification/SkelProps.thy ===== *)
theory SkelProps
  imports Skel RouteTable PacketQueue
begin

text \<open>
  The properties of the parts the router of \<^verbatim>\<open>Tema_1\<close> is made of: the route lookup, the
  checksums, the packet queue, the header layouts and the text form of MAC addresses.
\<close>

section \<open>Route lookup\<close>

text \<open>
  C29: Over a routing table sorted by the program's comparison, whose entries all have the same
  mask, the binary search never leaves the table, returns only an entry that matches the
  destination, and returns none only where no entry of the table matches.
\<close>

theorem lookup_correct_uniform_mask:
  assumes "\<forall>r \<in> set t. mask r = m"
  shows "\<exists>x. lookup_route (qsort comparator t) d = Inr x \<and>
    (x = None \<longleftrightarrow> \<not> (\<exists>r \<in> set t. route_matches r d)) \<and>
    (\<forall>i. x = Some i \<longrightarrow> qsort comparator t ! i \<in> set t \<and> route_matches (qsort comparator t ! i) d)"
proof -
  let ?t = "qsort comparator t"
  obtain x where x: "lookup_route ?t d = Inr x" using lookup_route_safe by blast
  have sound: "i < length ?t \<and> route_matches (?t ! i) d" if "x = Some i" for i
    using lookup_route_sound x that by blast
  have "\<exists>i. x = Some i" if "r \<in> set t" "route_matches r d" for r
  proof -
    have "r \<in> set ?t" using that(1) by (simp add: rt.set_qsort)
    then obtain j where j: "j < length ?t" "?t ! j = r" by (auto simp: in_set_conv_nth)
    have "\<forall>r \<in> set ?t. mask r = m" using assms by (simp add: rt.set_qsort)
    from get_best_route_complete [OF this sorted_prefix_qsort, of 0 "int (length ?t) - 1" j d]
    show ?thesis using j that x by (auto simp: lookup_route_def)
  qed
  moreover have "\<exists>r \<in> set t. route_matches r d" if "x = Some i" for i
    using sound [OF that] by (metis nth_mem rt.set_qsort)
  moreover have "?t ! i \<in> set t" if "x = Some i" for i
    using sound [OF that] by (metis nth_mem rt.set_qsort)
  ultimately show ?thesis using x sound by (cases x) fastforce+
qed

definition lan16 :: route_table where
  "lan16 = \<lparr>prefix = 0x0000a8c0, next_hop = 1, mask = 0x0000ffff, rt_interface = 0\<rparr>"
definition lan24 :: "32 word \<Rightarrow> route_table" where
  "lan24 p = \<lparr>prefix = p, next_hop = 2, mask = 0x00ffffff, rt_interface = 1\<rparr>"

theorem lookup_correct_uniform_mask_witness:
  "\<exists>x. lookup_route (qsort comparator [lan24 0x0002a8c0, lan24 0x0001a8c0]) 0x0201a8c0 = Inr x \<and> x \<noteq> None"
  using lookup_correct_uniform_mask [of "[lan24 0x0002a8c0, lan24 0x0001a8c0]" "0x00ffffff" "0x0201a8c0"]
  by (auto simp: lan24_def route_matches_def)

text \<open>
  With masks of different lengths the lookup is not a longest-prefix match. For 192.168.1.2
  and the routes 192.168.0.0/16 and 192.168.1.0/24 it returns the /16, although the /24 is in
  the table and matches.
\<close>

theorem lookup_not_longest_prefix:
  "let t = qsort comparator [lan24 0x0001a8c0, lan16]; d = 0x0201a8c0 in
   lookup_route t d = Inr (Some 0) \<and> mask (t ! 0) = 0x0000ffff \<and>
   mask (t ! 1) = 0x00ffffff \<and> route_matches (t ! 1) d"
  by (simp add: qsort_def comparator_def lan16_def lan24_def lookup_route_def get_best_route.simps
      route_matches_def)

text \<open>
  With masks of different lengths the lookup also misses routes. For 192.168.7.7 and the
  routes 192.168.0.0/16, 192.168.1.0/24 and 192.168.2.0/24 it returns none, so the packet is
  answered as unreachable, although the /16 matches.
\<close>

theorem lookup_misses_route:
  "let t = qsort comparator [lan16, lan24 0x0001a8c0, lan24 0x0002a8c0]; d = 0x0707a8c0 in
   lookup_route t d = Inr None \<and> route_matches (t ! 0) d"
  by (simp add: qsort_def comparator_def lan16_def lan24_def lookup_route_def get_best_route.simps
      route_matches_def)

section \<open>Checksums\<close>



text \<open>
  A checksum computed at one alignment over data with a zeroed checksum field verifies,
  once stored in that field, at every other alignment; a header whose 16-bit words do not
  sum to a multiple of 65535 does not verify.
\<close>

theorem ip_checksum_verification:
  assumes "even (length xs)" "length xs + 2 + length ys \<le> 2147483648"
  shows "ip_checksum addr' (xs @ put16 (ip_checksum addr (xs @ [0, 0] @ ys)) @ ys) = 0 \<and>
    (\<forall>c. ip_checksum addr' (xs @ put16 c @ ys) = 0 \<longleftrightarrow> (sum16 (xs @ ys) + unat (ntohs c)) mod 65535 = 0)"
proof -
  have "sum16 (xs @ put16 c @ ys) = sum16 (xs @ ys) + unat (ntohs c)" for c
    using assms(1) by (simp add: sum16_append sum16_put16)
  moreover have "length (xs @ put16 c @ ys) \<le> 2147483648" for c
    using assms(2) by simp
  ultimately show ?thesis
    using ip_checksum_verifies [OF assms refl] ip_checksum_zero_iff by metis
qed

theorem ip_checksum_verification_witness:
  "ip_checksum 1 ([1, 2] @ put16 (ip_checksum 0 ([1, 2] @ [0, 0] @ [3])) @ [3]) = 0"
  using ip_checksum_verification [of "[1, 2]" "[3]" 1 0] by simp

text \<open>
  The ICMP message the sender builds carries a checksum with which the same function
  yields 0 at the receiver, and the function reads exactly the 8 bytes of the header.
\<close>

theorem icmp_checksum_written_verifies:
  assumes "ic_checksum h = 0"
  shows "\<exists>c. icmp_checksum (icmp_bytes h @ rest) ICMP_LEN = Inr c \<and>
    icmp_checksum (icmp_bytes (h\<lparr>ic_checksum := c\<rparr>) @ rest') ICMP_LEN = Inr 0"
proof -
  have same: "icmp_checksum (icmp_bytes k @ r) ICMP_LEN = icmp_checksum (icmp_bytes k) ICMP_LEN" for k r
    using icmp_checksum_spec [of "icmp_bytes k" r] icmp_checksum_spec [of "icmp_bytes k" "[]"]
    by (auto simp: length_icmp_bytes ICMP_LEN_def word_unat_eq_iff)
  obtain c where "icmp_checksum (icmp_bytes h) ICMP_LEN = Inr c" using icmp_checksum_header by blast
  with icmp_header_verifies [OF assms] show ?thesis by (simp add: same)
qed

theorem icmp_checksum_written_verifies_witness:
  "\<exists>c. icmp_checksum (icmp_bytes \<lparr>ic_type = 8, ic_code = 0, ic_checksum = c, ic_id = 7, ic_sequence = 1\<rparr>) 8 = Inr 0"
  using icmp_checksum_written_verifies [of "\<lparr>ic_type = 8, ic_code = 0, ic_checksum = 0, ic_id = 7, ic_sequence = 1\<rparr>" "[]" "[]"]
  by (auto simp: ICMP_LEN_def)

section \<open>The packet queue\<close>

text \<open>
  C24: From the created queue on, every sequence of enqueues and dequeues on the linked list
  behaves as on a list used first-in first-out, down to the assertion that fails on an empty
  queue; at the end the live cells are exactly those of the queue, so nothing leaks and no
  freed cell is reached.
\<close>

theorem queue_is_fifo:
  "case run_queue enq_list deq_list [] ops of
     Inl e \<Rightarrow> run_queue queue_enq queue_deq (queue_create, empty_heap) ops = Inl e
   | Inr (out, ys) \<Rightarrow> \<exists>s'. run_queue queue_enq queue_deq (queue_create, empty_heap) ops = Inr (out, s') \<and>
       queue_rep s' ys"
  by (rule lq.run_refines [OF queue_rep_create])

section \<open>Headers\<close>

text \<open>
  The Ethernet, IP, ICMP and ARP headers a frame is built from are the headers read back
  from it at the offsets the code uses.
\<close>

theorem headers_roundtrip:
  assumes "length (ether_dhost e) = 6" "length (ether_shost e) = 6"
    "length (ar_sha a) = 6" "length (ar_tha a) = 6"
  shows "ether_header_at (eth_bytes e @ rest) = e \<and>
    iphdr_at (eth_bytes e @ ip_bytes h @ rest) ETH_LEN = h \<and>
    icmphdr_at (eth_bytes e @ ip_bytes h @ icmp_bytes c @ rest) (IP_LEN + ETH_LEN) = c \<and>
    arp_header_at (eth_bytes e @ arp_bytes a @ rest) ETH_LEN = a"
proof -
  have l: "length (eth_bytes e) = ETH_LEN" "length (eth_bytes e @ ip_bytes h) = IP_LEN + ETH_LEN"
    using assms by (simp_all add: layout_simps header_lens)
  show ?thesis
    using ether_header_at_bytes [OF assms(1,2), of rest] iphdr_at_bytes [of "eth_bytes e" h rest]
      icmphdr_at_bytes [of "eth_bytes e @ ip_bytes h" c rest]
      arp_header_at_bytes [OF assms(3,4), of "eth_bytes e" rest]
    unfolding l by simp
qed

theorem headers_roundtrip_witness:
  "let e = build_ethhdr (replicate 6 1) (replicate 6 2) 8 in ether_header_at (eth_bytes e @ [0]) = e"
  using headers_roundtrip [of "build_ethhdr (replicate 6 1) (replicate 6 2) 8"
      "\<lparr>ar_htype = 1, ar_ptype = 8, ar_hlen = 6, ar_plen = 4, ar_op = 1, ar_sha = replicate 6 0, ar_spa = 0,
        ar_tha = replicate 6 0, ar_tpa = 0\<rparr>" "[0]"]
  by (simp add: build_ethhdr_def Let_def)

text \<open>
  \<open>hwaddr_aton\<close> reads back the six bytes of a MAC address from its colon-delimited text,
  whatever follows it.
\<close>

theorem hwaddr_aton_reads_back:
  assumes "length bs = 6"
  shows "hwaddr_aton (mac_text bs @ rest) = (0, bs)"
  using hwaddr_loop_mac_text [of bs 5 rest] assms by (simp add: hwaddr_aton_def numeral_eq_Suc)

theorem hwaddr_aton_reads_back_witness:
  "hwaddr_aton (mac_text [1, 0xab, 3, 4, 5, 0xff] @ ''!'') = (0, [1, 0xab, 3, 4, 5, 0xff])"
  by (rule hwaddr_aton_reads_back) simp

end
