(* ===== verification/SkelSockets.thy ===== *)
theory SkelSockets
  imports Router RouteFileProps
begin

text \<open>
  The sockets of \<^verbatim>\<open>Tema_1/skel.c\<close>: \<open>get_sock\<close> and \<open>init\<close>, the queries for the addresses of an interface, what
  \<open>select\<close> watches in \<open>get_packet\<close>, and the start of \<^verbatim>\<open>router.c\<close>. The kernel's answers are the record \<open>net_sys\<close>.
\<close>

section \<open>Opening the interfaces\<close>

text \<open>
  \<open>socket\<close> when the named interface is set up, the index of an interface, \<open>bind\<close> of a socket to an index, and what a
  request holds after the queries for the addresses of a name on a socket, answered or not.
\<close>

record net_sys =
  packet_socket :: "string \<Rightarrow> int"
  if_index :: "string \<Rightarrow> int option"
  bind_packet :: "int \<Rightarrow> int \<Rightarrow> int"
  if_addr :: "int \<Rightarrow> string \<Rightarrow> 32 word"
  if_hwaddr :: "int \<Rightarrow> string \<Rightarrow> bytes"

definition IFNAMSIZ :: nat where "IFNAMSIZ = 16"

definition get_sock :: "net_sys \<Rightarrow> string \<Rightarrow> int program" where
  "get_sock k if_name =
     die (packet_socket k if_name = -1)
       (if length if_name \<ge> IFNAMSIZ then Crashed OutOfBounds
        else case if_index k if_name of None \<Rightarrow> Exited 1
          | Some ix \<Rightarrow> die (bind_packet k (packet_socket k if_name) ix = -1) (Going (packet_socket k if_name)))"

fun init_interfaces :: "net_sys \<Rightarrow> nat \<Rightarrow> string list \<Rightarrow> int list \<Rightarrow> int list program" where
  "init_interfaces k i [] interfaces = Going interfaces"
| "init_interfaces k i (arg # argv) interfaces =
     (case get_sock k arg of
        Going s \<Rightarrow> if i < length interfaces then init_interfaces k (Suc i) argv (interfaces[i := s]) else Crashed OutOfBounds
      | Leaving \<Rightarrow> Leaving
      | Exited n \<Rightarrow> Exited n
      | Crashed e \<Rightarrow> Crashed e)"

text \<open>The array is a global variable.\<close>

definition init_all :: "net_sys \<Rightarrow> string list \<Rightarrow> int list program" where
  "init_all k argv = init_interfaces k 0 argv (replicate ROUTER_NUM_INTERFACES 0)"

section \<open>Addresses\<close>

definition interface_name :: "int \<Rightarrow> string" where
  "interface_name i = (if i = 0 then ''rr-0-1'' else ''r-'' @ nat_text (nat ((i - 1) mod 2 ^ 32)))"

definition get_interface_ip :: "net_sys \<Rightarrow> int list \<Rightarrow> int \<Rightarrow> string c_result" where
  "get_interface_ip k interfaces i =
     (if 0 \<le> i \<and> nat i < length interfaces then Inr (dotted (if_addr k (interfaces ! nat i) (interface_name i)))
      else Inl OutOfBounds)"

definition get_interface_mac :: "net_sys \<Rightarrow> int list \<Rightarrow> int \<Rightarrow> bytes c_result" where
  "get_interface_mac k interfaces i =
     (if 0 \<le> i \<and> nat i < length interfaces then Inr (take 6 (if_hwaddr k (interfaces ! nat i) (interface_name i)))
      else Inl OutOfBounds)"

text \<open>The addresses as the forwarding loop asks for them, which it does for existing interfaces.\<close>

definition env_of :: "net_sys \<Rightarrow> int list \<Rightarrow> 32 word \<Rightarrow> (packet \<Rightarrow> packet) \<Rightarrow> env" where
  "env_of k interfaces process dead =
     \<lparr>if_ip = (\<lambda>i. case get_interface_ip k interfaces (int i) of Inl e \<Rightarrow> 0 | Inr s \<Rightarrow> inet_addr s),
      if_mac = (\<lambda>i. case get_interface_mac k interfaces (int i) of Inl e \<Rightarrow> replicate 6 0 | Inr mac \<Rightarrow> mac),
      pid = process, stale = dead\<rparr>"

section \<open>Waiting\<close>

text \<open>\<open>select\<close> is called with the descriptor of the last interface plus one; \<open>waiting\<close> gives the frame on a descriptor.\<close>

definition select_ready :: "(int \<Rightarrow> bytes option) \<Rightarrow> int list \<Rightarrow> bytes option list" where
  "select_ready waiting interfaces =
     map (\<lambda>s. if s < interfaces ! (ROUTER_NUM_INTERFACES - 1) + 1 then waiting s else None) interfaces"

section \<open>The start of the router\<close>

text \<open>The arguments are the file of the table and the interfaces.\<close>

definition router_start :: "net_sys \<Rightarrow> row_fields \<Rightarrow> (string \<Rightarrow> string option) \<Rightarrow> packet \<Rightarrow> packet \<Rightarrow> string list \<Rightarrow>
    (int list \<times> router) program" where
  "router_start k f0 files p m argv =
     (case init_all k (drop 2 argv) of
        Going interfaces \<Rightarrow>
          (case argv of
             _ # path # _ \<Rightarrow>
               (case parsing_rtable f0 (files path) of
                  Inl e \<Rightarrow> Crashed e | Inr routes \<Rightarrow> Going (interfaces, router_init routes p m))
           | _ \<Rightarrow> Crashed NullDeref)
      | Leaving \<Rightarrow> Leaving
      | Exited n \<Rightarrow> Exited n
      | Crashed e \<Rightarrow> Crashed e)"

section \<open>Facts\<close>

definition opens :: "net_sys \<Rightarrow> string \<Rightarrow> bool" where
  "opens k name \<longleftrightarrow> length name < IFNAMSIZ \<and> packet_socket k name \<noteq> -1 \<and>
     (case if_index k name of None \<Rightarrow> False | Some ix \<Rightarrow> bind_packet k (packet_socket k name) ix \<noteq> -1)"

lemma get_sock_opens: "opens k name \<Longrightarrow> get_sock k name = Going (packet_socket k name)"
  by (auto simp: opens_def get_sock_def die_def split: option.splits)

lemma init_interfaces_opens:
  assumes "\<forall>name \<in> set names. opens k name"
  shows "init_interfaces k (length opened) names (opened @ rest) =
    (if length names \<le> length rest then Going (opened @ map (packet_socket k) names @ drop (length names) rest) else Crashed OutOfBounds)"
  using assms
proof (induction names arbitrary: opened rest)
  case (Cons name names)
  show ?case
  proof (cases rest)
    case Nil
    with Cons.prems show ?thesis by (simp add: get_sock_opens)
  next
    case (Cons x rest')
    with Cons.IH [of "opened @ [packet_socket k name]" rest'] Cons.prems show ?thesis
      by (simp add: get_sock_opens)
  qed
qed simp

lemma init_all_opens:
  assumes "\<forall>name \<in> set names. opens k name"
  shows "init_all k names = (if length names \<le> ROUTER_NUM_INTERFACES
    then Going (map (packet_socket k) names @ replicate (ROUTER_NUM_INTERFACES - length names) 0) else Crashed OutOfBounds)"
  using init_interfaces_opens [OF assms, of "[]"] by (simp add: init_all_def)

end
