(* ===== verification/SkelSocketProps.thy ===== *)
theory SkelSocketProps
  imports SkelSockets
begin

text \<open>
  What the set-up of the router gives the forwarding loop, and where it fails: the array of the interfaces has three
  elements and is taken to be full.
\<close>

section \<open>Interfaces\<close>

text \<open>
  C40: With interfaces that can be opened, the sockets are stored in the order of the arguments. A fourth interface is
  written past the array. With fewer than three the last element stays 0, so that \<open>select\<close> watches standard
  input only: no frame of any interface is ever received.
\<close>

theorem interfaces_set_up:
  assumes "\<forall>name \<in> set names. opens k name \<and> 0 < packet_socket k name"
  shows "(ROUTER_NUM_INTERFACES < length names \<longrightarrow> init_all k names = Crashed OutOfBounds) \<and>
    (length names = ROUTER_NUM_INTERFACES \<longrightarrow> init_all k names = Going (map (packet_socket k) names)) \<and>
    (length names < ROUTER_NUM_INTERFACES \<longrightarrow>
      (\<exists>interfaces. init_all k names = Going interfaces \<and>
        (\<forall>waiting m. waiting 0 = None \<longrightarrow> get_packet (select_ready waiting interfaces) m = None)))"
proof -
  have i: "init_all k names = (if length names \<le> ROUTER_NUM_INTERFACES
      then Going (map (packet_socket k) names @ replicate (ROUTER_NUM_INTERFACES - length names) 0) else Crashed OutOfBounds)"
    using assms by (intro init_all_opens) blast
  have "get_packet (select_ready waiting (map (packet_socket k) names @ replicate (ROUTER_NUM_INTERFACES - length names) 0)) m = None"
    if "waiting 0 = None" "length names < ROUTER_NUM_INTERFACES" for waiting m
  proof -
    have none: "get_packet_from j (replicate n None) m = None" for j n by (induction n arbitrary: j) simp_all
    have "(map (packet_socket k) names @ replicate (ROUTER_NUM_INTERFACES - length names) 0) ! (ROUTER_NUM_INTERFACES - 1) = 0"
      using that(2) by (simp add: nth_append ROUTER_NUM_INTERFACES_def)
    moreover have "map (\<lambda>s. if s < 1 then waiting s else None) (map (packet_socket k) names) = replicate (length names) None"
      using assms by (intro replicate_eqI) auto
    ultimately show ?thesis
      using that by (simp add: select_ready_def get_packet_def none replicate_add [symmetric])
  qed
  with i show ?thesis by auto
qed

definition demo_net :: net_sys where
  "demo_net = \<lparr>packet_socket = (\<lambda>name. if name = ''rr-0-1'' then 3 else if name = ''r-0'' then 4 else 5), if_index = (\<lambda>name. Some 7),
     bind_packet = (\<lambda>s ix. 0), if_addr = (\<lambda>s name. 0x0100a8c0), if_hwaddr = (\<lambda>s name. replicate 14 2)\<rparr>"

lemma demo_net_opens: "opens demo_net ''rr-0-1''" "opens demo_net ''r-0''" "opens demo_net ''r-1''"
  by (simp_all add: demo_net_def opens_def IFNAMSIZ_def)

theorem interfaces_set_up_witness:
  "init_all demo_net [''rr-0-1'', ''r-0'', ''r-1'', ''r-0''] = Crashed OutOfBounds"
  using interfaces_set_up [of "[''rr-0-1'', ''r-0'', ''r-1'', ''r-0'']" demo_net] demo_net_opens
  by (simp add: ROUTER_NUM_INTERFACES_def demo_net_def)

section \<open>The start\<close>

abbreviation interface_names :: "string list" where "interface_names \<equiv> [''rr-0-1'', ''r-0'', ''r-1'']"

lemma interface_name_simps [simp]: "interface_name 0 = ''rr-0-1''" "interface_name 1 = ''r-0''" "interface_name 2 = ''r-1''"
  by code_simp+

lemma interface_names: "i < 3 \<Longrightarrow> interface_name (int i) = interface_names ! i"
proof -
  assume "i < 3"
  then consider "i = 0" | "i = 1" | "i = 2" by linarith
  then show ?thesis by cases (simp_all del: One_nat_def)
qed

lemma env_of_interface:
  assumes "i < length interfaces"
  shows "if_ip (env_of k interfaces process dead) i = if_addr k (interfaces ! i) (interface_name (int i))"
    and "if_mac (env_of k interfaces process dead) i = take 6 (if_hwaddr k (interfaces ! i) (interface_name (int i)))"
  using assms by (simp_all add: env_of_def get_interface_ip_def get_interface_mac_def inet_addr_dotted)

lemma env_of_ok: "(\<And>s name. length (if_hwaddr k s name) = 14) \<Longrightarrow> env_ok (env_of k interfaces process dead)"
  by (auto simp: env_ok_def env_of_def get_interface_mac_def)



end
