(* ===== verification/Utf8.thy ===== *)
theory Utf8
  imports CString
begin

text \<open>
  The character level of \<^verbatim>\<open>Tema_3/parson.c\<close>: hexadecimal digits, UTF-16 escapes and the check
  of UTF-8. Code points are unsigned integers below \<open>2 ^ 21\<close>, so \<open>nat\<close> with its bitwise
  operations serves for \<open>unsigned int\<close>. The specification is the UTF-8 encoding of the
  Unicode scalar values.
\<close>

unbundle bit_operations_syntax

section \<open>The code\<close>

definition hex_char_to_int :: "char \<Rightarrow> int" where
  "hex_char_to_int c =
     (if uchar c \<ge> 48 \<and> uchar c \<le> 57 then int (uchar c) - 48
      else if uchar c \<ge> 97 \<and> uchar c \<le> 102 then int (uchar c) - 97 + 10
      else if uchar c \<ge> 65 \<and> uchar c \<le> 70 then int (uchar c) - 65 + 10
      else -1)"

definition parse_utf16_hex :: "string \<Rightarrow> nat option" where
  "parse_utf16_hex s =
     (if char_at s 0 = NUL \<or> char_at s 1 = NUL \<or> char_at s 2 = NUL \<or> char_at s 3 = NUL then None
      else let x1 = hex_char_to_int (char_at s 0); x2 = hex_char_to_int (char_at s 1);
               x3 = hex_char_to_int (char_at s 2); x4 = hex_char_to_int (char_at s 3)
        in if x1 = -1 \<or> x2 = -1 \<or> x3 = -1 \<or> x4 = -1 then None
           else Some (push_bit 12 (nat x1) OR push_bit 8 (nat x2) OR push_bit 4 (nat x3) OR nat x4))"

definition is_cont :: "char \<Rightarrow> bool" where
  "is_cont b \<longleftrightarrow> uchar b AND 0xC0 = 0x80"

definition num_bytes_in_utf8_sequence :: "char \<Rightarrow> nat" where
  "num_bytes_in_utf8_sequence c =
     (if uchar c = 0xC0 \<or> uchar c = 0xC1 \<or> uchar c > 0xF4 \<or> is_cont c then 0
      else if uchar c AND 0x80 = 0 then 1
      else if uchar c AND 0xE0 = 0xC0 then 2
      else if uchar c AND 0xF0 = 0xE0 then 3
      else if uchar c AND 0xF8 = 0xF0 then 4
      else 0)"

definition add_cont :: "nat \<Rightarrow> char \<Rightarrow> nat" where
  "add_cont cp b = push_bit 6 cp OR (uchar b AND 0x3F)"

text \<open>The code point of the sequence at the front of \<open>s\<close>, its length read off the first byte.\<close>

definition utf8_code_point :: "nat \<Rightarrow> string \<Rightarrow> nat option" where
  "utf8_code_point len s =
     (if len = 1 then Some (uchar (char_at s 0))
      else if len = 2 \<and> is_cont (char_at s 1)
      then Some (add_cont (uchar (char_at s 0) AND 0x1F) (char_at s 1))
      else if len = 3 \<and> is_cont (char_at s 1) \<and> is_cont (char_at s 2)
      then Some (add_cont (add_cont (uchar (char_at s 0) AND 0xF) (char_at s 1)) (char_at s 2))
      else if len = 4 \<and> is_cont (char_at s 1) \<and> is_cont (char_at s 2) \<and> is_cont (char_at s 3)
      then Some (add_cont (add_cont (add_cont (uchar (char_at s 0) AND 0x7) (char_at s 1))
             (char_at s 2)) (char_at s 3))
      else None)"

text \<open>The length of the sequence, where it is one (\<open>*len\<close> and the result 1), or none.\<close>

definition verify_utf8_sequence :: "string \<Rightarrow> nat option" where
  "verify_utf8_sequence s =
     (let len = num_bytes_in_utf8_sequence (char_at s 0)
      in case utf8_code_point len s of
           None \<Rightarrow> None
         | Some cp \<Rightarrow>
             if cp < 0x80 \<and> len > 1 \<or> cp < 0x800 \<and> len > 2 \<or> cp < 0x10000 \<and> len > 3 then None
             else if cp > 0x10FFFF then None
             else if cp \<ge> 0xD800 \<and> cp \<le> 0xDFFF then None
             else Some len)"

lemma verify_utf8_positive: "verify_utf8_sequence s = Some n \<Longrightarrow> 0 < n"
  by (auto simp: verify_utf8_sequence_def utf8_code_point_def Let_def split: if_splits option.splits)

text \<open>
  The memory read is \<open>s\<close>, of which \<open>n\<close> characters are to be checked; a sequence that starts
  within them may end past them.
\<close>

function is_valid_utf8 :: "string \<Rightarrow> nat \<Rightarrow> bool" where
  "is_valid_utf8 s n =
     (if n = 0 then True
      else case verify_utf8_sequence s of None \<Rightarrow> False
        | Some len \<Rightarrow> is_valid_utf8 (drop len s) (n - len))"
  by pat_completeness auto
termination
  by (relation "measure snd") (auto dest: verify_utf8_positive)

declare is_valid_utf8.simps [simp del]

text \<open>
  A \<open>\u\<close> escape: \<open>s\<close> stands at the \<open>u\<close>. The result is what is written to the output and
  the input at the last character of the escape, as the code leaves its two pointers. The
  second half of a surrogate pair is a definition of its own: \<open>s\<close> stands after the digits of
  the lead surrogate.
\<close>

definition parse_trail :: "nat \<Rightarrow> string \<Rightarrow> (string \<times> string) option" where
  "parse_trail lead s =
     (if char_at s 0 \<noteq> BACKSLASH \<or> char_at s 1 \<noteq> CHR ''u'' then None
      else let s = drop 2 s in
        case parse_utf16_hex s of None \<Rightarrow> None
        | Some trail \<Rightarrow>
            if trail < 0xDC00 \<or> trail > 0xDFFF then None
            else let cp = (push_bit 10 ((lead - 0xD800) AND 0x3FF) OR ((trail - 0xDC00) AND 0x3FF)) + 0x10000
              in Some ([char_of ((drop_bit 18 cp AND 0x07) OR 0xF0),
                        char_of ((drop_bit 12 cp AND 0x3F) OR 0x80),
                        char_of ((drop_bit 6 cp AND 0x3F) OR 0x80),
                        char_of ((cp AND 0x3F) OR 0x80)], drop 3 s))"

definition parse_utf16 :: "string \<Rightarrow> (string \<times> string) option" where
  "parse_utf16 s =
     (let s = drop 1 s in
      case parse_utf16_hex s of None \<Rightarrow> None
      | Some cp \<Rightarrow>
          if cp < 0x80 then Some ([char_of cp], drop 3 s)
          else if cp < 0x800
          then Some ([char_of ((drop_bit 6 cp AND 0x1F) OR 0xC0), char_of ((cp AND 0x3F) OR 0x80)], drop 3 s)
          else if cp < 0xD800 \<or> cp > 0xDFFF
          then Some ([char_of ((drop_bit 12 cp AND 0x0F) OR 0xE0),
                      char_of ((drop_bit 6 cp AND 0x3F) OR 0x80),
                      char_of ((cp AND 0x3F) OR 0x80)], drop 3 s)
          else if cp \<ge> 0xD800 \<and> cp \<le> 0xDBFF then parse_trail cp (drop 4 s)
          else None)"

section \<open>The UTF-8 encoding\<close>

definition scalar_value :: "nat \<Rightarrow> bool" where
  "scalar_value cp \<longleftrightarrow> cp \<le> 0x10FFFF \<and> \<not> (0xD800 \<le> cp \<and> cp \<le> 0xDFFF)"

definition utf8_bytes :: "nat \<Rightarrow> nat list" where
  "utf8_bytes cp =
     (if cp < 0x80 then [cp]
      else if cp < 0x800 then [0xC0 + cp div 64, 0x80 + cp mod 64]
      else if cp < 0x10000 then [0xE0 + cp div 4096, 0x80 + cp div 64 mod 64, 0x80 + cp mod 64]
      else [0xF0 + cp div 262144, 0x80 + cp div 4096 mod 64, 0x80 + cp div 64 mod 64, 0x80 + cp mod 64])"

definition utf8_encode :: "nat \<Rightarrow> string" where
  "utf8_encode cp = map char_of (utf8_bytes cp)"

section \<open>Bit masks as arithmetic\<close>

lemma and_high_mask: "(n::nat) AND push_bit k (mask j) = push_bit k (n div 2 ^ k mod 2 ^ j)"
  by (rule bit_eqI)
    (auto simp: bit_simps simp flip: drop_bit_eq_div take_bit_eq_mod)

lemma or_low: "b < 2 ^ k \<Longrightarrow> push_bit k a OR b = a * 2 ^ k + (b::nat)"
proof -
  assume b: "b < 2 ^ k"
  have "push_bit k a OR b = push_bit k a + b"
  proof (rule disjunctive_add [symmetric])
    fix n
    have "b = take_bit k b" using b by (simp add: take_bit_nat_eq_self)
    then show "\<not> bit (push_bit k a) n \<or> \<not> bit b n"
      by (metis bit_push_bit_iff bit_take_bit_iff linorder_not_less)
  qed
  then show ?thesis by (simp add: push_bit_eq_mult)
qed

lemma push_mask_values:
  "push_bit 0 (mask 6) = (0x3F :: nat)" "push_bit 0 (mask 5) = (0x1F :: nat)"
  "push_bit 0 (mask 4) = (0xF :: nat)" "push_bit 0 (mask 3) = (0x7 :: nat)"
  "push_bit 0 (mask 10) = (0x3FF :: nat)"
  "push_bit 6 (mask 2) = (0xC0 :: nat)" "push_bit 7 (mask 1) = (0x80 :: nat)"
  "push_bit 5 (mask 3) = (0xE0 :: nat)" "push_bit 4 (mask 4) = (0xF0 :: nat)"
  "push_bit 3 (mask 5) = (0xF8 :: nat)"
  by (simp_all add: mask_nat_def push_bit_eq_mult)

lemma and_masks:
  "(n::nat) AND 0x3F = n mod 64" "n AND 0x1F = n mod 32" "n AND 0xF = n mod 16" "n AND 0x7 = n mod 8"
  "n AND 0x3FF = n mod 1024"
  unfolding push_mask_values(1-5) [symmetric] and_high_mask by simp_all

lemma and_top:
  "(n::nat) AND 0xC0 = n div 64 mod 4 * 64" "n AND 0x80 = n div 128 mod 2 * 128"
  "n AND 0xE0 = n div 32 mod 8 * 32" "n AND 0xF0 = n div 16 mod 16 * 16"
  "n AND 0xF8 = n div 8 mod 32 * 8"
  unfolding push_mask_values(6-10) [symmetric] and_high_mask by (simp_all add: push_bit_eq_mult)

lemma div_eq_range: "0 < d \<Longrightarrow> n div d = k \<longleftrightarrow> k * d \<le> n \<and> n < Suc k * (d::nat)"
  by (metis less_eq_div_iff_mult_less_eq div_less_iff_less_mult less_Suc_eq_le order_antisym order_refl)

lemma byte_masks:
  fixes n :: nat
  assumes "n < 256"
  shows "n AND 0xC0 = 0x80 \<longleftrightarrow> 128 \<le> n \<and> n < 192" "n AND 0x80 = 0 \<longleftrightarrow> n < 128"
    "n AND 0xE0 = 0xC0 \<longleftrightarrow> 192 \<le> n \<and> n < 224" "n AND 0xF0 = 0xE0 \<longleftrightarrow> 224 \<le> n \<and> n < 240"
    "n AND 0xF8 = 0xF0 \<longleftrightarrow> 240 \<le> n \<and> n < 248"
proof -
  have m: "n div 64 mod 4 = n div 64" "n div 128 mod 2 = n div 128" "n div 32 mod 8 = n div 32"
    "n div 16 mod 16 = n div 16" "n div 8 mod 32 = n div 8"
    using assms by simp_all
  have k: "k * d = e \<longleftrightarrow> k = e div d" if "d dvd e" "0 < d" for k d e :: nat
    using that by auto
  show "n AND 0xC0 = 0x80 \<longleftrightarrow> 128 \<le> n \<and> n < 192" "n AND 0x80 = 0 \<longleftrightarrow> n < 128"
    "n AND 0xE0 = 0xC0 \<longleftrightarrow> 192 \<le> n \<and> n < 224" "n AND 0xF0 = 0xE0 \<longleftrightarrow> 224 \<le> n \<and> n < 240"
    "n AND 0xF8 = 0xF0 \<longleftrightarrow> 240 \<le> n \<and> n < 248"
    unfolding and_top m by (simp_all add: k div_eq_range del: div_eq_0_iff)
qed

lemma is_cont_iff: "is_cont b \<longleftrightarrow> 128 \<le> uchar b \<and> uchar b < 192"
  unfolding is_cont_def by (rule byte_masks(1) [OF uchar_less])

lemma add_cont_eq: "add_cont cp b = cp * 64 + uchar b mod 64"
  unfolding add_cont_def and_masks by (subst or_low) simp_all

lemma num_bytes_iff:
  "num_bytes_in_utf8_sequence c =
     (if uchar c < 128 then 1 else if uchar c < 194 then 0 else if uchar c < 224 then 2
      else if uchar c < 240 then 3 else if uchar c < 245 then 4 else 0)"
  unfolding num_bytes_in_utf8_sequence_def is_cont_iff
  by (simp only: byte_masks [OF uchar_less]) (auto split: if_split)


section \<open>What the check accepts\<close>

lemma utf8_bytes_less: "scalar_value cp \<Longrightarrow> b \<in> set (utf8_bytes cp) \<Longrightarrow> b < 256"
  by (auto simp: utf8_bytes_def scalar_value_def less_mult_imp_div_less split: if_splits)

lemma uchars_encode: "scalar_value cp \<Longrightarrow> map uchar (utf8_encode cp) = utf8_bytes cp"
  unfolding utf8_encode_def map_map
  by (rule map_idI) (simp add: uchar_char_of utf8_bytes_less)

lemma encode_eq_iff: "scalar_value cp \<Longrightarrow> s = utf8_encode cp \<longleftrightarrow> map uchar s = utf8_bytes cp"
  by (metis uchars_encode inj_map_eq_map inj_onI char_eq_uchar)

text \<open>Each length of sequence decodes to the code point it encodes.\<close>

lemma mod_range: "0 < m \<Longrightarrow> q * m \<le> a \<Longrightarrow> a < Suc q * m \<Longrightarrow> a mod m = a - q * (m::nat)"
  using div_eq_range [of m a q] by (simp add: modulo_nat_def)

lemma digit64: "y < 64 \<Longrightarrow> (p * 64 + y) div 64 = (p::nat)" "y < 64 \<Longrightarrow> (p * 64 + y) mod 64 = (y::nat)"
  by simp_all

lemma div_4096: "n div 4096 = n div 64 div (64::nat)" "n div 262144 = n div 64 div 64 div (64::nat)"
  by (simp_all add: div_mult2_eq [symmetric])

lemma low_bits:
  "192 \<le> a \<Longrightarrow> a < 224 \<Longrightarrow> a mod 32 = a - (192::nat)" "224 \<le> a \<Longrightarrow> a < 240 \<Longrightarrow> a mod 16 = a - (224::nat)"
  "240 \<le> a \<Longrightarrow> a < 248 \<Longrightarrow> a mod 8 = a - (240::nat)" "128 \<le> b \<Longrightarrow> b < 192 \<Longrightarrow> b mod 64 = b - (128::nat)"
  using mod_range [of 32 6 a] mod_range [of 16 14 a] mod_range [of 8 30 a] mod_range [of 64 2 b] by simp_all

lemma utf8_two:
  assumes "194 \<le> a" "a < 224" "128 \<le> b" "b < 192" "n = a mod 32 * 64 + b mod 64"
  shows "utf8_bytes n = [a, b] \<and> 0x80 \<le> n \<and> n < 0x800"
proof -
  have m: "a mod 32 = a - 192" "b mod 64 = b - 128" using assms(1-4) by (simp_all add: low_bits)
  have r: "2 \<le> a - 192" "a - 192 < 32" "b - 128 < 64" using assms(1-4) by linarith+
  have "n div 64 = a - 192" "n mod 64 = b - 128"
    unfolding assms(5) m by (rule digit64 [OF r(3)])+
  moreover have "0x80 \<le> n \<and> n < 0x800" using r unfolding assms(5) m by linarith
  ultimately show ?thesis using assms(1-4) by (simp add: utf8_bytes_def)
qed

lemma utf8_three:
  assumes "224 \<le> a" "a < 240" "128 \<le> b" "b < 192" "128 \<le> c" "c < 192"
    "n = (a mod 16 * 64 + b mod 64) * 64 + c mod 64" "0x800 \<le> n"
  shows "utf8_bytes n = [a, b, c] \<and> n < 0x10000"
proof -
  define p where "p = a mod 16 * 64 + b mod 64"
  have m: "a mod 16 = a - 224" "b mod 64 = b - 128" "c mod 64 = c - 128"
    using assms(1-6) by (simp_all add: low_bits)
  have r: "a - 224 < 16" "b - 128 < 64" "c - 128 < 64" using assms(1-6) by linarith+
  have "n div 64 = p" "n mod 64 = c - 128"
    unfolding assms(7) p_def [symmetric] m(3) by (rule digit64 [OF r(3)])+
  moreover have "p div 64 = a - 224" "p mod 64 = b - 128"
    unfolding p_def m by (rule digit64 [OF r(2)])+
  moreover have "(x * 64 + y) * 64 + z < 0x10000" if "x \<le> 15" "y \<le> 63" "z \<le> 63" for x y z :: nat
    unfolding distrib_right using that by linarith
  from this [of "a - 224" "b - 128" "c - 128"] r have "n < 0x10000" unfolding assms(7) m by linarith
  ultimately show ?thesis
    unfolding utf8_bytes_def div_4096 using assms(1-6,8) by simp
qed

lemma utf8_four:
  assumes "240 \<le> a" "a < 245" "128 \<le> b" "b < 192" "128 \<le> c" "c < 192" "128 \<le> d" "d < 192"
    "n = ((a mod 8 * 64 + b mod 64) * 64 + c mod 64) * 64 + d mod 64" "0x10000 \<le> n"
  shows "utf8_bytes n = [a, b, c, d]"
proof -
  define p where "p = a mod 8 * 64 + b mod 64"
  define q where "q = p * 64 + c mod 64"
  have m: "a mod 8 = a - 240" "b mod 64 = b - 128" "c mod 64 = c - 128" "d mod 64 = d - 128"
    using assms(1-8) by (simp_all add: low_bits)
  have r: "b - 128 < 64" "c - 128 < 64" "d - 128 < 64" using assms(1-8) by linarith+
  have "n div 64 = q" "n mod 64 = d - 128"
    unfolding assms(9) p_def [symmetric] q_def [symmetric] m(4) by (rule digit64 [OF r(3)])+
  moreover have "q div 64 = p" "q mod 64 = c - 128"
    unfolding q_def m(3) by (rule digit64 [OF r(2)])+
  moreover have "p div 64 = a - 240" "p mod 64 = b - 128"
    unfolding p_def m(1,2) by (rule digit64 [OF r(1)])+
  ultimately show ?thesis
    unfolding utf8_bytes_def div_4096 using assms(1-8,10) by simp
qed

lemma is_cont_NUL: "is_cont c \<Longrightarrow> c \<noteq> NUL"
  by (auto simp: is_cont_iff)

lemma verify_utf8_eq_Some:
  "verify_utf8_sequence s = Some k \<longleftrightarrow> k = num_bytes_in_utf8_sequence (char_at s 0) \<and>
     (\<exists>cp. utf8_code_point k s = Some cp \<and> scalar_value cp \<and>
       (1 < k \<longrightarrow> 0x80 \<le> cp) \<and> (2 < k \<longrightarrow> 0x800 \<le> cp) \<and> (3 < k \<longrightarrow> 0x10000 \<le> cp))"
proof -
  have "(if cp < 0x80 \<and> k > 1 \<or> cp < 0x800 \<and> k > 2 \<or> cp < 0x10000 \<and> k > 3 then None
      else if cp > 0x10FFFF then None else if cp \<ge> 0xD800 \<and> cp \<le> 0xDFFF then None else Some k) =
      (if scalar_value cp \<and> (1 < k \<longrightarrow> 0x80 \<le> cp) \<and> (2 < k \<longrightarrow> 0x800 \<le> cp) \<and> (3 < k \<longrightarrow> 0x10000 \<le> cp)
       then Some k else None)" for cp k :: nat
    by (auto simp: scalar_value_def)
  then show ?thesis
    unfolding verify_utf8_sequence_def Let_def by (auto split: option.split)
qed

lemma utf8_code_point_bytes:
  assumes "utf8_code_point k s = Some cp" "k = num_bytes_in_utf8_sequence (char_at s 0)"
    "1 < k \<longrightarrow> 0x80 \<le> cp" "2 < k \<longrightarrow> 0x800 \<le> cp" "3 < k \<longrightarrow> 0x10000 \<le> cp" "s \<noteq> []"
  shows "map uchar (take k s) = utf8_bytes cp \<and> k \<le> length s"
proof -
  obtain a s1 where s: "s = a # s1" using assms(6) by (cases s) auto
  have k: "k = (if uchar a < 128 then 1 else if uchar a < 194 then 0 else if uchar a < 224 then 2
      else if uchar a < 240 then 3 else if uchar a < 245 then 4 else 0)"
    using assms(2) by (simp add: s num_bytes_iff)
  consider "k = 0" | "k = 1" "uchar a < 128" | "k = 2" "194 \<le> uchar a" "uchar a < 224"
    | "k = 3" "224 \<le> uchar a" "uchar a < 240" | "k = 4" "240 \<le> uchar a" "uchar a < 245"
    using k by (auto split: if_splits)
  then show ?thesis
  proof cases
    case 1
    with assms(1) show ?thesis by (simp add: utf8_code_point_def)
  next
    case 2
    with assms(1) show ?thesis by (auto simp: s utf8_code_point_def utf8_bytes_def)
  next
    case 3
    then have c: "is_cont (char_at s1 0)" using assms(1) by (simp add: s utf8_code_point_def split: if_splits)
    then obtain b s2 where s1: "s1 = b # s2" using is_cont_NUL by (cases s1) auto
    have "cp = uchar a mod 32 * 64 + uchar b mod 64"
      using 3 assms(1) c by (simp add: s s1 utf8_code_point_def add_cont_eq and_masks)
    with utf8_two [OF 3(2,3) _ _ this] c 3(1) show ?thesis by (simp add: s s1 is_cont_iff)
  next
    case 4
    then have c: "is_cont (char_at s1 0)" "is_cont (char_at s1 1)"
      using assms(1) by (simp_all add: s utf8_code_point_def split: if_splits)
    obtain b s2 where s1: "s1 = b # s2" using is_cont_NUL [OF c(1)] by (cases s1) auto
    obtain d s3 where s2: "s2 = d # s3" using is_cont_NUL [OF c(2)] by (cases s2) (auto simp: s1)
    have "cp = (uchar a mod 16 * 64 + uchar b mod 64) * 64 + uchar d mod 64"
      using 4 assms(1) c by (simp add: s s1 s2 utf8_code_point_def add_cont_eq and_masks)
    with utf8_three [OF 4(2,3) _ _ _ _ this] c 4(1) assms(4) show ?thesis
      by (simp add: s s1 s2 is_cont_iff)
  next
    case 5
    then have c: "is_cont (char_at s1 0)" "is_cont (char_at s1 1)" "is_cont (char_at s1 2)"
      using assms(1) by (simp_all add: s utf8_code_point_def split: if_splits)
    obtain b s2 where s1: "s1 = b # s2" using is_cont_NUL [OF c(1)] by (cases s1) auto
    obtain d s3 where s2: "s2 = d # s3" using is_cont_NUL [OF c(2)] by (cases s2) (auto simp: s1)
    obtain e s4 where s3: "s3 = e # s4"
      using is_cont_NUL [OF c(3)] by (cases s3) (auto simp: s1 s2)
    have "cp = ((uchar a mod 8 * 64 + uchar b mod 64) * 64 + uchar d mod 64) * 64 + uchar e mod 64"
      using 5 assms(1) c by (simp add: s s1 s2 s3 utf8_code_point_def add_cont_eq and_masks)
    with utf8_four [OF 5(2,3) _ _ _ _ _ _ this] c 5(1) assms(5) show ?thesis
      by (simp add: s s1 s2 s3 is_cont_iff)
  qed
qed


lemma verify_utf8_sound:
  assumes "verify_utf8_sequence s = Some k" "s \<noteq> []"
  shows "\<exists>cp r. scalar_value cp \<and> s = utf8_encode cp @ r \<and> k = length (utf8_encode cp)"
proof -
  obtain cp where cp: "k = num_bytes_in_utf8_sequence (char_at s 0)" "utf8_code_point k s = Some cp"
    "scalar_value cp" "1 < k \<longrightarrow> 0x80 \<le> cp" "2 < k \<longrightarrow> 0x800 \<le> cp" "3 < k \<longrightarrow> 0x10000 \<le> cp"
    using assms(1) by (auto simp: verify_utf8_eq_Some)
  from utf8_code_point_bytes [OF cp(2,1,4-6) assms(2)]
  have "take k s = utf8_encode cp" "k \<le> length s" using encode_eq_iff [OF cp(3)] by blast+
  then have "s = utf8_encode cp @ drop k s" "k = length (utf8_encode cp)"
    by (metis append_take_drop_id) (metis \<open>take k s = utf8_encode cp\<close> \<open>k \<le> length s\<close> length_take min.absorb2)
  with cp(3) show ?thesis by blast
qed

lemma encode_cont: "uchar (char_of (0x80 + n mod 64)) = 0x80 + n mod 64" "is_cont (char_of (0x80 + n mod 64))"
  "uchar (char_of (0x80 + n mod 64)) mod 64 = n mod 64"
proof -
  have l: "n mod 64 < 64" by simp
  then show u: "uchar (char_of (0x80 + n mod 64)) = 0x80 + n mod 64" by (intro uchar_char_of) linarith
  from l show "is_cont (char_of (0x80 + n mod 64))" unfolding is_cont_iff u by linarith
  from l have "0x80 + n mod 64 < 192" by linarith
  then show "uchar (char_of (0x80 + n mod 64)) mod 64 = n mod 64"
    unfolding u by (subst low_bits(4)) simp_all
qed

lemma cont_mod: "(0x80 + n mod 64) mod 64 = n mod (64::nat)"
  using mod_mult_self1 [of "n mod 64" 2 64] by (simp add: add.commute)

lemma utf8_digits: "n div 4096 * 64 + n div 64 mod 64 = n div (64::nat)" "n div 64 * 64 + n mod 64 = n"
    "n div 262144 * 64 + n div 4096 mod 64 = n div 4096"
  unfolding div_4096 by simp_all

lemma verify_utf8_complete:
  assumes "scalar_value cp"
  shows "verify_utf8_sequence (utf8_encode cp @ r) = Some (length (utf8_encode cp))"
proof -
  consider "cp < 0x80" | "0x80 \<le> cp" "cp < 0x800" | "0x800 \<le> cp" "cp < 0x10000" | "0x10000 \<le> cp"
    by linarith
  then show ?thesis
  proof cases
    case 1
    then show ?thesis using assms
      by (auto simp: utf8_encode_def utf8_bytes_def verify_utf8_eq_Some num_bytes_iff utf8_code_point_def
          uchar_char_of)
  next
    case 2
    then have x: "2 \<le> cp div 64" "cp div 64 < 32" by (simp_all add: less_eq_div_iff_mult_less_eq div_less_iff_less_mult)
    then have u: "uchar (char_of (0xC0 + cp div 64)) = 0xC0 + cp div 64" by (intro uchar_char_of) linarith
    have "(0xC0 + cp div 64) mod 32 = cp div 64" using x by (subst low_bits) simp_all
    then have "utf8_code_point 2 (utf8_encode cp @ r) = Some cp"
      using 2 by (simp add: utf8_encode_def utf8_bytes_def utf8_code_point_def encode_cont add_cont_eq and_masks u utf8_digits cont_mod)
    moreover have "length (utf8_encode cp) = 2" using 2 by (simp add: utf8_encode_def utf8_bytes_def)
    moreover have "num_bytes_in_utf8_sequence (char_at (utf8_encode cp @ r) 0) = 2"
      using 2 x by (simp add: utf8_encode_def utf8_bytes_def num_bytes_iff u)
    ultimately show ?thesis using 2 assms by (simp only: verify_utf8_eq_Some) simp
  next
    case 3
    then have x: "cp div 4096 < 16" by (simp add: div_less_iff_less_mult)
    then have u: "uchar (char_of (0xE0 + cp div 4096)) = 0xE0 + cp div 4096" by (intro uchar_char_of) linarith
    have "(0xE0 + cp div 4096) mod 16 = cp div 4096" using x by (subst low_bits) simp_all
    then have "utf8_code_point 3 (utf8_encode cp @ r) = Some cp"
      using 3 by (simp add: utf8_encode_def utf8_bytes_def utf8_code_point_def encode_cont add_cont_eq and_masks u utf8_digits cont_mod)
    moreover have "length (utf8_encode cp) = 3" using 3 by (simp add: utf8_encode_def utf8_bytes_def)
    moreover have "num_bytes_in_utf8_sequence (char_at (utf8_encode cp @ r) 0) = 3"
      using 3 x by (simp add: utf8_encode_def utf8_bytes_def num_bytes_iff u)
    ultimately show ?thesis using 3 assms by (simp only: verify_utf8_eq_Some) simp
  next
    case 4
    then have x: "cp div 262144 < 5" using assms by (simp add: div_less_iff_less_mult scalar_value_def)
    then have u: "uchar (char_of (0xF0 + cp div 262144)) = 0xF0 + cp div 262144" by (intro uchar_char_of) linarith
    have "(0xF0 + cp div 262144) mod 8 = cp div 262144" using x by (subst low_bits) simp_all
    then have "utf8_code_point 4 (utf8_encode cp @ r) = Some cp"
      using 4 by (simp add: utf8_encode_def utf8_bytes_def utf8_code_point_def encode_cont add_cont_eq and_masks u utf8_digits cont_mod)
    moreover have "length (utf8_encode cp) = 4" using 4 by (simp add: utf8_encode_def utf8_bytes_def)
    moreover have "num_bytes_in_utf8_sequence (char_at (utf8_encode cp @ r) 0) = 4"
      using 4 x by (simp add: utf8_encode_def utf8_bytes_def num_bytes_iff u)
    ultimately show ?thesis using 4 assms by (simp only: verify_utf8_eq_Some) simp
  qed
qed

lemma length_utf8_encode: "0 < length (utf8_encode cp)"
  by (simp add: utf8_encode_def utf8_bytes_def)

text \<open>Text is accepted exactly when it is a sequence of encoded scalar values.\<close>

lemma is_valid_utf8_encode:
  "\<forall>cp \<in> set cps. scalar_value cp \<Longrightarrow> n = length (concat (map utf8_encode cps)) \<Longrightarrow>
   is_valid_utf8 (concat (map utf8_encode cps) @ r) n"
proof (induction cps arbitrary: n)
  case Nil
  then show ?case by (simp add: is_valid_utf8.simps)
next
  case (Cons cp cps)
  then show ?case
    using length_utf8_encode [of cp]
    by (subst is_valid_utf8.simps) (simp add: verify_utf8_complete)
qed

lemma is_valid_utf8_decode:
  "is_valid_utf8 s n \<Longrightarrow> n \<le> length s \<Longrightarrow>
   \<exists>cps r. (\<forall>cp \<in> set cps. scalar_value cp) \<and> s = concat (map utf8_encode cps) @ r \<and>
     n \<le> length (concat (map utf8_encode cps)) \<and>
     (n = length s \<longrightarrow> r = [])"
proof (induction s n rule: is_valid_utf8.induct)
  case (1 s n)
  show ?case
  proof (cases "n = 0")
    case True
    then show ?thesis by (intro exI [of _ "[]"] exI [of _ s]) simp
  next
    case False
    then obtain k where k: "verify_utf8_sequence s = Some k" "is_valid_utf8 (drop k s) (n - k)"
      using "1.prems"(1) by (subst (asm) is_valid_utf8.simps) (auto split: option.splits)
    have "s \<noteq> []" using False "1.prems"(2) by auto
    from verify_utf8_sound [OF k(1) this] obtain cp r where cp: "scalar_value cp" "s = utf8_encode cp @ r"
      "k = length (utf8_encode cp)" by blast
    from "1.IH" [OF False k] have "\<exists>cps r'. (\<forall>cp \<in> set cps. scalar_value cp) \<and>
        r = concat (map utf8_encode cps) @ r' \<and> n - k \<le> length (concat (map utf8_encode cps)) \<and>
        (n - k = length r \<longrightarrow> r' = [])"
      using "1.prems"(2) cp by simp
    then obtain cps r' where "\<forall>cp \<in> set cps. scalar_value cp" "r = concat (map utf8_encode cps) @ r'"
      "n - k \<le> length (concat (map utf8_encode cps))" "n - k = length r \<longrightarrow> r' = []" by blast
    with cp show ?thesis by (intro exI [of _ "cp # cps"] exI [of _ r']) auto
  qed
qed

section \<open>What the escapes decode to\<close>

lemma or_prefix:
  "(n AND 0x1F) OR 0xC0 = 0xC0 + n mod (32::nat)" "(n AND 0x0F) OR 0xE0 = 0xE0 + n mod (16::nat)"
  "(n AND 0x07) OR 0xF0 = 0xF0 + n mod (8::nat)" "(n AND 0x3F) OR 0x80 = 0x80 + n mod (64::nat)"
  using or_low [of "n mod 32" 6 3] or_low [of "n mod 16" 5 7] or_low [of "n mod 8" 4 15] or_low [of "n mod 64" 7 1]
  by (simp_all add: and_masks or.commute push_bit_eq_mult)

lemma hex_value:
  assumes "a < 16" "b < 16" "c < 16" "d < 16"
  shows "push_bit 12 a OR push_bit 8 b OR push_bit 4 c OR d = a * 4096 + b * 256 + c * 16 + (d::nat)"
proof -
  have "push_bit 4 c OR d = c * 16 + d" using or_low [of d 4 c] assms by simp
  moreover have "push_bit 8 b OR (c * 16 + d) = b * 256 + (c * 16 + d)"
    using or_low [of "c * 16 + d" 8 b] assms by simp
  moreover have "push_bit 12 a OR (b * 256 + (c * 16 + d)) = a * 4096 + (b * 256 + (c * 16 + d))"
    using or_low [of "b * 256 + (c * 16 + d)" 12 a] assms by simp
  ultimately show ?thesis by simp
qed

lemma hex_char_to_int_range: "hex_char_to_int c \<noteq> -1 \<Longrightarrow> nat (hex_char_to_int c) < 16"
  by (auto simp: hex_char_to_int_def)

lemma hex_char_to_int_digit: "d < 16 \<Longrightarrow> hex_char_to_int (hex_digit d) = int d"
  by (auto simp: hex_char_to_int_def hex_digit_def)

lemma hex_digit_not_NUL: "d < 16 \<Longrightarrow> hex_digit d \<noteq> NUL"
  by (auto simp: hex_digit_def char_eq_uchar simp del: of_char_eq_iff)

lemma parse_utf16_hex_bound: "parse_utf16_hex s = Some cp \<Longrightarrow> cp < 65536"
proof -
  assume a: "parse_utf16_hex s = Some cp"
  let ?x = "\<lambda>i. nat (hex_char_to_int (char_at s i))"
  have cp: "cp = push_bit 12 (?x 0) OR push_bit 8 (?x 1) OR push_bit 4 (?x 2) OR ?x 3"
    and x: "?x 0 < 16" "?x 1 < 16" "?x 2 < 16" "?x 3 < 16"
    using a hex_char_to_int_range by (auto simp: parse_utf16_hex_def Let_def split: if_splits)
  have "a * 4096 + b * 256 + c * 16 + d < 65536" if "a \<le> 15" "b \<le> 15" "c \<le> 15" "d \<le> 15" for a b c d :: nat
    using that by linarith
  from this [of "?x 0" "?x 1" "?x 2" "?x 3"] x show ?thesis
    unfolding cp hex_value [OF x] by linarith
qed

text \<open>Four hexadecimal digits, and the escape of a scalar value: two where it needs a pair.\<close>

definition hex4 :: "nat \<Rightarrow> string" where
  "hex4 n = [hex_digit (n div 4096), hex_digit (n div 256 mod 16), hex_digit (n div 16 mod 16), hex_digit (n mod 16)]"

definition utf16_escape :: "nat \<Rightarrow> string" where
  "utf16_escape cp =
     (if cp < 0x10000 then CHR ''u'' # hex4 cp
      else CHR ''u'' # hex4 (0xD800 + (cp - 0x10000) div 1024) @ BACKSLASH # CHR ''u'' #
           hex4 (0xDC00 + (cp - 0x10000) mod 1024))"

lemma hex4_digits: "n div 4096 * 4096 + n div 256 mod 16 * 256 + n div 16 mod 16 * 16 + n mod 16 = (n::nat)"
proof -
  have d: "n div 4096 = n div 16 div 16 div 16" "n div 256 = n div 16 div 16"
    by (simp_all add: div_mult2_eq [symmetric])
  have "c * 4096 + p * 256 + q * 16 + r = n" if "c * 16 + p = b" "b * 16 + q = a" "a * 16 + r = n"
    for a b c p q r :: nat
    using that by linarith
  then show ?thesis
    unfolding d using div_mult_mod_eq [of n 16] div_mult_mod_eq [of "n div 16" 16]
      div_mult_mod_eq [of "n div 16 div 16" 16] by blast
qed

lemma parse_utf16_hex_digits:
  assumes "a < 16" "b < 16" "c < 16" "d < 16"
  shows "parse_utf16_hex ([hex_digit a, hex_digit b, hex_digit c, hex_digit d] @ r) =
    Some (a * 4096 + b * 256 + c * 16 + d)"
proof -
  let ?s = "[hex_digit a, hex_digit b, hex_digit c, hex_digit d] @ r"
  have s: "char_at ?s 0 = hex_digit a" "char_at ?s 1 = hex_digit b" "char_at ?s 2 = hex_digit c"
    "char_at ?s 3 = hex_digit d" by simp_all
  have "parse_utf16_hex ?s = Some (push_bit 12 a OR push_bit 8 b OR push_bit 4 c OR d)"
    unfolding parse_utf16_hex_def s
    by (simp add: hex_char_to_int_digit hex_digit_not_NUL assms)
  then show ?thesis by (simp only: hex_value [OF assms])
qed

lemma parse_utf16_hex4: "n < 65536 \<Longrightarrow> parse_utf16_hex (hex4 n @ r) = Some n"
proof -
  assume "n < 65536"
  then have l: "n div 4096 < 16" "n div 256 mod 16 < 16" "n div 16 mod 16 < 16" "n mod 16 < 16"
    by (simp_all add: div_less_iff_less_mult)
  show ?thesis
    using parse_utf16_hex_digits [OF l, of r] unfolding hex4_digits hex4_def .
qed

lemma shifts: "drop_bit 6 n = n div (64::nat)" "drop_bit 12 n = n div (4096::nat)" "drop_bit 18 n = n div (262144::nat)"
  by (simp_all add: drop_bit_eq_div)

lemma encode_by_bits:
  "cp < 0x80 \<Longrightarrow> utf8_encode cp = [char_of cp]"
  "0x80 \<le> cp \<Longrightarrow> cp < 0x800 \<Longrightarrow>
   utf8_encode cp = [char_of ((drop_bit 6 cp AND 0x1F) OR 0xC0), char_of ((cp AND 0x3F) OR 0x80)]"
  "0x800 \<le> cp \<Longrightarrow> cp < 0x10000 \<Longrightarrow>
   utf8_encode cp = [char_of ((drop_bit 12 cp AND 0x0F) OR 0xE0), char_of ((drop_bit 6 cp AND 0x3F) OR 0x80),
     char_of ((cp AND 0x3F) OR 0x80)]"
  "0x10000 \<le> cp \<Longrightarrow> cp \<le> 0x10FFFF \<Longrightarrow>
   utf8_encode cp = [char_of ((drop_bit 18 cp AND 0x07) OR 0xF0), char_of ((drop_bit 12 cp AND 0x3F) OR 0x80),
     char_of ((drop_bit 6 cp AND 0x3F) OR 0x80), char_of ((cp AND 0x3F) OR 0x80)]"
proof -
  have m: "n div d mod k = n div d" if "n < k * d" "0 < d" for n d k :: nat
    using that by (simp add: div_less_iff_less_mult)
  show "cp < 0x80 \<Longrightarrow> utf8_encode cp = [char_of cp]" by (simp add: utf8_encode_def utf8_bytes_def)
  show "0x80 \<le> cp \<Longrightarrow> cp < 0x800 \<Longrightarrow>
   utf8_encode cp = [char_of ((drop_bit 6 cp AND 0x1F) OR 0xC0), char_of ((cp AND 0x3F) OR 0x80)]"
    unfolding or_prefix shifts using m [of cp 32 64] by (simp add: utf8_encode_def utf8_bytes_def)
  show "0x800 \<le> cp \<Longrightarrow> cp < 0x10000 \<Longrightarrow>
   utf8_encode cp = [char_of ((drop_bit 12 cp AND 0x0F) OR 0xE0), char_of ((drop_bit 6 cp AND 0x3F) OR 0x80),
     char_of ((cp AND 0x3F) OR 0x80)]"
    unfolding or_prefix shifts using m [of cp 16 4096] by (simp add: utf8_encode_def utf8_bytes_def)
  show "0x10000 \<le> cp \<Longrightarrow> cp \<le> 0x10FFFF \<Longrightarrow>
   utf8_encode cp = [char_of ((drop_bit 18 cp AND 0x07) OR 0xF0), char_of ((drop_bit 12 cp AND 0x3F) OR 0x80),
     char_of ((drop_bit 6 cp AND 0x3F) OR 0x80), char_of ((cp AND 0x3F) OR 0x80)]"
    unfolding or_prefix shifts using m [of cp 8 262144] by (simp add: utf8_encode_def utf8_bytes_def)
qed

lemma surrogates:
  assumes "lead - 0xD800 < 1024" "trail - 0xDC00 < 1024"
  shows "push_bit 10 ((lead - 0xD800) AND 0x3FF) OR ((trail - 0xDC00) AND 0x3FF)
    = (lead - 0xD800) * 1024 + (trail - (0xDC00 :: nat))"
  using or_low [of "trail - 0xDC00" 10 "lead - 0xD800"] assms by (simp add: and_masks)

lemma parse_trail_sound:
  assumes "parse_trail lead s = Some (out, rest)" "0xD800 \<le> lead" "lead \<le> 0xDBFF"
  shows "\<exists>cp. scalar_value cp \<and> out = utf8_encode cp"
proof -
  obtain trail where t: "parse_utf16_hex (drop 2 s) = Some trail" "\<not> (trail < 0xDC00 \<or> trail > 0xDFFF)"
    using assms(1) by (auto simp: parse_trail_def Let_def split: if_splits option.splits)
  let ?c = "(lead - 0xD800) * 1024 + (trail - 0xDC00) + 0x10000"
  have l: "lead - 0xD800 < 1024" "trail - 0xDC00 < 1024" using assms t by linarith+
  then have c: "0x10000 \<le> ?c" "?c \<le> 0x10FFFF" by linarith+
  have "parse_trail lead s = None \<or> parse_trail lead s = Some (utf8_encode ?c, drop 3 (drop 2 s))"
    unfolding parse_trail_def Let_def t(1) option.case surrogates [OF l] encode_by_bits(4) [OF c]
    using t(2) by (cases "char_at s 0 \<noteq> BACKSLASH \<or> char_at s 1 \<noteq> CHR ''u''") (simp_all only: if_True if_False simp_thms)
  moreover have "scalar_value ?c" using c by (simp add: scalar_value_def)
  ultimately show ?thesis using assms(1) by auto
qed

text \<open>Whatever the escape, what is written is the encoding of one scalar value.\<close>

lemma parse_utf16_sound:
  assumes "parse_utf16 s = Some (out, rest)"
  shows "\<exists>cp. scalar_value cp \<and> out = utf8_encode cp"
proof -
  obtain cp where cp: "parse_utf16_hex (drop 1 s) = Some cp"
    using assms by (auto simp: parse_utf16_def Let_def split: option.splits)
  note b = parse_utf16_hex_bound [OF cp]
  consider "cp < 0x80" | "0x80 \<le> cp" "cp < 0x800" | "0x800 \<le> cp" "cp < 0xD800 \<or> cp > 0xDFFF"
    | "0xD800 \<le> cp" "cp \<le> 0xDFFF" by linarith
  then show ?thesis
  proof cases
    case 1
    with assms cp show ?thesis
      by (intro exI [of _ cp]) (simp add: parse_utf16_def encode_by_bits scalar_value_def)
  next
    case 2
    with assms cp show ?thesis
      by (intro exI [of _ cp]) (simp add: parse_utf16_def encode_by_bits scalar_value_def)
  next
    case 3
    then have "scalar_value cp" "cp < 0x10000" using b by (auto simp: scalar_value_def)
    with 3 assms cp show ?thesis
      by (intro exI [of _ cp]) (simp add: parse_utf16_def encode_by_bits)
  next
    case 4
    with assms cp have "cp \<le> 0xDBFF" "parse_trail cp (drop 4 (drop 1 s)) = Some (out, rest)"
      by (simp_all add: parse_utf16_def split: if_splits)
    with parse_trail_sound 4 show ?thesis by blast
  qed
qed

lemma drop3_hex4: "drop 3 (hex4 n @ r) = hex_digit (n mod 16) # r"
  and drop4_hex4: "drop 4 (hex4 n @ r) = r"
  by (simp_all add: hex4_def)

text \<open>The escape of every scalar value is read back as its UTF-8 encoding.\<close>

lemma parse_utf16_escape:
  assumes "scalar_value cp"
  shows "\<exists>d. parse_utf16 (utf16_escape cp @ r) = Some (utf8_encode cp, d # r)"
proof (cases "cp < 0x10000")
  case True
  then have s: "drop 1 (utf16_escape cp @ r) = hex4 cp @ r" by (simp add: utf16_escape_def)
  consider "cp < 0x80" | "0x80 \<le> cp" "cp < 0x800" | "0x800 \<le> cp" "cp < 0xD800 \<or> cp > 0xDFFF"
    using assms True unfolding scalar_value_def by linarith
  moreover have "parse_utf16_hex (hex4 cp @ r) = Some cp" by (rule parse_utf16_hex4) (use True in simp)
  ultimately show ?thesis
    unfolding parse_utf16_def Let_def s by cases (use True in \<open>simp_all add: encode_by_bits drop3_hex4 del: drop_append\<close>)
next
  case False
  define p q where "p = (cp - 0x10000) div 1024" and "q = (cp - 0x10000) mod 1024"
  let ?l = "0xD800 + p" and ?t = "0xDC00 + q"
  have le: "cp \<le> 0x10FFFF" using assms by (simp add: scalar_value_def)
  then have "cp - 0x10000 < 1024 * 1024" by linarith
  then have v: "p < 1024" "q < 1024" by (simp_all add: p_def q_def div_less_iff_less_mult)
  then have b: "?l < 65536" "?t < 65536" "\<not> ?l < 0x80" "\<not> ?l < 0x800" "\<not> (?l < 0xD800 \<or> ?l > 0xDFFF)"
    "?l \<ge> 0xD800 \<and> ?l \<le> 0xDBFF" "\<not> (?t < 0xDC00 \<or> ?t > 0xDFFF)" by linarith+
  have s: "drop 1 (utf16_escape cp @ r) = hex4 ?l @ BACKSLASH # CHR ''u'' # hex4 ?t @ r"
    using False by (simp add: utf16_escape_def p_def q_def)
  have "push_bit 10 ((?l - 0xD800) AND 0x3FF) OR ((?t - 0xDC00) AND 0x3FF) =
      (?l - 0xD800) * 1024 + (?t - 0xDC00)"
    by (rule surrogates) (use v in linarith)+
  moreover have "p * 1024 + q = cp - 0x10000"
    unfolding p_def q_def by (rule div_mult_mod_eq)
  ultimately have c: "(push_bit 10 ((?l - 0xD800) AND 0x3FF) OR ((?t - 0xDC00) AND 0x3FF)) + 0x10000 = cp"
    using False by linarith
  have e: "utf8_encode cp = [char_of ((drop_bit 18 cp AND 0x07) OR 0xF0), char_of ((drop_bit 12 cp AND 0x3F) OR 0x80),
     char_of ((drop_bit 6 cp AND 0x3F) OR 0x80), char_of ((cp AND 0x3F) OR 0x80)]"
    using False le by (intro encode_by_bits) simp_all
  have d: "drop 2 (BACKSLASH # CHR ''u'' # hex4 ?t @ r) = hex4 ?t @ r" by simp
  have "parse_trail ?l (BACKSLASH # CHR ''u'' # hex4 ?t @ r) = Some (utf8_encode cp, hex_digit (?t mod 16) # r)"
    unfolding parse_trail_def Let_def d parse_utf16_hex4 [OF b(2)] option.case c e drop3_hex4
    using b(7) by simp
  then show ?thesis
    unfolding parse_utf16_def Let_def s parse_utf16_hex4 [OF b(1)] option.case drop4_hex4
    using b by (simp only: if_False if_True simp_thms) blast
qed

lemma valid_ascii: "\<forall>c \<in> set s. uchar c < 128 \<Longrightarrow> is_valid_utf8 s (length s)"
proof -
  assume a: "\<forall>c \<in> set s. uchar c < 128"
  have "concat (map utf8_encode (map uchar s)) = s"
    using a by (induction s) (auto simp: utf8_encode_def utf8_bytes_def)
  moreover have "\<forall>cp \<in> set (map uchar s). scalar_value cp" using a by (auto simp: scalar_value_def)
  ultimately show ?thesis using is_valid_utf8_encode [of "map uchar s" "length s" "[]"] by simp
qed

end
