(* ===== verification/JsonText.thy ===== *)
theory JsonText
  imports Utf8
begin

text \<open>
  Strings and numbers of \<^verbatim>\<open>Tema_3/parson.c\<close> as text: reading a quoted string, writing one,
  and the text of numbers. What \<open>strtod\<close> consumes is modelled; the value it gives a token,
  whether it sets \<open>errno\<close>, and what \<open>sprintf\<close> prints for a value are a parameter, the record
  \<open>numlib\<close>, since the C library's conversion of doubles is not part of the program.
\<close>

unbundle bit_operations_syntax

section \<open>Reading a quoted string\<close>

fun skip_body :: "string \<Rightarrow> string option" where
  "skip_body [] = None"
| "skip_body (c # s) =
     (if c = DQUOTE then Some s
      else if c = BACKSLASH then (case s of [] \<Rightarrow> None | d # s' \<Rightarrow> skip_body s')
      else skip_body s)"

definition skip_quotes :: "string \<Rightarrow> string option" where
  "skip_quotes s = (if peek s \<noteq> DQUOTE then None else skip_body (drop 1 s))"

definition simple_escape :: "char \<Rightarrow> char option" where
  "simple_escape c =
     (if c = DQUOTE then Some DQUOTE else if c = BACKSLASH then Some BACKSLASH
      else if c = CHR ''/'' then Some (CHR ''/'')
      else if c = CHR ''b'' then Some (CHR 0x08) else if c = CHR ''f'' then Some (CHR 0x0C)
      else if c = CHR ''n'' then Some (CHR 0x0A) else if c = CHR ''r'' then Some (CHR 0x0D)
      else if c = CHR ''t'' then Some (CHR 0x09) else None)"

lemma parse_trail_length: "parse_trail lead s = Some (out, rest) \<Longrightarrow> length rest \<le> length s"
  by (auto simp: parse_trail_def Let_def split: if_splits option.splits)

lemma parse_utf16_length: "parse_utf16 s = Some (out, rest) \<Longrightarrow> length rest \<le> length s"
  by (auto simp: parse_utf16_def Let_def dest!: parse_trail_length split: if_splits option.splits)

text \<open>
  The loop of \<open>process_string\<close> at \<open>input_ptr = s\<close> with \<open>n\<close> characters of the input left; the
  result is the output from there on.
\<close>

function process_string :: "string \<Rightarrow> nat \<Rightarrow> string option" where
  "process_string s n =
     (case s of [] \<Rightarrow> Some []
      | c # s1 \<Rightarrow>
          if n = 0 then Some []
          else if c = BACKSLASH then
            (case s1 of [] \<Rightarrow> None
             | d # s2 \<Rightarrow>
                 if d = CHR ''u'' then
                   (case parse_utf16 s1 of None \<Rightarrow> None
                    | Some (out, s3) \<Rightarrow>
                        map_option (\<lambda>t. out @ t)
                          (process_string (drop 1 s3) (n - (length s - length (drop 1 s3)))))
                 else case simple_escape d of None \<Rightarrow> None
                   | Some e \<Rightarrow> map_option (\<lambda>t. e # t) (process_string s2 (n - 2)))
          else if uchar c < 0x20 then None
          else map_option (\<lambda>t. c # t) (process_string s1 (n - 1)))"
  by pat_completeness auto
termination
  by (relation "measure (length \<circ> fst)") (auto dest!: parse_utf16_length)

declare process_string.simps [simp del]

definition get_quoted_string :: "string \<Rightarrow> (string \<times> string) option" where
  "get_quoted_string s =
     (case skip_quotes s of None \<Rightarrow> None
      | Some r \<Rightarrow>
          map_option (\<lambda>out. (out, r)) (process_string (drop 1 s) (length s - length r - 2)))"

lemma skip_body_length: "skip_body s = Some r \<Longrightarrow> length r < length s"
  by (induction s rule: skip_body.induct) (auto split: if_splits list.splits)

lemma get_quoted_string_length: "get_quoted_string s = Some (out, r) \<Longrightarrow> length r + 2 \<le> length s"
  by (cases s) (auto simp: get_quoted_string_def skip_quotes_def dest!: skip_body_length split: if_splits option.splits)

section \<open>Writing a string\<close>

text \<open>
  A writer is what the macros \<open>APPEND_STRING\<close> and \<open>APPEND_INDENT\<close> are made of: it takes the
  text written so far, or \<open>None\<close> for the null buffer of a measuring run, and gives the number
  of characters written and the new text. \<open>sprintf\<close> and \<open>strlen\<close> do not fail here, so no
  writer returns \<open>-1\<close>.
\<close>

type_synonym writer = "string option \<Rightarrow> nat \<times> string option"

definition append_string :: "string \<Rightarrow> writer" where
  "append_string str buf = (case buf of None \<Rightarrow> (length str, None) | Some b \<Rightarrow> (length str, Some (b @ str)))"

definition no_write :: writer where
  "no_write buf = (0, buf)"

definition and_then :: "writer \<Rightarrow> writer \<Rightarrow> writer" where
  "and_then f g buf = (let (written, buf) = f buf; (written', buf) = g buf in (written + written', buf))"

fun append_indent :: "nat \<Rightarrow> writer" where
  "append_indent 0 = no_write"
| "append_indent (Suc n) = and_then (append_string ''    '') (append_indent n)"

text \<open>
  The switch of \<open>json_serialize_string\<close>: the cases for control characters are the \<open>\u00\<close>
  escapes in lower case.
\<close>

definition escape_char :: "bool \<Rightarrow> char \<Rightarrow> string" where
  "escape_char escape_slashes c =
     (if c = DQUOTE then [BACKSLASH, DQUOTE] else if c = BACKSLASH then [BACKSLASH, BACKSLASH]
      else if c = CHR 0x08 then [BACKSLASH, CHR ''b''] else if c = CHR 0x0C then [BACKSLASH, CHR ''f'']
      else if c = CHR 0x0A then [BACKSLASH, CHR ''n''] else if c = CHR 0x0D then [BACKSLASH, CHR ''r'']
      else if c = CHR 0x09 then [BACKSLASH, CHR ''t'']
      else if uchar c < 0x20
      then [BACKSLASH, CHR ''u'', CHR ''0'', CHR ''0'', hex_digit (uchar c div 16), hex_digit (uchar c mod 16)]
      else if c = CHR ''/'' then (if escape_slashes then [BACKSLASH, CHR ''/''] else [CHR ''/''])
      else [c])"

fun serialize_chars :: "bool \<Rightarrow> string \<Rightarrow> writer" where
  "serialize_chars esc [] = no_write"
| "serialize_chars esc (c # cs) = and_then (append_string (escape_char esc c)) (serialize_chars esc cs)"

definition json_serialize_string :: "bool \<Rightarrow> string \<Rightarrow> writer" where
  "json_serialize_string esc str =
     and_then (append_string [DQUOTE]) (and_then (serialize_chars esc str) (append_string [DQUOTE]))"

text \<open>The text a writer appends.\<close>

lemma append_string_then [simp]: "and_then (append_string a) (append_string b) = append_string (a @ b)"
  by (rule ext) (simp add: and_then_def append_string_def split: option.split)

lemma no_write_eq: "no_write = append_string []"
  by (rule ext) (simp add: no_write_def append_string_def split: option.split)

lemma append_indent_eq: "append_indent n = append_string (replicate (4 * n) (CHR '' ''))"
  by (induction n) (simp_all add: no_write_eq numeral_eq_Suc)

lemma serialize_chars_eq: "serialize_chars esc s = append_string (concat (map (escape_char esc) s))"
  by (induction s) (simp_all add: no_write_eq)

definition quoted :: "bool \<Rightarrow> string \<Rightarrow> string" where
  "quoted esc s = DQUOTE # concat (map (escape_char esc) s) @ [DQUOTE]"

lemma json_serialize_string_eq: "json_serialize_string esc s = append_string (quoted esc s)"
  by (simp add: json_serialize_string_def serialize_chars_eq quoted_def)

section \<open>Reading back what was written\<close>

text \<open>One escaped character is skipped and decoded.\<close>

lemma skip_escape_char: "skip_body (escape_char esc c @ s) = skip_body s"
proof -
  have h: "hex_digit d \<noteq> DQUOTE" "hex_digit d \<noteq> BACKSLASH" if "d < 16" for d
    using that by (auto simp: hex_digit_def char_eq_uchar simp del: of_char_eq_iff)
  have "uchar c div 16 < 16" using uchar_less [of c] by linarith
  then show ?thesis
    by (simp add: escape_char_def h)
qed

lemma skip_quoted: "skip_quotes (quoted esc s @ r) = Some r"
proof -
  have "skip_body (concat (map (escape_char esc) s) @ DQUOTE # r) = Some r"
    by (induction s) (simp_all add: skip_escape_char)
  then show ?thesis by (simp add: skip_quotes_def quoted_def)
qed

lemma process_control:
  assumes "uchar c < 0x20" "n = 6 + m"
  shows "process_string (BACKSLASH # CHR ''u'' # CHR ''0'' # CHR ''0'' # hex_digit (uchar c div 16) #
    hex_digit (uchar c mod 16) # s) n = map_option (\<lambda>t. c # t) (process_string s m)"
proof -
  have z: "CHR ''0'' = hex_digit 0"
    by (simp add: hex_digit_def char_eq_uchar del: of_char_eq_iff)
  have d: "uchar c div 16 < 16" "uchar c mod 16 < 16" using uchar_less [of c] by linarith+
  have "parse_utf16_hex (CHR ''0'' # CHR ''0'' # hex_digit (uchar c div 16) # hex_digit (uchar c mod 16) # s) =
      Some (uchar c)"
    using parse_utf16_hex_digits [of 0 0 "uchar c div 16" "uchar c mod 16" s] d by (simp add: z)
  then have "parse_utf16 (CHR ''u'' # CHR ''0'' # CHR ''0'' # hex_digit (uchar c div 16) #
      hex_digit (uchar c mod 16) # s) = Some ([c], hex_digit (uchar c mod 16) # s)"
    using assms(1) by (simp add: parse_utf16_def)
  moreover have "(@) [c] = (#) c" by (rule ext) simp
  ultimately show ?thesis using assms(2)
    by (subst process_string.simps) simp
qed

lemma process_simple:
  assumes "simple_escape d = Some c" "d \<noteq> CHR ''u''" "n = 2 + m"
  shows "process_string (BACKSLASH # d # s) n = map_option (\<lambda>t. c # t) (process_string s m)"
  using assms by (subst process_string.simps) simp

lemma process_plain:
  assumes "c \<noteq> BACKSLASH" "\<not> uchar c < 0x20" "n = 1 + m"
  shows "process_string (c # s) n = map_option (\<lambda>t. c # t) (process_string s m)"
  using assms by (subst process_string.simps) simp

lemma escape_char_cases:
  obtains (control) "uchar c < 0x20" "escape_char esc c = [BACKSLASH, CHR ''u'', CHR ''0'', CHR ''0'',
      hex_digit (uchar c div 16), hex_digit (uchar c mod 16)]"
  | (simple) d where "simple_escape d = Some c" "d \<noteq> CHR ''u''" "escape_char esc c = [BACKSLASH, d]"
  | (plain) "c \<noteq> BACKSLASH" "\<not> uchar c < 0x20" "escape_char esc c = [c]"
proof -
  consider "c = DQUOTE" | "c = BACKSLASH" | "c = CHR 0x08" | "c = CHR 0x0C" | "c = CHR 0x0A" | "c = CHR 0x0D"
    | "c = CHR 0x09" | "c = CHR ''/''"
    | "c \<noteq> DQUOTE" "c \<noteq> BACKSLASH" "c \<noteq> CHR 0x08" "c \<noteq> CHR 0x0C" "c \<noteq> CHR 0x0A" "c \<noteq> CHR 0x0D"
      "c \<noteq> CHR 0x09" "c \<noteq> CHR ''/''" by blast
  then show thesis
  proof cases
    case 8
    show thesis
    proof (cases esc)
      case True
      then show thesis using simple [of "CHR ''/''"] 8 by (simp add: escape_char_def simple_escape_def)
    next
      case False
      then show thesis using plain 8 by (simp add: escape_char_def)
    qed
  next
    case 9
    then show thesis using control plain by (cases "uchar c < 0x20") (simp_all add: escape_char_def)
  qed (use simple [of DQUOTE] simple [of BACKSLASH] simple [of "CHR ''b''"] simple [of "CHR ''f''"]
      simple [of "CHR ''n''"] simple [of "CHR ''r''"] simple [of "CHR ''t''"]
      in \<open>simp_all add: escape_char_def simple_escape_def\<close>)
qed

lemma process_escape_char:
  "process_string (escape_char esc c @ s) (length (escape_char esc c) + m) =
   map_option (\<lambda>t. c # t) (process_string s m)"
proof (cases rule: escape_char_cases [of c esc])
  case control
  have l: "length (escape_char esc c) = 6" by (simp add: control(2))
  show ?thesis
    unfolding l unfolding control(2) using process_control [OF control(1) refl, of s m] by simp
next
  case (simple d)
  have l: "length (escape_char esc c) = 2" by (simp add: simple(3))
  show ?thesis
    unfolding l unfolding simple(3) using process_simple [OF simple(1,2) refl, of s m] by simp
next
  case plain
  then show ?thesis using process_plain [OF plain(1,2) refl, of s m] by simp
qed

lemma process_escaped:
  "process_string (concat (map (escape_char esc) s) @ r) (length (concat (map (escape_char esc) s))) = Some s"
proof (induction s)
  case Nil
  then show ?case by (subst process_string.simps) (simp split: list.split)
next
  case (Cons c s)
  then show ?case
    using process_escape_char [of esc c "concat (map (escape_char esc) s) @ r" "length (concat (map (escape_char esc) s))"]
    by simp
qed

lemma get_quoted: "get_quoted_string (quoted esc s @ r) = Some (s, r)"
  using process_escaped [of esc s "DQUOTE # r"]
  by (simp add: get_quoted_string_def skip_quoted) (simp add: quoted_def)

section \<open>The text of numbers\<close>

record 'n numlib =
  num_value :: "string \<Rightarrow> 'n"
  num_errno :: "string \<Rightarrow> bool"
  num_text :: "'n \<Rightarrow> string"
  num_invalid :: "'n \<Rightarrow> bool"
  num_close :: "'n \<Rightarrow> 'n \<Rightarrow> bool"

text \<open>
  What \<open>strtod\<close> takes from the front of a string: a sign, then a hexadecimal number, a decimal
  number, or the name of an infinity or of a NaN; nothing where none of them follows.
\<close>

definition is_hex_digit :: "char \<Rightarrow> bool" where
  "is_hex_digit c \<longleftrightarrow> hex_char_to_int c \<noteq> -1"

definition mantissa_len :: "(char \<Rightarrow> bool) \<Rightarrow> string \<Rightarrow> nat" where
  "mantissa_len isd s =
     (let a = length (takeWhile isd s);
          b = (if char_at s a = CHR ''.'' then length (takeWhile isd (drop (Suc a) s)) else 0)
      in if a = 0 \<and> b = 0 then 0
         else if char_at s a = CHR ''.'' then Suc (a + b) else a)"

definition exponent_len :: "char list \<Rightarrow> string \<Rightarrow> nat" where
  "exponent_len marks s =
     (if peek s \<in> set marks
      then let sgn = (if char_at s 1 \<in> {CHR ''+'', CHR ''-''} then 2 else 1);
               d = length (takeWhile isdigit (drop sgn s))
        in if d = 0 then 0 else sgn + d
      else 0)"

definition name_len :: "string \<Rightarrow> nat" where
  "name_len s =
     (if starts_with ''infinity'' (map to_lower s) then 8
      else if starts_with ''inf'' (map to_lower s) then 3
      else if starts_with ''nan'' (map to_lower s) then 3 else 0)"

definition strtod_len :: "string \<Rightarrow> nat" where
  "strtod_len s =
     (let sgn = (if peek s \<in> {CHR ''+'', CHR ''-''} then 1 else 0);
          r = drop sgn s;
          hex = (if char_at r 0 = CHR ''0'' \<and> char_at r 1 \<in> {CHR ''x'', CHR ''X''}
                 then mantissa_len is_hex_digit (drop 2 r) else 0);
          dec = mantissa_len isdigit r
      in if hex \<noteq> 0 then sgn + 2 + hex + exponent_len ''pP'' (drop (2 + hex) r)
         else if dec \<noteq> 0 then sgn + dec + exponent_len ''eE'' (drop dec r)
         else if name_len r \<noteq> 0 then sgn + name_len r
         else 0)"

definition is_decimal :: "string \<Rightarrow> nat \<Rightarrow> bool" where
  "is_decimal s n =
     (if n > 1 \<and> char_at s 0 = CHR ''0'' \<and> char_at s 1 \<noteq> CHR ''.'' then False
      else if n > 2 \<and> starts_with ''-0'' s \<and> char_at s 2 \<noteq> CHR ''.'' then False
      else (\<forall>c \<in> set (take n s). c \<noteq> CHR ''x'' \<and> c \<noteq> CHR ''X''))"

text \<open>The shape of what \<open>sprintf\<close> prints for a finite double under \<open>"%1.17g"\<close>.\<close>

definition digits :: "string \<Rightarrow> bool" where
  "digits ds \<longleftrightarrow> ds \<noteq> [] \<and> (\<forall>c \<in> set ds. isdigit c)"

definition fraction_text :: "string \<Rightarrow> bool" where
  "fraction_text f \<longleftrightarrow> f = [] \<or> (\<exists>ds. digits ds \<and> f = CHR ''.'' # ds)"

definition exponent_text :: "string \<Rightarrow> bool" where
  "exponent_text x \<longleftrightarrow> x = [] \<or> (\<exists>sg ds. sg \<in> {CHR ''+'', CHR ''-''} \<and> digits ds \<and> x = CHR ''e'' # sg # ds)"

definition number_text :: "string \<Rightarrow> bool" where
  "number_text t \<longleftrightarrow>
     (\<exists>sg ip fp ex. t = sg @ ip @ fp @ ex \<and> sg \<in> {[], ''-''} \<and> digits ip \<and> fraction_text fp \<and>
        exponent_text ex \<and> (peek ip = CHR ''0'' \<longrightarrow> length ip = 1 \<and> (fp = [] \<longrightarrow> ex = [])))"

text \<open>
  What the program relies on for a number to survive: the library prints it as a decimal
  number and reads that back as the same value without raising an error.
\<close>

definition num_ok :: "'n numlib \<Rightarrow> 'n \<Rightarrow> bool" where
  "num_ok L x \<longleftrightarrow> number_text (num_text L x) \<and> \<not> num_errno L (num_text L x) \<and>
     num_value L (num_text L x) = x \<and> \<not> num_invalid L x"

text \<open>The characters that end a number.\<close>

definition ends_number :: "string \<Rightarrow> bool" where
  "ends_number r \<longleftrightarrow> \<not> isdigit (peek r) \<and> peek r \<notin> set ''.eExX''"

lemma takeWhile_digits: "digits ds \<Longrightarrow> \<not> isdigit (peek r) \<Longrightarrow> takeWhile isdigit (ds @ r) = ds"
proof -
  assume "digits ds" "\<not> isdigit (peek r)"
  moreover have "takeWhile isdigit r = []" if "\<not> isdigit (peek r)" using that by (cases r) simp_all
  ultimately show ?thesis by (simp add: digits_def takeWhile_append2)
qed

lemma char_at_append: "char_at (a @ b) (length a + i) = char_at b i"
  by (simp add: char_at_def)

lemma char_at_append0: "char_at (a @ b) (length a) = peek b"
  by (simp add: char_at_def)

lemma peek_fraction: "fraction_text fp \<Longrightarrow> fp \<noteq> [] \<Longrightarrow> peek (fp @ r) = CHR ''.''"
  by (auto simp: fraction_text_def)

lemma isdigit_chars: "\<not> isdigit (CHR ''.'')" "\<not> isdigit (CHR ''e'')" "\<not> isdigit (CHR ''-'')" "\<not> isdigit (CHR ''+'')"
    "\<not> isdigit (CHR ''x'')" "\<not> isdigit (CHR ''X'')" "\<not> isdigit NUL" "isdigit (CHR ''0'')"
  by (simp_all add: isdigit_def)

lemma mantissa_len_text:
  assumes "digits ip" "fraction_text fp" "\<not> isdigit (peek r)" "peek r \<noteq> CHR ''.''"
  shows "mantissa_len isdigit (ip @ fp @ r) = length ip + length fp"
proof (cases "fp = []")
  case True
  have "takeWhile isdigit (ip @ r) = ip" using assms by (intro takeWhile_digits)
  with True assms show ?thesis
    by (simp add: mantissa_len_def Let_def char_at_append0 digits_def)
next
  case False
  then obtain ds where ds: "fp = CHR ''.'' # ds" "digits ds" using assms(2) by (auto simp: fraction_text_def)
  have "takeWhile isdigit (ip @ fp @ r) = ip" using assms(1) by (intro takeWhile_digits) (simp_all add: ds isdigit_chars)
  moreover have "takeWhile isdigit (ds @ r) = ds" using ds(2) assms(3) by (intro takeWhile_digits)
  ultimately show ?thesis
    using assms(1) by (simp add: mantissa_len_def Let_def char_at_append0 ds digits_def)
qed

lemma exponent_len_text:
  assumes "exponent_text ex" "\<not> isdigit (peek r)" "peek r \<notin> set ''eE''"
  shows "exponent_len ''eE'' (ex @ r) = length ex"
proof (cases "ex = []")
  case True
  with assms(3) show ?thesis by (simp add: exponent_len_def)
next
  case False
  then obtain sg ds where x: "sg \<in> {CHR ''+'', CHR ''-''}" "digits ds" "ex = CHR ''e'' # sg # ds"
    using assms(1) by (auto simp: exponent_text_def)
  have "takeWhile isdigit (ds @ r) = ds" using x(2) assms(2) by (intro takeWhile_digits)
  with x show ?thesis by (auto simp: exponent_len_def Let_def digits_def)
qed

lemma number_text_parts:
  assumes "number_text t"
  obtains sg ip fp ex where "t = sg @ ip @ fp @ ex" "sg = [] \<or> sg = ''-''" "digits ip" "fraction_text fp"
    "exponent_text ex" "peek ip = CHR ''0'' \<longrightarrow> length ip = 1 \<and> (fp = [] \<longrightarrow> ex = [])"
  using assms unfolding number_text_def by blast

lemma strtod_len_text:
  assumes "number_text t" "ends_number r"
  shows "strtod_len (t @ r) = length t"
proof -
  obtain sg ip fp ex where t: "t = sg @ ip @ fp @ ex" "sg = [] \<or> sg = ''-''" "digits ip" "fraction_text fp"
    "exponent_text ex" "peek ip = CHR ''0'' \<longrightarrow> length ip = 1 \<and> (fp = [] \<longrightarrow> ex = [])"
    using assms(1) by (rule number_text_parts)
  obtain c ip' where ip: "ip = c # ip'" "isdigit c" using t(3) by (cases ip) (auto simp: digits_def)
  have er: "\<not> isdigit (peek (ex @ r))" "peek (ex @ r) \<noteq> CHR ''.''"
    using t(5) assms(2) by (auto simp: exponent_text_def ends_number_def isdigit_chars)
  have m: "mantissa_len isdigit (ip @ fp @ ex @ r) = length ip + length fp"
    using mantissa_len_text [OF t(3,4) er] by simp
  have x: "exponent_len ''eE'' (ex @ r) = length ex"
    using exponent_len_text [OF t(5)] assms(2) by (simp add: ends_number_def)
  have nx: "\<not> (char_at (ip @ fp @ ex @ r) 0 = CHR ''0'' \<and> char_at (ip @ fp @ ex @ r) 1 \<in> {CHR ''x'', CHR ''X''})"
  proof
    assume a: "char_at (ip @ fp @ ex @ r) 0 = CHR ''0'' \<and> char_at (ip @ fp @ ex @ r) 1 \<in> {CHR ''x'', CHR ''X''}"
    then have "c = CHR ''0''" by (simp add: ip)
    then have "ip' = []" "fp = [] \<longrightarrow> ex = []" using t(6) by (simp_all add: ip)
    with a have "peek (fp @ ex @ r) \<in> {CHR ''x'', CHR ''X''}" by (simp add: ip char_at_def)
    with \<open>fp = [] \<longrightarrow> ex = []\<close> t(4) assms(2) show False
      by (cases "fp = []") (auto simp: ends_number_def fraction_text_def)
  qed
  have sg: "(if peek (t @ r) \<in> {CHR ''+'', CHR ''-''} then 1 else 0) = length sg"
    using t(2) ip by (auto simp: t(1) isdigit_chars)
  have d: "drop (length sg) (t @ r) = ip @ fp @ ex @ r" by (simp add: t(1))
  have d2: "drop (length ip + length fp) (ip @ fp @ ex @ r) = ex @ r" by simp
  show ?thesis
    unfolding strtod_len_def Let_def sg d m d2 if_not_P [OF nx] x
    using ip by (simp add: t(1))
qed

lemma no_x: "c \<in> set ds \<Longrightarrow> digits ds \<Longrightarrow> c \<noteq> CHR ''x'' \<and> c \<noteq> CHR ''X''"
  using isdigit_chars by (auto simp: digits_def)

lemma is_decimal_text:
  assumes "number_text t"
  shows "is_decimal (t @ r) (length t)"
proof -
  obtain sg ip fp ex where t: "t = sg @ ip @ fp @ ex" "sg = [] \<or> sg = ''-''" "digits ip" "fraction_text fp"
    "exponent_text ex" "peek ip = CHR ''0'' \<longrightarrow> length ip = 1 \<and> (fp = [] \<longrightarrow> ex = [])"
    using assms(1) by (rule number_text_parts)
  obtain c ip' where ip: "ip = c # ip'" "isdigit c" using t(3) by (cases ip) (auto simp: digits_def)
  have x: "\<forall>c \<in> set (take (length t) (t @ r)). c \<noteq> CHR ''x'' \<and> c \<noteq> CHR ''X''"
    using t(2,4,5) no_x [OF _ t(3)] by (auto simp: t(1) fraction_text_def exponent_text_def dest: no_x)
  have z: "ip' = [] \<and> (fp = [] \<longrightarrow> ex = []) \<and> (fp \<noteq> [] \<longrightarrow> peek (fp @ ex @ r) = CHR ''.'')" if "c = CHR ''0''"
    using t(6) that peek_fraction [OF t(4)] by (simp add: ip)
  show ?thesis
  proof (cases "sg = []")
    case True
    have "c \<noteq> CHR ''-''" using ip(2) isdigit_chars by auto
    with True x z show ?thesis
      by (cases "fp = []") (auto simp: is_decimal_def t(1) ip starts_with_def char_at_def)
  next
    case False
    with t(2) x z show ?thesis
      by (cases "fp = []") (auto simp: is_decimal_def t(1) ip starts_with_def char_at_def)
  qed
qed

end
