(* ===== verification/Json.thy ===== *)
theory Json
  imports JsonText
begin

text \<open>
  The values of \<^verbatim>\<open>Tema_3/parson.c\<close>, the serializer, and the recursive-descent parser. A value
  owns its children, so a tree stands for the pointers; memory allocation is taken to succeed.
  Numbers are a type parameter, with their text in a \<open>numlib\<close>.
\<close>

section \<open>Values\<close>

datatype json_value_type =
  JSONError | JSONNull | JSONString | JSONNumber | JSONObject | JSONArray | JSONBoolean

datatype 'n json_value =
  VNull | VString string | VNumber 'n | VObject "(string \<times> 'n json_value) list"
  | VArray "'n json_value list" | VBoolean bool

fun json_value_get_type :: "'n json_value option \<Rightarrow> json_value_type" where
  "json_value_get_type None = JSONError"
| "json_value_get_type (Some VNull) = JSONNull"
| "json_value_get_type (Some (VString s)) = JSONString"
| "json_value_get_type (Some (VNumber x)) = JSONNumber"
| "json_value_get_type (Some (VObject ms)) = JSONObject"
| "json_value_get_type (Some (VArray xs)) = JSONArray"
| "json_value_get_type (Some (VBoolean b)) = JSONBoolean"

section \<open>The serializer\<close>

fun serialize :: "'n numlib \<Rightarrow> bool \<Rightarrow> bool \<Rightarrow> 'n json_value \<Rightarrow> nat \<Rightarrow> writer"
  and serialize_items :: "'n numlib \<Rightarrow> bool \<Rightarrow> bool \<Rightarrow> 'n json_value list \<Rightarrow> nat \<Rightarrow> writer"
  and serialize_members :: "'n numlib \<Rightarrow> bool \<Rightarrow> bool \<Rightarrow> (string \<times> 'n json_value) list \<Rightarrow> nat \<Rightarrow> writer" where
  "serialize L esc is_pretty (VArray xs) level =
     and_then (append_string ''['')
    (and_then (if xs \<noteq> [] \<and> is_pretty then append_string ''\<newline>'' else no_write)
    (and_then (serialize_items L esc is_pretty xs level)
    (and_then (if xs \<noteq> [] \<and> is_pretty then append_indent level else no_write)
              (append_string '']''))))"
| "serialize L esc is_pretty (VObject ms) level =
     and_then (append_string ''{'')
    (and_then (if ms \<noteq> [] \<and> is_pretty then append_string ''\<newline>'' else no_write)
    (and_then (serialize_members L esc is_pretty ms level)
    (and_then (if ms \<noteq> [] \<and> is_pretty then append_indent level else no_write)
              (append_string ''}''))))"
| "serialize L esc is_pretty (VString s) level = json_serialize_string esc s"
| "serialize L esc is_pretty (VBoolean b) level = append_string (if b then ''true'' else ''false'')"
| "serialize L esc is_pretty (VNumber x) level = append_string (num_text L x)"
| "serialize L esc is_pretty VNull level = append_string ''null''"
| "serialize_items L esc is_pretty [] level = no_write"
| "serialize_items L esc is_pretty (x # xs) level =
     and_then (if is_pretty then append_indent (level + 1) else no_write)
    (and_then (serialize L esc is_pretty x (level + 1))
    (and_then (if xs \<noteq> [] then append_string '','' else no_write)
    (and_then (if is_pretty then append_string ''\<newline>'' else no_write)
              (serialize_items L esc is_pretty xs level))))"
| "serialize_members L esc is_pretty [] level = no_write"
| "serialize_members L esc is_pretty (m # ms) level =
     and_then (if is_pretty then append_indent (level + 1) else no_write)
    (and_then (json_serialize_string esc (fst m))
    (and_then (append_string '':'')
    (and_then (if is_pretty then append_string '' '' else no_write)
    (and_then (serialize L esc is_pretty (snd m) (level + 1))
    (and_then (if ms \<noteq> [] then append_string '','' else no_write)
    (and_then (if is_pretty then append_string ''\<newline>'' else no_write)
              (serialize_members L esc is_pretty ms level)))))))"

text \<open>A null value is the only one that is not serialized: the result \<open>-1\<close>.\<close>

definition json_serialize_to_buffer_r ::
    "'n numlib \<Rightarrow> bool \<Rightarrow> 'n json_value option \<Rightarrow> string option \<Rightarrow> bool \<Rightarrow> (nat \<times> string option) option" where
  "json_serialize_to_buffer_r L esc value buf is_pretty =
     (case value of None \<Rightarrow> None | Some v \<Rightarrow> Some (serialize L esc is_pretty v 0 buf))"

definition json_serialization_size :: "'n numlib \<Rightarrow> bool \<Rightarrow> bool \<Rightarrow> 'n json_value option \<Rightarrow> nat" where
  "json_serialization_size L esc is_pretty value =
     (case json_serialize_to_buffer_r L esc value None is_pretty of None \<Rightarrow> 0 | Some (res, buf) \<Rightarrow> res + 1)"

text \<open>
  The buffer after a serialization into it: text the terminator follows. \<open>is_pretty\<close> selects
  the pretty-printing variant of each function.
\<close>

definition json_serialize_to_buffer ::
    "'n numlib \<Rightarrow> bool \<Rightarrow> bool \<Rightarrow> 'n json_value option \<Rightarrow> nat \<Rightarrow> string option" where
  "json_serialize_to_buffer L esc is_pretty value buf_size_in_bytes =
     (let needed_size_in_bytes = json_serialization_size L esc is_pretty value
      in if needed_size_in_bytes = 0 \<or> buf_size_in_bytes < needed_size_in_bytes then None
         else case json_serialize_to_buffer_r L esc value (Some []) is_pretty of
           None \<Rightarrow> None | Some (written, buf) \<Rightarrow> buf)"

definition json_serialize_to_string :: "'n numlib \<Rightarrow> bool \<Rightarrow> bool \<Rightarrow> 'n json_value option \<Rightarrow> string option" where
  "json_serialize_to_string L esc is_pretty value =
     (let buf_size_bytes = json_serialization_size L esc is_pretty value
      in if buf_size_bytes = 0 then None
         else json_serialize_to_buffer L esc is_pretty value buf_size_bytes)"

text \<open>The text of a value, and the serializer as a writer of it.\<close>

definition spaces :: "nat \<Rightarrow> string" where
  "spaces n = replicate (4 * n) (CHR '' '')"

fun json_text :: "'n numlib \<Rightarrow> bool \<Rightarrow> bool \<Rightarrow> nat \<Rightarrow> 'n json_value \<Rightarrow> string"
  and items_text :: "'n numlib \<Rightarrow> bool \<Rightarrow> bool \<Rightarrow> nat \<Rightarrow> 'n json_value list \<Rightarrow> string"
  and members_text :: "'n numlib \<Rightarrow> bool \<Rightarrow> bool \<Rightarrow> nat \<Rightarrow> (string \<times> 'n json_value) list \<Rightarrow> string" where
  "json_text L esc pr n (VArray xs) = ''['' @ (if xs \<noteq> [] \<and> pr then ''\<newline>'' else []) @ items_text L esc pr n xs @
     (if xs \<noteq> [] \<and> pr then spaces n else []) @ '']''"
| "json_text L esc pr n (VObject ms) = ''{'' @ (if ms \<noteq> [] \<and> pr then ''\<newline>'' else []) @ members_text L esc pr n ms @
     (if ms \<noteq> [] \<and> pr then spaces n else []) @ ''}''"
| "json_text L esc pr n (VString s) = quoted esc s"
| "json_text L esc pr n (VBoolean b) = (if b then ''true'' else ''false'')"
| "json_text L esc pr n (VNumber x) = num_text L x"
| "json_text L esc pr n VNull = ''null''"
| "items_text L esc pr n [] = []"
| "items_text L esc pr n (x # xs) = (if pr then spaces (n + 1) else []) @ json_text L esc pr (n + 1) x @
     (if xs \<noteq> [] then '','' else []) @ (if pr then ''\<newline>'' else []) @ items_text L esc pr n xs"
| "members_text L esc pr n [] = []"
| "members_text L esc pr n (m # ms) = (if pr then spaces (n + 1) else []) @ quoted esc (fst m) @ '':'' @
     (if pr then '' '' else []) @ json_text L esc pr (n + 1) (snd m) @
     (if ms \<noteq> [] then '','' else []) @ (if pr then ''\<newline>'' else []) @ members_text L esc pr n ms"

lemma serialize_eq:
  "serialize L esc pr v n = append_string (json_text L esc pr n v)"
  "serialize_items L esc pr xs n = append_string (items_text L esc pr n xs)"
  "serialize_members L esc pr ms n = append_string (members_text L esc pr n ms)"
  by (induction L esc pr v n and L esc pr xs n and L esc pr ms n
      rule: serialize_serialize_items_serialize_members.induct)
    (simp_all add: no_write_eq append_indent_eq json_serialize_string_eq spaces_def)

lemma json_serialization_size_eq:
  "json_serialization_size L esc pr (Some v) = length (json_text L esc pr 0 v) + 1"
  by (simp add: json_serialization_size_def json_serialize_to_buffer_r_def serialize_eq append_string_def)

lemma json_serialize_to_buffer_eq:
  "json_serialize_to_buffer L esc pr (Some v) n =
     (if length (json_text L esc pr 0 v) < n then Some (json_text L esc pr 0 v) else None)"
  by (simp add: json_serialize_to_buffer_def json_serialization_size_eq json_serialize_to_buffer_r_def
      serialize_eq append_string_def)

lemma json_serialize_to_string_eq:
  "json_serialize_to_string L esc pr (Some v) = Some (json_text L esc pr 0 v)"
  by (simp add: json_serialize_to_string_def json_serialize_to_buffer_eq json_serialization_size_eq)

section \<open>The parser\<close>

text \<open>
  The parser is written with fuel, one unit per level of nesting; \<open>NoFuel\<close> is a result of its own and is
  shown never to occur from the entry point.
\<close>

datatype 'a parsed = NoFuel | Failed | Parsed 'a string

definition MAX_NESTING :: nat where "MAX_NESTING = 2048"

definition json_value_init_number :: "'n numlib \<Rightarrow> 'n \<Rightarrow> 'n json_value option" where
  "json_value_init_number L x = (if num_invalid L x then None else Some (VNumber x))"

definition parse_string_value :: "string \<Rightarrow> 'n json_value parsed" where
  "parse_string_value s =
     (case get_quoted_string s of None \<Rightarrow> Failed | Some (str, s) \<Rightarrow> Parsed (VString str) s)"

definition parse_boolean_value :: "string \<Rightarrow> 'n json_value parsed" where
  "parse_boolean_value s =
     (if starts_with ''true'' s then Parsed (VBoolean True) (drop 4 s)
      else if starts_with ''false'' s then Parsed (VBoolean False) (drop 5 s) else Failed)"

definition parse_number_value :: "'n numlib \<Rightarrow> string \<Rightarrow> 'n json_value parsed" where
  "parse_number_value L s =
     (let n = strtod_len s; tok = take n s
      in if num_errno L tok \<or> \<not> is_decimal s n then Failed
         else case json_value_init_number L (num_value L tok) of
           None \<Rightarrow> Failed | Some v \<Rightarrow> Parsed v (drop n s))"

definition parse_null_value :: "string \<Rightarrow> 'n json_value parsed" where
  "parse_null_value s = (if starts_with ''null'' s then Parsed VNull (drop 4 s) else Failed)"

text \<open>A member is added unless its name is there already.\<close>

definition add_member :: "(string \<times> 'v) list \<Rightarrow> string \<Rightarrow> 'v \<Rightarrow> (string \<times> 'v) list option" where
  "add_member ms name v = (if name \<in> fst ` set ms then None else Some (ms @ [(name, v)]))"

text \<open>The end of both loops: the closing bracket after more white space.\<close>

definition parse_end :: "char \<Rightarrow> 'a \<Rightarrow> string \<Rightarrow> 'a parsed" where
  "parse_end close v s =
     (let s = skip_whitespaces s in if peek s \<noteq> close then Failed else Parsed v (drop 1 s))"

text \<open>
  The two loops and their functions take the parser of values, with its fuel, as an argument;
  \<open>f\<close> bounds the rounds of the loop.
\<close>

type_synonym 'n value_parser = "string \<Rightarrow> nat \<Rightarrow> 'n json_value parsed"

fun parse_members :: "'n value_parser \<Rightarrow> nat \<Rightarrow> (string \<times> 'n json_value) list \<Rightarrow> string \<Rightarrow> nat \<Rightarrow> 'n json_value parsed" where
  "parse_members pv 0 ms s nesting = NoFuel"
| "parse_members pv (Suc f) ms s nesting =
     (if s = [] then parse_end CHR ''}'' (VObject ms) s
      else case get_quoted_string s of None \<Rightarrow> Failed
        | Some (key, s) \<Rightarrow>
            if NUL \<in> set key then Failed
            else let s = skip_whitespaces s
              in if peek s \<noteq> CHR '':'' then Failed
                 else case pv (drop 1 s) nesting of
                   NoFuel \<Rightarrow> NoFuel | Failed \<Rightarrow> Failed
                 | Parsed v s \<Rightarrow>
                     (case add_member ms key v of None \<Rightarrow> Failed
                      | Some ms \<Rightarrow>
                          let s = skip_whitespaces s
                          in if peek s \<noteq> CHR '','' then parse_end CHR ''}'' (VObject ms) s
                             else parse_members pv f ms (skip_whitespaces (drop 1 s)) nesting))"

fun parse_items :: "'n value_parser \<Rightarrow> nat \<Rightarrow> 'n json_value list \<Rightarrow> string \<Rightarrow> nat \<Rightarrow> 'n json_value parsed" where
  "parse_items pv 0 xs s nesting = NoFuel"
| "parse_items pv (Suc f) xs s nesting =
     (if s = [] then parse_end CHR '']'' (VArray xs) s
      else case pv s nesting of
        NoFuel \<Rightarrow> NoFuel | Failed \<Rightarrow> Failed
      | Parsed v s \<Rightarrow>
          let s = skip_whitespaces s
          in if peek s \<noteq> CHR '','' then parse_end CHR '']'' (VArray (xs @ [v])) s
             else parse_items pv f (xs @ [v]) (skip_whitespaces (drop 1 s)) nesting)"

definition parse_object_value :: "'n value_parser \<Rightarrow> nat \<Rightarrow> string \<Rightarrow> nat \<Rightarrow> 'n json_value parsed" where
  "parse_object_value pv f s nesting =
     (if peek s \<noteq> CHR ''{'' then Failed
      else let s = skip_whitespaces (drop 1 s)
        in if peek s = CHR ''}'' then Parsed (VObject []) (drop 1 s)
           else parse_members pv f [] s nesting)"

definition parse_array_value :: "'n value_parser \<Rightarrow> nat \<Rightarrow> string \<Rightarrow> nat \<Rightarrow> 'n json_value parsed" where
  "parse_array_value pv f s nesting =
     (if peek s \<noteq> CHR ''['' then Failed
      else let s = skip_whitespaces (drop 1 s)
        in if peek s = CHR '']'' then Parsed (VArray []) (drop 1 s)
           else parse_items pv f [] s nesting)"

fun parse_value :: "'n numlib \<Rightarrow> nat \<Rightarrow> 'n value_parser" where
  "parse_value L 0 s nesting = NoFuel"
| "parse_value L (Suc f) s nesting =
     (if nesting > MAX_NESTING then Failed
      else let s = skip_whitespaces s; c = peek s
        in if c = CHR ''{'' then parse_object_value (parse_value L f) f s (nesting + 1)
           else if c = CHR ''['' then parse_array_value (parse_value L f) f s (nesting + 1)
           else if c = DQUOTE then parse_string_value s
           else if c = CHR ''f'' \<or> c = CHR ''t'' then parse_boolean_value s
           else if c = CHR ''-'' \<or> isdigit c then parse_number_value L s
           else if c = CHR ''n'' then parse_null_value s
           else Failed)"

text \<open>Enough fuel for a text: one unit per character and one more.\<close>

definition fuel_for :: "string \<Rightarrow> nat" where
  "fuel_for s = length s + 1"

definition json_parse_string :: "'n numlib \<Rightarrow> string option \<Rightarrow> 'n json_value parsed" where
  "json_parse_string L str =
     (case str of None \<Rightarrow> Failed
      | Some s \<Rightarrow>
          let s = (if char_at s 0 = CHR 0xEF \<and> char_at s 1 = CHR 0xBB \<and> char_at s 2 = CHR 0xBF
                   then drop 3 s else s)
          in parse_value L (fuel_for s) s 0)"

end
