(* ===== verification/JsonObject.thy ===== *)
theory JsonObject
  imports Json "HOL-Library.Multiset"
begin

text \<open>
  Objects and arrays of \<^verbatim>\<open>Tema_3/parson.c\<close> as the code keeps them: parallel arrays of names and
  values with a capacity, slots past the count holding nothing. Every access names its slot and
  fails outside the array. The contract is that of a map from names to values.
\<close>

section \<open>Slots\<close>

text \<open>\<open>None\<close> is a slot \<open>malloc\<close> returned and nothing was stored in yet.\<close>

definition read_slot :: "'a option list \<Rightarrow> nat \<Rightarrow> 'a c_result" where
  "read_slot xs i =
     (if i < length xs then case xs ! i of None \<Rightarrow> Inl BadPointer | Some x \<Rightarrow> Inr x else Inl OutOfBounds)"

definition write_slot :: "'a option list \<Rightarrow> nat \<Rightarrow> 'a \<Rightarrow> 'a option list c_result" where
  "write_slot xs i x = (if i < length xs then Inr (xs[i := Some x]) else Inl OutOfBounds)"

text \<open>\<open>malloc\<close> of \<open>n\<close> slots and \<open>memcpy\<close> of the first \<open>k\<close> of \<open>xs\<close> into them.\<close>

definition copy_slots :: "nat \<Rightarrow> nat \<Rightarrow> 'a option list \<Rightarrow> 'a option list c_result" where
  "copy_slots n k xs =
     (if k \<le> n \<and> k \<le> length xs then Inr (take k xs @ replicate (n - k) None) else Inl OutOfBounds)"

definition STARTING_CAPACITY :: nat where "STARTING_CAPACITY = 16"

section \<open>Objects\<close>

record 'v json_object =
  names :: "string option list"
  ovalues :: "'v option list"
  ocount :: nat
  ocapacity :: nat

definition json_object_init :: "'v json_object" where
  "json_object_init = \<lparr>names = [], ovalues = [], ocount = 0, ocapacity = 0\<rparr>"

text \<open>The loop over the names from index \<open>i\<close>, with \<open>k\<close> left: the index of \<open>name\<close>.\<close>

fun find_name :: "string option list \<Rightarrow> string \<Rightarrow> nat \<Rightarrow> nat \<Rightarrow> nat option c_result" where
  "find_name ns name i 0 = Inr None"
| "find_name ns name i (Suc k) =
     c_bind (read_slot ns i) (\<lambda>n.
       if length n \<noteq> length name then find_name ns name (Suc i) k
       else if n = name then Inr (Some i) else find_name ns name (Suc i) k)"

definition json_object_getn_value :: "'v json_object \<Rightarrow> string \<Rightarrow> 'v option c_result" where
  "json_object_getn_value obj name =
     c_bind (find_name (names obj) name 0 (ocount obj)) (\<lambda>i.
       case i of None \<Rightarrow> Inr None | Some i \<Rightarrow> c_bind (read_slot (ovalues obj) i) (\<lambda>v. Inr (Some v)))"

text \<open>A failure of the operation is \<open>None\<close>: the object is unchanged.\<close>

definition json_object_resize :: "'v json_object \<Rightarrow> nat \<Rightarrow> 'v json_object option c_result" where
  "json_object_resize obj new_capacity =
     (if new_capacity = 0 then Inr None
      else c_bind (copy_slots new_capacity (ocount obj) (names obj)) (\<lambda>ns.
           c_bind (copy_slots new_capacity (ocount obj) (ovalues obj)) (\<lambda>vs.
             Inr (Some (obj\<lparr>names := ns, ovalues := vs, ocapacity := new_capacity\<rparr>)))))"

definition json_object_addn :: "'v json_object \<Rightarrow> string \<Rightarrow> 'v \<Rightarrow> 'v json_object option c_result" where
  "json_object_addn obj name v =
     c_bind (json_object_getn_value obj name) (\<lambda>old.
       if old \<noteq> None then Inr None
       else c_bind (if ocount obj \<ge> ocapacity obj
                    then json_object_resize obj (max (ocapacity obj * 2) STARTING_CAPACITY)
                    else Inr (Some obj)) (\<lambda>res.
         case res of None \<Rightarrow> Inr None
         | Some obj \<Rightarrow>
             c_bind (write_slot (names obj) (ocount obj) name) (\<lambda>ns.
             c_bind (write_slot (ovalues obj) (ocount obj) v) (\<lambda>vs.
               Inr (Some (obj\<lparr>names := ns, ovalues := vs, ocount := ocount obj + 1\<rparr>))))))"

definition json_object_remove :: "'v json_object \<Rightarrow> string \<Rightarrow> 'v json_object option c_result" where
  "json_object_remove obj name =
     c_bind (find_name (names obj) name 0 (ocount obj)) (\<lambda>i.
       case i of None \<Rightarrow> Inr None
       | Some i \<Rightarrow>
           let last_item_index = ocount obj - 1
           in c_bind (if i \<noteq> last_item_index
                      then c_bind (read_slot (names obj) last_item_index) (\<lambda>n.
                           c_bind (read_slot (ovalues obj) last_item_index) (\<lambda>v.
                           c_bind (write_slot (names obj) i n) (\<lambda>ns.
                           c_bind (write_slot (ovalues obj) i v) (\<lambda>vs. Inr (ns, vs)))))
                      else Inr (names obj, ovalues obj)) (\<lambda>(ns, vs).
                Inr (Some (obj\<lparr>names := ns, ovalues := vs, ocount := ocount obj - 1\<rparr>))))"

text \<open>\<open>has_parent\<close>: the value given belongs to another container already.\<close>

definition json_object_set_value ::
    "'v json_object \<Rightarrow> string \<Rightarrow> bool \<Rightarrow> 'v \<Rightarrow> 'v json_object option c_result" where
  "json_object_set_value obj name has_parent v =
     (if has_parent then Inr None
      else c_bind (find_name (names obj) name 0 (ocount obj)) (\<lambda>i.
        case i of
          Some i \<Rightarrow> c_bind (write_slot (ovalues obj) i v) (\<lambda>vs. Inr (Some (obj\<lparr>ovalues := vs\<rparr>)))
        | None \<Rightarrow> json_object_addn obj name v))"

definition json_object_clear :: "'v json_object \<Rightarrow> 'v json_object" where
  "json_object_clear obj = obj\<lparr>ocount := 0\<rparr>"

definition json_object_get_name :: "'v json_object \<Rightarrow> nat \<Rightarrow> string option c_result" where
  "json_object_get_name obj index =
     (if index \<ge> ocount obj then Inr None else c_bind (read_slot (names obj) index) (\<lambda>n. Inr (Some n)))"

definition json_object_get_value_at :: "'v json_object \<Rightarrow> nat \<Rightarrow> 'v option c_result" where
  "json_object_get_value_at obj index =
     (if index \<ge> ocount obj then Inr None else c_bind (read_slot (ovalues obj) index) (\<lambda>v. Inr (Some v)))"

section \<open>The map an object stands for\<close>

text \<open>
  An object is well formed over a list of members: the first slots of both arrays hold them,
  and no name occurs twice.
\<close>

definition obj_rep :: "'v json_object \<Rightarrow> (string \<times> 'v) list \<Rightarrow> bool" where
  "obj_rep obj ms \<longleftrightarrow> ocount obj = length ms \<and> length (names obj) = ocapacity obj \<and>
     length (ovalues obj) = ocapacity obj \<and> length ms \<le> ocapacity obj \<and>
     take (length ms) (names obj) = map (Some \<circ> fst) ms \<and>
     take (length ms) (ovalues obj) = map (Some \<circ> snd) ms \<and> distinct (map fst ms)"

locale name_map =
  fixes rep :: "'m \<Rightarrow> ('k \<times> 'v) list \<Rightarrow> bool"
    and get :: "'m \<Rightarrow> 'k \<Rightarrow> 'v option c_result"
    and put :: "'m \<Rightarrow> 'k \<Rightarrow> 'v \<Rightarrow> 'm option c_result"
    and del :: "'m \<Rightarrow> 'k \<Rightarrow> 'm option c_result"
  assumes rep_distinct: "rep m kvs \<Longrightarrow> distinct (map fst kvs)"
    and rep_get: "rep m kvs \<Longrightarrow> get m k = Inr (map_of kvs k)"
    and rep_put: "rep m kvs \<Longrightarrow> \<exists>m' kvs'. put m k v = Inr (Some m') \<and> rep m' kvs' \<and> map_of kvs' = (map_of kvs)(k \<mapsto> v)"
    and rep_del: "rep m kvs \<Longrightarrow> if map_of kvs k = None then del m k = Inr None
      else \<exists>m' kvs'. del m k = Inr (Some m') \<and> rep m' kvs' \<and> map_of kvs' = (map_of kvs)(k := None)"
begin

text \<open>What a client sees: the usual laws, with no operation failing on a well-formed map.\<close>

lemma get_put: "rep m kvs \<Longrightarrow> \<exists>m' kvs'. put m k v = Inr (Some m') \<and> rep m' kvs' \<and>
    (\<forall>j. get m' j = (if j = k then Inr (Some v) else get m j))"
  using rep_put [of m kvs k v] by (fastforce simp: rep_get)

lemma get_del: "rep m kvs \<Longrightarrow> get m k = Inr (Some v) \<Longrightarrow> \<exists>m' kvs'. del m k = Inr (Some m') \<and> rep m' kvs' \<and>
    (\<forall>j. get m' j = (if j = k then Inr None else get m j))"
  using rep_del [of m kvs k] by (fastforce simp: rep_get)

lemma del_absent: "rep m kvs \<Longrightarrow> get m k = Inr None \<Longrightarrow> del m k = Inr None"
  using rep_del [of m kvs k] by (simp add: rep_get)

text \<open>A row of puts, as a client issues them, is the row of updates of the map.\<close>

fun puts :: "'m \<Rightarrow> ('k \<times> 'v) list \<Rightarrow> 'm option c_result" where
  "puts m [] = Inr (Some m)"
| "puts m (kv # kvs) = c_bind (put m (fst kv) (snd kv)) (\<lambda>r. case r of None \<Rightarrow> Inr None | Some m \<Rightarrow> puts m kvs)"

lemma puts_get: "rep m kvs \<Longrightarrow> \<exists>m'. puts m ps = Inr (Some m') \<and>
    (\<forall>j. get m' j = (case map_of (rev ps) j of Some v \<Rightarrow> Inr (Some v) | None \<Rightarrow> get m j))"
proof (induction ps arbitrary: m kvs)
  case (Cons p ps)
  from get_put [OF Cons.prems, of "fst p" "snd p"] obtain m1 kvs1 where m1: "put m (fst p) (snd p) = Inr (Some m1)"
    "rep m1 kvs1" "\<forall>j. get m1 j = (if j = fst p then Inr (Some (snd p)) else get m j)" by blast
  from Cons.IH [OF m1(2)] m1 show ?case
    by (auto simp: map_add_def split: option.split)
qed simp

end

section \<open>The code's objects are such a map\<close>

lemma obj_repD:
  assumes "obj_rep obj ms"
  shows "ocount obj = length ms" "length (names obj) = ocapacity obj" "length (ovalues obj) = ocapacity obj"
    "length ms \<le> ocapacity obj" "distinct (map fst ms)"
    "\<And>i. i < length ms \<Longrightarrow> names obj ! i = Some (fst (ms ! i))"
    "\<And>i. i < length ms \<Longrightarrow> ovalues obj ! i = Some (snd (ms ! i))"
proof -
  have n: "take (length ms) (names obj) ! i = Some (fst (ms ! i))"
    and v: "take (length ms) (ovalues obj) ! i = Some (snd (ms ! i))" if "i < length ms" for i
    using assms that by (simp_all add: obj_rep_def)
  show "\<And>i. i < length ms \<Longrightarrow> names obj ! i = Some (fst (ms ! i))"
    "\<And>i. i < length ms \<Longrightarrow> ovalues obj ! i = Some (snd (ms ! i))" using n v by simp_all
qed (use assms in \<open>simp_all add: obj_rep_def\<close>)

lemma obj_repI:
  assumes "ocount obj = length ms" "length (names obj) = ocapacity obj" "length (ovalues obj) = ocapacity obj"
    "length ms \<le> ocapacity obj" "distinct (map fst ms)"
    "\<And>i. i < length ms \<Longrightarrow> names obj ! i = Some (fst (ms ! i))"
    "\<And>i. i < length ms \<Longrightarrow> ovalues obj ! i = Some (snd (ms ! i))"
  shows "obj_rep obj ms"
  using assms by (auto simp: obj_rep_def intro: nth_equalityI)

lemma obj_rep_init: "obj_rep json_object_init []"
  by (simp add: obj_rep_def json_object_init_def)

lemma read_slot_rep:
  assumes "obj_rep obj ms" "i < length ms"
  shows "read_slot (names obj) i = Inr (fst (ms ! i))" "read_slot (ovalues obj) i = Inr (snd (ms ! i))"
  using obj_repD [OF assms(1)] assms(2) by (simp_all add: read_slot_def)

lemma find_name_rep:
  assumes "obj_rep obj ms"
  shows "i + k = length ms \<Longrightarrow>
    (\<exists>j. find_name (names obj) name i k = Inr (Some j) \<and> j < length ms \<and> fst (ms ! j) = name) \<or>
    find_name (names obj) name i k = Inr None \<and> (\<forall>j. i \<le> j \<longrightarrow> j < length ms \<longrightarrow> fst (ms ! j) \<noteq> name)"
proof (induction k arbitrary: i)
  case (Suc k)
  then have i: "i < length ms" by simp
  have step: "find_name (names obj) name i (Suc k) =
      (if fst (ms ! i) = name then Inr (Some i) else find_name (names obj) name (Suc i) k)"
    using read_slot_rep(1) [OF assms i] by auto
  show ?case
  proof (cases "fst (ms ! i) = name")
    case True
    with i show ?thesis unfolding step by auto
  next
    case False
    then have "(\<forall>j. Suc i \<le> j \<longrightarrow> j < length ms \<longrightarrow> fst (ms ! j) \<noteq> name) \<Longrightarrow>
        (\<forall>j. i \<le> j \<longrightarrow> j < length ms \<longrightarrow> fst (ms ! j) \<noteq> name)"
      by (metis Suc_leI le_neq_implies_less)
    with Suc.IH [of "Suc i"] Suc.prems False show ?thesis
      unfolding step by auto
  qed
qed simp

text \<open>The index found is that of the name in the map, or the name is in no member.\<close>

lemma find_name_cases:
  assumes "obj_rep obj ms"
  obtains (found) j where "find_name (names obj) name 0 (ocount obj) = Inr (Some j)" "j < length ms"
    "ms ! j = (name, snd (ms ! j))" "map_of ms name = Some (snd (ms ! j))"
  | (absent) "find_name (names obj) name 0 (ocount obj) = Inr None" "map_of ms name = None" "name \<notin> fst ` set ms"
proof -
  have c: "0 + ocount obj = length ms" using obj_repD(1) [OF assms] by simp
  from find_name_rep [OF assms c] show thesis
  proof
    assume "\<exists>j. find_name (names obj) name 0 (ocount obj) = Inr (Some j) \<and> j < length ms \<and> fst (ms ! j) = name"
    then obtain j where j: "find_name (names obj) name 0 (ocount obj) = Inr (Some j)" "j < length ms" "fst (ms ! j) = name"
      by blast
    then have "(name, snd (ms ! j)) \<in> set ms" by (metis nth_mem prod.collapse)
    with obj_repD(5) [OF assms] have "map_of ms name = Some (snd (ms ! j))" by (rule map_of_is_SomeI)
    with j show thesis by (intro found [of j]) (auto simp: prod_eq_iff)
  next
    assume a: "find_name (names obj) name 0 (ocount obj) = Inr None \<and> (\<forall>j. 0 \<le> j \<longrightarrow> j < length ms \<longrightarrow> fst (ms ! j) \<noteq> name)"
    have "name \<notin> fst ` set ms"
    proof
      assume "name \<in> fst ` set ms"
      then obtain m where "m \<in> set ms" "fst m = name" by auto
      with a show False by (auto simp: in_set_conv_nth)
    qed
    with a show thesis by (intro absent) (auto simp: map_of_eq_None_iff)
  qed
qed

lemma getn_rep: "obj_rep obj ms \<Longrightarrow> json_object_getn_value obj name = Inr (map_of ms name)"
  by (rule find_name_cases [of obj ms name]) (auto simp: json_object_getn_value_def read_slot_rep)

lemma resize_rep:
  assumes "obj_rep obj ms" "length ms \<le> n" "n \<noteq> 0"
  shows "\<exists>obj'. json_object_resize obj n = Inr (Some obj') \<and> obj_rep obj' ms \<and> ocapacity obj' = n"
proof -
  let ?ns = "take (length ms) (names obj) @ replicate (n - length ms) None"
  let ?vs = "take (length ms) (ovalues obj) @ replicate (n - length ms) None"
  note r = obj_repD [OF assms(1)]
  have "json_object_resize obj n = Inr (Some (obj\<lparr>names := ?ns, ovalues := ?vs, ocapacity := n\<rparr>))"
    using assms(2,3) r(1-4) by (simp add: json_object_resize_def copy_slots_def)
  moreover have "obj_rep (obj\<lparr>names := ?ns, ovalues := ?vs, ocapacity := n\<rparr>) ms"
    using assms(2) r by (intro obj_repI) (simp_all add: nth_append)
  ultimately show ?thesis by (intro exI) auto
qed

lemma addn_rep:
  assumes "obj_rep obj ms"
  shows "if name \<in> fst ` set ms then json_object_addn obj name v = Inr None
    else \<exists>obj'. json_object_addn obj name v = Inr (Some obj') \<and> obj_rep obj' (ms @ [(name, v)])"
proof (cases "name \<in> fst ` set ms")
  case True
  then have "map_of ms name \<noteq> None" by (simp add: map_of_eq_None_iff)
  with True show ?thesis by (simp add: json_object_addn_def getn_rep [OF assms])
next
  case False
  then have none: "map_of ms name = None" by (simp add: map_of_eq_None_iff)
  let ?grow = "if ocount obj \<ge> ocapacity obj then json_object_resize obj (max (ocapacity obj * 2) STARTING_CAPACITY)
    else Inr (Some obj)"
  obtain o1 where o1: "?grow = Inr (Some o1)" "obj_rep o1 ms" "length ms < ocapacity o1"
  proof (cases "ocount obj \<ge> ocapacity obj")
    case True
    have "length ms = ocapacity obj" using True obj_repD [OF assms] by simp
    then have "length ms < max (ocapacity obj * 2) STARTING_CAPACITY"
      by (simp add: STARTING_CAPACITY_def less_max_iff_disj) linarith
    with resize_rep [OF assms, of "max (ocapacity obj * 2) STARTING_CAPACITY"] True that show thesis by fastforce
  next
    case nfull: False
    with assms obj_repD(1) [OF assms] that show thesis by simp
  qed
  note r = obj_repD [OF o1(2)]
  let ?o = "o1\<lparr>names := (names o1)[length ms := Some name], ovalues := (ovalues o1)[length ms := Some v],
     ocount := length ms + 1\<rparr>"
  have "json_object_addn obj name v = Inr (Some ?o)"
    unfolding json_object_addn_def getn_rep [OF assms] none c_bind_Inr o1(1)
    using r(1-3) o1(3) by (simp add: write_slot_def)
  moreover have "obj_rep ?o (ms @ [(name, v)])"
    using r o1(3) False by (intro obj_repI) (auto simp: nth_append less_Suc_eq)
  ultimately show ?thesis using False by auto
qed

lemma set_value_rep:
  assumes "obj_rep obj ms"
  shows "\<exists>obj' ms'. json_object_set_value obj name False v = Inr (Some obj') \<and> obj_rep obj' ms' \<and>
    map_of ms' = (map_of ms)(name \<mapsto> v) \<and>
    map fst ms' = (if name \<in> fst ` set ms then map fst ms else map fst ms @ [name])"
proof (rule find_name_cases [OF assms, of name])
  fix j
  assume j: "find_name (names obj) name 0 (ocount obj) = Inr (Some j)" "j < length ms"
    "ms ! j = (name, snd (ms ! j))" "map_of ms name = Some (snd (ms ! j))"
  note r = obj_repD [OF assms]
  let ?o = "obj\<lparr>ovalues := (ovalues obj)[j := Some v]\<rparr>" and ?ms = "ms[j := (name, v)]"
  have keys: "map fst ?ms = map fst ms"
    using j(2,3) by (metis fst_conv list_update_id map_update)
  have fj: "fst (ms ! j) = name" using j(3) by (metis fst_conv)
  have "json_object_set_value obj name False v = Inr (Some ?o)"
    using j(1,2) r(3,4) by (simp add: json_object_set_value_def write_slot_def)
  moreover have "obj_rep ?o ?ms"
    using r j(2) fj keys by (intro obj_repI) (auto simp: nth_list_update)
  moreover have "map_of ?ms = (map_of ms)(name \<mapsto> v)"
  proof
    fix k
    have d: "distinct (map fst ?ms)" "distinct (map fst ms)" using keys r(5) by simp_all
    show "map_of ?ms k = ((map_of ms)(name \<mapsto> v)) k"
    proof (cases "k = name")
      case True
      have "(name, v) \<in> set ?ms" using j(2) by (rule set_update_memI)
      with d(1) True show ?thesis by simp
    next
      case False
      have "(k, x) \<in> set ?ms \<longleftrightarrow> (k, x) \<in> set ms" for x
        using False j(2,3) by (auto simp: in_set_conv_nth nth_list_update) (metis prod.inject)+
      then have "map_of ?ms k = map_of ms k"
        using d by (metis map_of_eq_Some_iff option.exhaust)
      with False show ?thesis by simp
    qed
  qed
  moreover have "name \<in> fst ` set ms" using j(2,3) by (metis fst_conv imageI nth_mem)
  ultimately show ?thesis using keys by auto
next
  assume a: "find_name (names obj) name 0 (ocount obj) = Inr None" "map_of ms name = None" "name \<notin> fst ` set ms"
  obtain obj' where o: "json_object_addn obj name v = Inr (Some obj')" "obj_rep obj' (ms @ [(name, v)])"
    using addn_rep [OF assms, of name v] a(3) by auto
  have "map_of (ms @ [(name, v)]) = (map_of ms)(name \<mapsto> v)"
    using a(2) by (auto simp: map_add_def split: option.split)
  with a o show ?thesis
    by (intro exI [of _ obj'] exI [of _ "ms @ [(name, v)]"]) (simp add: json_object_set_value_def)
qed

text \<open>Removal moves the last member into the place of the removed one.\<close>

definition swap_remove :: "nat \<Rightarrow> 'a list \<Rightarrow> 'a list" where
  "swap_remove j xs = butlast (xs[j := last xs])"

lemma swap_remove_mset: "j < length xs \<Longrightarrow> add_mset (xs ! j) (mset (swap_remove j xs)) = mset xs"
proof -
  assume j: "j < length xs"
  obtain ys z where xs: "xs = ys @ [z]" using j by (cases xs rule: rev_cases) auto
  show ?thesis
  proof (cases "j = length ys")
    case True
    then show ?thesis by (simp add: swap_remove_def xs)
  next
    case False
    then have l: "j < length ys" using j by (simp add: xs)
    then have "swap_remove j xs = ys[j := z]" by (simp add: swap_remove_def xs list_update_append)
    moreover have "add_mset (ys ! j) (mset (ys[j := z])) = add_mset z (mset ys)"
      using l by (simp add: mset_update)
    ultimately show ?thesis using l by (simp add: xs nth_append)
  qed
qed

lemma remove_member:
  assumes "distinct (map fst ms)" "j < length ms" "ms ! j = (name, v)"
  shows "distinct (map fst (swap_remove j ms)) \<and> map_of (swap_remove j ms) = (map_of ms)(name := None)"
proof -
  let ?r = "swap_remove j ms"
  have m: "mset ms = add_mset (name, v) (mset ?r)"
    using swap_remove_mset [OF assms(2)] assms(3) by simp
  then have "mset (map fst ms) = mset (name # map fst ?r)"
    by (metis fst_conv image_mset_add_mset mset.simps(2) mset_map)
  then have d: "distinct (name # map fst ?r)" using assms(1) by (metis mset_eq_imp_distinct_iff)
  have "mset ms = mset ((name, v) # ?r)" using m by simp
  then have "set ms = set ((name, v) # ?r)" by (rule mset_eq_setD)
  moreover have "distinct (map fst ((name, v) # ?r))" using d by simp
  ultimately have "map_of ms = map_of ((name, v) # ?r)"
    using assms(1) map_of_inject_set by blast
  moreover have "map_of ?r name = None" using d by (simp add: map_of_eq_None_iff)
  ultimately show ?thesis using d by auto
qed

lemma remove_rep:
  assumes "obj_rep obj ms"
  shows "if map_of ms name = None then json_object_remove obj name = Inr None
    else \<exists>obj' ms'. json_object_remove obj name = Inr (Some obj') \<and> obj_rep obj' ms' \<and>
      map_of ms' = (map_of ms)(name := None)"
proof (rule find_name_cases [OF assms, of name])
  fix j
  assume j: "find_name (names obj) name 0 (ocount obj) = Inr (Some j)" "j < length ms"
    "ms ! j = (name, snd (ms ! j))" "map_of ms name = Some (snd (ms ! j))"
  note r = obj_repD [OF assms]
  let ?k = "length ms - 1" and ?r = "swap_remove j ms"
  have k: "?k < length ms" using j(2) by simp
  let ?o = "obj\<lparr>names := (names obj)[j := Some (fst (ms ! ?k))], ovalues := (ovalues obj)[j := Some (snd (ms ! ?k))],
     ocount := ?k\<rparr>"
  have same: "xs[j := xs ! j] = xs" for xs :: "'b list" by simp
  have last: "last ms = ms ! ?k" using j(2) by (intro last_conv_nth) auto
  have "json_object_remove obj name = Inr (Some ?o)"
  proof (cases "j = ?k")
    case True
    then have "(names obj)[j := Some (fst (ms ! ?k))] = names obj" "(ovalues obj)[j := Some (snd (ms ! ?k))] = ovalues obj"
      using r(6,7) [OF j(2)] by (metis list_update_id)+
    with True j(1) r(1) show ?thesis by (simp add: json_object_remove_def Let_def)
  next
    case False
    with j(1,2) r(1-4) read_slot_rep [OF assms k] show ?thesis
      by (simp add: json_object_remove_def Let_def write_slot_def)
  qed
  moreover have "obj_rep ?o ?r"
    using r j(2) remove_member [OF r(5) j(2,3)]
    by (intro obj_repI) (auto simp: swap_remove_def last nth_butlast nth_list_update)
  ultimately show ?thesis
    using j(4) remove_member [OF r(5) j(2,3)] by auto
qed (simp add: json_object_remove_def)

interpretation jo: name_map obj_rep json_object_getn_value "\<lambda>obj name v. json_object_set_value obj name False v"
    json_object_remove
proof unfold_locales
  fix obj :: "'v json_object" and ms name v
  assume m: "obj_rep obj ms"
  show "distinct (map fst ms)" using m by (rule obj_repD)
  show "json_object_getn_value obj name = Inr (map_of ms name)" using m by (rule getn_rep)
  show "\<exists>m' kvs'. json_object_set_value obj name False v = Inr (Some m') \<and> obj_rep m' kvs' \<and> map_of kvs' = (map_of ms)(name \<mapsto> v)"
    using set_value_rep [OF m, of name v] by blast
  show "if map_of ms name = None then json_object_remove obj name = Inr None
      else \<exists>m' kvs'. json_object_remove obj name = Inr (Some m') \<and> obj_rep m' kvs' \<and> map_of kvs' = (map_of ms)(name := None)"
    using m by (rule remove_rep)
qed

section \<open>Arrays\<close>

record 'v json_array =
  items :: "'v option list"
  acount :: nat
  acapacity :: nat

definition json_array_init :: "'v json_array" where
  "json_array_init = \<lparr>items = [], acount = 0, acapacity = 0\<rparr>"

definition json_array_resize :: "'v json_array \<Rightarrow> nat \<Rightarrow> 'v json_array option c_result" where
  "json_array_resize arr new_capacity =
     (if new_capacity = 0 then Inr None
      else c_bind (copy_slots new_capacity (acount arr) (items arr)) (\<lambda>xs.
        Inr (Some (arr\<lparr>items := xs, acapacity := new_capacity\<rparr>))))"

definition json_array_add :: "'v json_array \<Rightarrow> 'v \<Rightarrow> 'v json_array option c_result" where
  "json_array_add arr v =
     c_bind (if acount arr \<ge> acapacity arr
             then json_array_resize arr (max (acapacity arr * 2) STARTING_CAPACITY)
             else Inr (Some arr)) (\<lambda>res.
       case res of None \<Rightarrow> Inr None
       | Some arr \<Rightarrow> c_bind (write_slot (items arr) (acount arr) v) (\<lambda>xs.
           Inr (Some (arr\<lparr>items := xs, acount := acount arr + 1\<rparr>))))"

definition json_array_get_value :: "'v json_array \<Rightarrow> nat \<Rightarrow> 'v option c_result" where
  "json_array_get_value arr index =
     (if index \<ge> acount arr then Inr None else c_bind (read_slot (items arr) index) (\<lambda>v. Inr (Some v)))"

text \<open>\<open>memmove\<close> of the \<open>k\<close> slots after \<open>ix\<close> one place down.\<close>

definition move_down :: "'a option list \<Rightarrow> nat \<Rightarrow> nat \<Rightarrow> 'a option list c_result" where
  "move_down xs ix k =
     (if ix + 1 + k \<le> length xs
      then Inr (take ix xs @ take k (drop (ix + 1) xs) @ drop (ix + k) xs) else Inl OutOfBounds)"

definition json_array_remove :: "'v json_array \<Rightarrow> nat \<Rightarrow> 'v json_array option c_result" where
  "json_array_remove arr ix =
     (if ix \<ge> acount arr then Inr None
      else c_bind (move_down (items arr) ix (acount arr - 1 - ix)) (\<lambda>xs.
        Inr (Some (arr\<lparr>items := xs, acount := acount arr - 1\<rparr>))))"

definition json_array_replace_value :: "'v json_array \<Rightarrow> nat \<Rightarrow> bool \<Rightarrow> 'v \<Rightarrow> 'v json_array option c_result" where
  "json_array_replace_value arr ix has_parent v =
     (if has_parent \<or> ix \<ge> acount arr then Inr None
      else c_bind (write_slot (items arr) ix v) (\<lambda>xs. Inr (Some (arr\<lparr>items := xs\<rparr>))))"

definition json_array_append_value :: "'v json_array \<Rightarrow> bool \<Rightarrow> 'v \<Rightarrow> 'v json_array option c_result" where
  "json_array_append_value arr has_parent v = (if has_parent then Inr None else json_array_add arr v)"

definition json_array_clear :: "'v json_array \<Rightarrow> 'v json_array" where
  "json_array_clear arr = arr\<lparr>acount := 0\<rparr>"

text \<open>The list an array stands for.\<close>

definition arr_rep :: "'v json_array \<Rightarrow> 'v list \<Rightarrow> bool" where
  "arr_rep arr xs \<longleftrightarrow> acount arr = length xs \<and> length (items arr) = acapacity arr \<and>
     length xs \<le> acapacity arr \<and> take (length xs) (items arr) = map Some xs"

lemma arr_rep_init: "arr_rep json_array_init []"
  by (simp add: arr_rep_def json_array_init_def)

lemma arr_resize_rep:
  "arr_rep arr xs \<Longrightarrow> length xs \<le> n \<Longrightarrow> n \<noteq> 0 \<Longrightarrow>
   \<exists>arr'. json_array_resize arr n = Inr (Some arr') \<and> arr_rep arr' xs \<and> acapacity arr' = n"
  by (auto simp: json_array_resize_def copy_slots_def arr_rep_def)

lemma arr_get_rep:
  assumes "arr_rep arr xs"
  shows "json_array_get_value arr i = Inr (if i < length xs then Some (xs ! i) else None)"
proof (cases "i < length xs")
  case True
  then have "items arr ! i = Some (xs ! i)"
    using assms by (metis arr_rep_def length_map nth_map nth_take)
  with True assms show ?thesis by (simp add: json_array_get_value_def arr_rep_def read_slot_def)
next
  case False
  with assms show ?thesis by (simp add: json_array_get_value_def arr_rep_def)
qed

lemma arr_add_rep:
  assumes "arr_rep arr xs"
  shows "\<exists>arr'. json_array_add arr v = Inr (Some arr') \<and> arr_rep arr' (xs @ [v])"
proof -
  let ?grow = "if acount arr \<ge> acapacity arr then json_array_resize arr (max (acapacity arr * 2) STARTING_CAPACITY)
    else Inr (Some arr)"
  obtain a where a: "?grow = Inr (Some a)" "arr_rep a xs" "length xs < acapacity a"
  proof (cases "acount arr \<ge> acapacity arr")
    case True
    have "length xs = acapacity arr" using True assms by (simp add: arr_rep_def)
    then have "length xs < max (acapacity arr * 2) STARTING_CAPACITY"
      by (simp add: STARTING_CAPACITY_def less_max_iff_disj) linarith
    with arr_resize_rep [OF assms, of "max (acapacity arr * 2) STARTING_CAPACITY"] True that show thesis by fastforce
  next
    case False
    with assms that show thesis by (simp add: arr_rep_def)
  qed
  let ?a = "a\<lparr>items := (items a)[length xs := Some v], acount := length xs + 1\<rparr>"
  have "json_array_add arr v = Inr (Some ?a)"
    unfolding json_array_add_def a(1) using a(2,3) by (simp add: arr_rep_def write_slot_def)
  moreover have "arr_rep ?a (xs @ [v])"
    using a(2,3) by (simp add: arr_rep_def take_Suc_conv_app_nth)
  ultimately show ?thesis by blast
qed

lemma arr_remove_rep:
  assumes "arr_rep arr xs"
  shows "if i < length xs then \<exists>arr'. json_array_remove arr i = Inr (Some arr') \<and> arr_rep arr' (take i xs @ drop (Suc i) xs)
    else json_array_remove arr i = Inr None"
proof (cases "i < length xs")
  case True
  let ?k = "length xs - 1 - i"
  let ?its = "take i (items arr) @ take ?k (drop (i + 1) (items arr)) @ drop (i + ?k) (items arr)"
  have c: "acount arr = length xs" "length (items arr) = acapacity arr" "length xs \<le> acapacity arr"
    "take (length xs) (items arr) = map Some xs" using assms by (simp_all add: arr_rep_def)
  have "json_array_remove arr i = Inr (Some (arr\<lparr>items := ?its, acount := length xs - 1\<rparr>))"
    using True c by (simp add: json_array_remove_def move_down_def)
  moreover have "arr_rep (arr\<lparr>items := ?its, acount := length xs - 1\<rparr>) (take i xs @ drop (Suc i) xs)"
  proof -
    have t: "take i (items arr) = map Some (take i xs)"
      using c(4) True by (metis min.absorb1 less_imp_le take_map take_take)
    have "take (length xs - Suc i) (drop (Suc i) (items arr)) = drop (Suc i) (take (length xs) (items arr))"
      using True by (simp add: drop_take)
    then have d: "take (length xs - Suc i) (drop (Suc i) (items arr)) = map Some (drop (Suc i) xs)" by (simp add: c(4) drop_map)
    show ?thesis
      unfolding arr_rep_def using True c(1-3) by (simp add: t d)
  qed
  ultimately show ?thesis using True by auto
next
  case False
  with assms show ?thesis by (simp add: json_array_remove_def arr_rep_def)
qed

lemma arr_replace_rep:
  assumes "arr_rep arr xs"
  shows "if i < length xs then \<exists>arr'. json_array_replace_value arr i False v = Inr (Some arr') \<and> arr_rep arr' (xs[i := v])
    else json_array_replace_value arr i False v = Inr None"
  using assms by (auto simp: json_array_replace_value_def arr_rep_def write_slot_def map_update take_update_swap)

end
