(* ===== verification/JsonRoundtrip.thy ===== *)
theory JsonRoundtrip
  imports Json
begin

text \<open>
  The parser of \<^verbatim>\<open>Tema_3/parson.c\<close> ends, consumes its input, and reads back what the serializer
  writes.
\<close>

section \<open>Consumption\<close>

definition consumes :: "'n value_parser \<Rightarrow> bool" where
  "consumes pv \<longleftrightarrow> (\<forall>s n v r. pv s n = Parsed v r \<longrightarrow> length r \<le> length s)"

lemma consumesD: "consumes pv \<Longrightarrow> pv s n = Parsed v r \<Longrightarrow> length r \<le> length s"
  by (auto simp: consumes_def)

lemma parse_end_Parsed: "parse_end c v s = Parsed v' r \<Longrightarrow> v' = v \<and> length r \<le> length s"
  using skip_whitespaces_length [of s] by (auto simp: parse_end_def Let_def split: if_splits)

lemma peek_nonempty: "peek s = c \<Longrightarrow> c \<noteq> NUL \<Longrightarrow> s \<noteq> []"
  by auto

lemma skip_drop_less: "peek (skip_whitespaces s) = c \<Longrightarrow> c \<noteq> NUL \<Longrightarrow>
    length (skip_whitespaces (drop 1 (skip_whitespaces s))) < length s"
  using skip_whitespaces_length [of s] skip_whitespaces_length [of "drop 1 (skip_whitespaces s)"]
  by (cases "skip_whitespaces s") auto

lemma parse_items_consumes:
  "consumes pv \<Longrightarrow> parse_items pv f xs s n = Parsed v r \<Longrightarrow> length r \<le> length s"
proof (induction pv f xs s n rule: parse_items.induct)
  case (2 pv f xs s n)
  show ?case
  proof (cases "s = []")
    case True
    with "2.prems" show ?thesis by (auto dest: parse_end_Parsed)
  next
    case False
    then obtain w t where w: "pv s n = Parsed w t" using "2.prems"(2) by (auto split: parsed.splits)
    let ?t = "skip_whitespaces t"
    have t: "length t \<le> length s" using consumesD [OF "2.prems"(1) w] .
    show ?thesis
    proof (cases "peek ?t = CHR '',''")
      case True
      with "2.prems"(2) False w have "parse_items pv f (xs @ [w]) (skip_whitespaces (drop 1 ?t)) n = Parsed v r"
        by simp
      from "2.IH" [OF False w refl _ "2.prems"(1) this] True have "length r \<le> length (skip_whitespaces (drop 1 ?t))"
        by simp
      with skip_drop_less [OF True] t show ?thesis by simp
    next
      case False
      with "2.prems"(2) \<open>s \<noteq> []\<close> w have "parse_end CHR '']'' (VArray (xs @ [w])) ?t = Parsed v r" by simp
      then show ?thesis using t skip_whitespaces_length [of t] by (auto dest!: parse_end_Parsed)
    qed
  qed
qed simp

lemma parse_members_step:
  assumes "parse_members pv (Suc f) ms s n = Parsed v r" "s \<noteq> []"
  obtains key s1 w s2 ms' where "get_quoted_string s = Some (key, s1)" "NUL \<notin> set key"
    "peek (skip_whitespaces s1) = CHR '':''" "pv (drop 1 (skip_whitespaces s1)) n = Parsed w s2"
    "add_member ms key w = Some ms'"
    "peek (skip_whitespaces s2) = CHR '','' \<and>
       parse_members pv f ms' (skip_whitespaces (drop 1 (skip_whitespaces s2))) n = Parsed v r \<or>
     peek (skip_whitespaces s2) \<noteq> CHR '','' \<and> parse_end CHR ''}'' (VObject ms') (skip_whitespaces s2) = Parsed v r"
  using assms by (auto simp: Let_def split: option.splits if_splits parsed.splits)

lemma parse_members_consumes:
  "consumes pv \<Longrightarrow> parse_members pv f ms s n = Parsed v r \<Longrightarrow> length r \<le> length s"
proof (induction f arbitrary: ms s)
  case (Suc f)
  show ?case
  proof (cases "s = []")
    case True
    with Suc.prems show ?thesis by (auto dest: parse_end_Parsed)
  next
    case False
    from Suc.prems(2) this show ?thesis
    proof (rule parse_members_step)
      fix key s1 w s2 ms'
      assume a: "get_quoted_string s = Some (key, s1)" "pv (drop 1 (skip_whitespaces s1)) n = Parsed w s2"
        "peek (skip_whitespaces s2) = CHR '','' \<and>
         parse_members pv f ms' (skip_whitespaces (drop 1 (skip_whitespaces s2))) n = Parsed v r \<or>
         peek (skip_whitespaces s2) \<noteq> CHR '','' \<and> parse_end CHR ''}'' (VObject ms') (skip_whitespaces s2) = Parsed v r"
      have "length s2 \<le> length s"
        using get_quoted_string_length [OF a(1)] consumesD [OF Suc.prems(1) a(2)] skip_whitespaces_length [of s1]
        by simp
      then show ?thesis
        using a(3) Suc.IH [OF Suc.prems(1)] skip_drop_less [of s2] skip_whitespaces_length [of s2]
        by (fastforce dest!: parse_end_Parsed)
    qed
  qed
qed simp

lemma drop1_skip_length: "length (drop 1 (skip_whitespaces s)) \<le> length s"
  using skip_whitespaces_length [of s] by simp

lemma parse_value_consumes: "consumes (parse_value L f)"
proof (induction f)
  case 0
  then show ?case by (simp add: consumes_def)
next
  case (Suc f)
  have o: "length r \<le> length s" if "parse_object_value (parse_value L f) f s n = Parsed v r" for s n v r
    using that parse_members_consumes [OF Suc] skip_whitespaces_length [of "drop 1 s"]
    by (fastforce simp: parse_object_value_def Let_def split: if_splits)
  have a: "length r \<le> length s" if "parse_array_value (parse_value L f) f s n = Parsed v r" for s n v r
    using that parse_items_consumes [OF Suc] skip_whitespaces_length [of "drop 1 s"]
    by (fastforce simp: parse_array_value_def Let_def split: if_splits)
  have t: "length r \<le> length s" if "parse_string_value s = Parsed v r" for s and v :: "'a json_value" and r
    using that by (auto simp: parse_string_value_def dest!: get_quoted_string_length split: option.splits)
  show ?case
    unfolding consumes_def
  proof (intro allI impI)
    fix s n v r
    assume "parse_value L (Suc f) s n = Parsed v r"
    then have "length r \<le> length (skip_whitespaces s)"
      by (auto simp: Let_def parse_boolean_value_def parse_number_value_def parse_null_value_def
          dest!: o a t split: if_splits option.splits)
    then show "length r \<le> length s" using skip_whitespaces_length [of s] by simp
  qed
qed

section \<open>Termination\<close>

text \<open>With a unit of fuel per character and one more, the parser never runs out.\<close>

definition fuelled :: "'n value_parser \<Rightarrow> nat \<Rightarrow> bool" where
  "fuelled pv k \<longleftrightarrow> consumes pv \<and> (\<forall>s n. length s < k \<longrightarrow> pv s n \<noteq> NoFuel)"

lemma parse_end_fuel [simp]: "parse_end c v s \<noteq> NoFuel"
  by (simp add: parse_end_def Let_def)

lemma parse_items_fuel:
  "fuelled pv k \<Longrightarrow> length s < f \<Longrightarrow> length s < k \<Longrightarrow> parse_items pv f xs s n \<noteq> NoFuel"
proof (induction f arbitrary: xs s)
  case (Suc f)
  have "parse_items pv f (xs @ [w]) (skip_whitespaces (drop 1 (skip_whitespaces t))) n \<noteq> NoFuel"
    if "pv s n = Parsed w t" "peek (skip_whitespaces t) = CHR '',''" for w t
  proof -
    have "length t \<le> length s" using that(1) Suc.prems(1) by (auto simp: fuelled_def dest: consumesD)
    with skip_drop_less [OF that(2)] Suc.prems show ?thesis by (intro Suc.IH) simp_all
  qed
  with Suc.prems show ?case
    by (auto simp: fuelled_def Let_def split: parsed.split)
qed simp

lemma parse_members_fuel:
  "fuelled pv k \<Longrightarrow> length s < f \<Longrightarrow> length s < k \<Longrightarrow> parse_members pv f ms s n \<noteq> NoFuel"
proof (induction f arbitrary: ms s)
  case (Suc f)
  have v: "pv (drop 1 (skip_whitespaces s1)) n \<noteq> NoFuel" "length (drop 1 (skip_whitespaces s1)) < length s"
    if "get_quoted_string s = Some (key, s1)" for key s1
    using get_quoted_string_length [OF that] skip_whitespaces_length [of s1] Suc.prems
    by (auto simp: fuelled_def)
  have "parse_members pv f ms' (skip_whitespaces (drop 1 (skip_whitespaces t))) n \<noteq> NoFuel"
    if "get_quoted_string s = Some (key, s1)" "pv (drop 1 (skip_whitespaces s1)) n = Parsed w t"
      "peek (skip_whitespaces t) = CHR '',''" for key s1 w t ms'
  proof -
    have "length t \<le> length (drop 1 (skip_whitespaces s1))"
      using that(2) Suc.prems(1) by (auto simp: fuelled_def dest: consumesD)
    with v(2) [OF that(1)] skip_drop_less [OF that(3)] Suc.prems show ?thesis by (intro Suc.IH) simp_all
  qed
  with v show ?case
    by (auto simp: Let_def split: parsed.split option.split)
qed simp

lemma parse_value_fuel: "length s < f \<Longrightarrow> parse_value L f s n \<noteq> NoFuel"
proof (induction f arbitrary: s n)
  case (Suc f)
  have f: "fuelled (parse_value L f) f"
    using Suc.IH parse_value_consumes by (auto simp: fuelled_def)
  let ?s = "skip_whitespaces s" and ?t = "skip_whitespaces (drop 1 (skip_whitespaces s))"
  have "length ?t < f" if "peek ?s \<noteq> NUL"
    using skip_drop_less [of s "peek ?s"] that Suc.prems by simp
  then have t: "parse_object_value (parse_value L f) f ?s m \<noteq> NoFuel \<and>
      parse_array_value (parse_value L f) f ?s m \<noteq> NoFuel" if "peek ?s \<noteq> NUL" for m
    using that parse_items_fuel [OF f] parse_members_fuel [OF f]
    by (simp add: parse_object_value_def parse_array_value_def Let_def)
  then show ?case
    by (auto simp: Let_def parse_string_value_def parse_boolean_value_def parse_number_value_def
        parse_null_value_def split: option.split)
qed simp

section \<open>Reading back what was written\<close>

fun json_depth :: "'n json_value \<Rightarrow> nat" where
  "json_depth (VArray xs) = Suc (foldr (\<lambda>x m. max (json_depth x) m) xs 0)"
| "json_depth (VObject ms) = Suc (foldr (\<lambda>x m. max (json_depth (snd x)) m) ms 0)"
| "json_depth _ = 0"

text \<open>
  The values that survive: object names are distinct and hold no terminator (the parser
  refuses both), and every number is one the library reads back. Strings are arbitrary.
\<close>

fun json_wf :: "'n numlib \<Rightarrow> 'n json_value \<Rightarrow> bool" where
  "json_wf L (VArray xs) \<longleftrightarrow> (\<forall>x \<in> set xs. json_wf L x)"
| "json_wf L (VObject ms) \<longleftrightarrow> distinct (map fst ms) \<and> (\<forall>m \<in> set ms. NUL \<notin> set (fst m) \<and> json_wf L (snd m))"
| "json_wf L (VNumber x) \<longleftrightarrow> num_ok L x"
| "json_wf L _ \<longleftrightarrow> True"

lemma member_le_max: "y \<in> set ys \<Longrightarrow> g y \<le> foldr (\<lambda>x m. max (g x) m) ys (0::nat)"
  by (induction ys) auto

lemma depth_member:
  "x \<in> set xs \<Longrightarrow> json_depth x < json_depth (VArray xs)"
  "m \<in> set ms \<Longrightarrow> json_depth (snd m) < json_depth (VObject ms)"
  using member_le_max [of x xs json_depth] member_le_max [of m ms "\<lambda>m. json_depth (snd m)"] by simp_all

lemma skip_spaces: "\<forall>c \<in> set ws. isspace c \<Longrightarrow> skip_whitespaces (ws @ s) = skip_whitespaces s"
  by (simp add: skip_whitespaces_def dropWhile_append2)

lemma isspace_chars [simp]: "isspace CHR '' ''" "isspace CHR ''\<newline>''" "\<not> isspace CHR '',''" "\<not> isspace CHR '']''"
    "\<not> isspace CHR ''}''" "\<not> isspace CHR '':''" "\<not> isspace DQUOTE" "\<not> isspace CHR ''[''" "\<not> isspace CHR ''{''"
    "\<not> isspace CHR ''t''" "\<not> isspace CHR ''f''" "\<not> isspace CHR ''n''" "\<not> isspace CHR ''-''" "\<not> isspace NUL"
  by (simp_all add: isspace_def)

lemma skip_spaces_n [simp]: "skip_whitespaces (spaces n @ s) = skip_whitespaces s"
  by (rule skip_spaces) (simp add: spaces_def)

lemma number_text_peek:
  assumes "number_text t"
  shows "(peek (t @ r) = CHR ''-'' \<or> isdigit (peek (t @ r))) \<and> \<not> isspace (peek (t @ r)) \<and> t \<noteq> []"
proof -
  obtain sg ip fp ex where t: "t = sg @ ip @ fp @ ex" "sg = [] \<or> sg = ''-''" "digits ip"
    using assms by (rule number_text_parts)
  then obtain c ip' where "ip = c # ip'" "isdigit c" by (cases ip) (auto simp: digits_def)
  with t show ?thesis by (auto simp: isspace_def isdigit_def)
qed

lemma json_text_peek:
  "json_wf L v \<Longrightarrow> \<not> isspace (peek (json_text L esc pr n v @ r)) \<and> json_text L esc pr n v \<noteq> []"
  using number_text_peek by (cases v) (auto simp: quoted_def num_ok_def)

lemma skip_json_text:
  "json_wf L v \<Longrightarrow> skip_whitespaces (json_text L esc pr n v @ r) = json_text L esc pr n v @ r"
  using json_text_peek by (intro skip_whitespaces_id) blast

text \<open>What follows an element: its comma or closing bracket ends a number.\<close>

lemma ends_number_chars [simp]: "ends_number (CHR '','' # r)" "ends_number (CHR ''\<newline>'' # r)" "ends_number (CHR '']'' # r)"
    "ends_number (CHR ''}'' # r)" "ends_number []"
  by (simp_all add: ends_number_def isdigit_def)

definition reads :: "'n numlib \<Rightarrow> bool \<Rightarrow> bool \<Rightarrow> 'n value_parser \<Rightarrow> nat \<Rightarrow> nat \<Rightarrow> 'n json_value \<Rightarrow> bool" where
  "reads L esc pr pv k n v \<longleftrightarrow> (\<forall>ws lev r. (\<forall>c \<in> set ws. isspace c) \<longrightarrow> ends_number r \<longrightarrow>
     length (ws @ json_text L esc pr lev v @ r) < k \<longrightarrow> pv (ws @ json_text L esc pr lev v @ r) n = Parsed v r)"

lemma readsD: "reads L esc pr pv k n v \<Longrightarrow> (\<forall>c \<in> set ws. isspace c) \<Longrightarrow> ends_number r \<Longrightarrow>
    length (ws @ json_text L esc pr lev v @ r) < k \<Longrightarrow> pv (ws @ json_text L esc pr lev v @ r) n = Parsed v r"
  by (simp add: reads_def)

lemma parse_items_reads:
  assumes "\<forall>x \<in> set xs. json_wf L x \<and> reads L esc pr pv k n x" "xs \<noteq> []"
    "s = items_text L esc pr lev xs @ (if pr then spaces lev else []) @ '']'' @ r"
    "length s < f" "length s < k"
  shows "parse_items pv f acc (skip_whitespaces s) n = Parsed (VArray (acc @ xs)) r"
  using assms
proof (induction xs arbitrary: acc s f)
  case (Cons x xs)
  obtain f' where f: "f = Suc f'" using Cons.prems(4) by (cases f) auto
  let ?tail = "(if pr then spaces lev else []) @ '']'' @ r"
  let ?t = "(if xs \<noteq> [] then '','' else []) @ (if pr then ''\<newline>'' else []) @ items_text L esc pr lev xs @ ?tail"
  let ?x = "json_text L esc pr (lev + 1) x"
  have wf: "json_wf L x" and rd: "reads L esc pr pv k n x" using Cons.prems(1) by simp_all
  have s: "skip_whitespaces s = ?x @ ?t"
  proof -
    have "s = (if pr then spaces (lev + 1) else []) @ ?x @ ?t" by (simp add: Cons.prems(3))
    then show ?thesis using skip_json_text [OF wf, of esc pr "lev + 1" ?t] by (cases pr) (simp_all only: if_True if_False skip_spaces_n append_Nil)
  qed
  have "ends_number ?t" by (cases "xs = []"; cases pr) simp_all
  moreover have "length (?x @ ?t) < k" using Cons.prems(3,5) by (simp split: if_splits)
  ultimately have pv: "pv (?x @ ?t) n = Parsed x ?t"
    using readsD [OF rd, of "[]" ?t "lev + 1"] by simp
  have ne: "?x @ ?t \<noteq> []" using json_text_peek [OF wf] by simp
  show ?case
  proof (cases "xs = []")
    case True
    then have "skip_whitespaces ?t = '']'' @ r" by (cases pr) (simp_all add: skip_whitespaces_id)
    with ne pv True show ?thesis
      by (simp add: s f parse_end_def skip_whitespaces_id)
  next
    case False
    let ?u = "items_text L esc pr lev xs @ ?tail"
    have t: "skip_whitespaces ?t = ?t" using False by (intro skip_whitespaces_id) simp
    have "skip_whitespaces (drop 1 ?t) = skip_whitespaces ?u" using False by simp
    moreover have "parse_items pv f' (acc @ [x]) (skip_whitespaces ?u) n = Parsed (VArray ((acc @ [x]) @ xs)) r"
      using Cons.prems False json_text_peek [OF wf, of esc pr "lev + 1" "[]"]
      by (intro Cons.IH) (simp_all add: f split: if_splits)
    ultimately show ?thesis
      using ne pv t False by (simp add: s f)
  qed
qed simp

lemma parse_members_reads:
  assumes "\<forall>m \<in> set ms. NUL \<notin> set (fst m) \<and> json_wf L (snd m) \<and> reads L esc pr pv k n (snd m)" "ms \<noteq> []"
    "distinct (map fst (acc @ ms))"
    "s = members_text L esc pr lev ms @ (if pr then spaces lev else []) @ ''}'' @ r"
    "length s < f" "length s < k"
  shows "parse_members pv f acc (skip_whitespaces s) n = Parsed (VObject (acc @ ms)) r"
  using assms
proof (induction ms arbitrary: acc s f)
  case (Cons m ms)
  obtain key x where m: "m = (key, x)" by (cases m)
  obtain f' where f: "f = Suc f'" using Cons.prems(5) by (cases f) auto
  let ?tail = "(if pr then spaces lev else []) @ ''}'' @ r"
  let ?t = "(if ms \<noteq> [] then '','' else []) @ (if pr then ''\<newline>'' else []) @ members_text L esc pr lev ms @ ?tail"
  let ?x = "json_text L esc pr (lev + 1) x"
  have wf: "json_wf L x" and rd: "reads L esc pr pv k n x" and key: "NUL \<notin> set key" "key \<notin> fst ` set acc"
    using Cons.prems(1,3) by (auto simp: m)
  let ?sp = "(if pr then '' '' else [])"
  let ?u = "CHR '':'' # ?sp @ ?x @ ?t"
  have s': "s = (if pr then spaces (lev + 1) else []) @ quoted esc key @ ?u" by (simp add: Cons.prems(4) m)
  have "skip_whitespaces (quoted esc key @ ?u) = quoted esc key @ ?u"
    by (intro skip_whitespaces_id) (simp add: quoted_def)
  then have s: "skip_whitespaces s = quoted esc key @ ?u"
    unfolding s' by (cases pr) (simp_all only: if_True if_False skip_spaces_n append_Nil)
  have q: "get_quoted_string (quoted esc key @ ?u) = Some (key, ?u)" by (rule get_quoted)
  have u: "skip_whitespaces ?u = ?u" by (intro skip_whitespaces_id) simp
  have "ends_number ?t" by (cases "ms = []"; cases pr) simp_all
  moreover have "length (?sp @ ?x @ ?t) < k" using Cons.prems(6) unfolding s' by simp
  moreover have "\<forall>c \<in> set ?sp. isspace c" by simp
  ultimately have pv: "pv (?sp @ ?x @ ?t) n = Parsed x ?t"
    using readsD [OF rd, of ?sp ?t "lev + 1"] by blast
  have ne: "quoted esc key @ ?u \<noteq> []" by (simp add: quoted_def)
  have add: "add_member acc key x = Some (acc @ [(key, x)])" using key(2) by (simp add: add_member_def)
  show ?case
  proof (cases "ms = []")
    case True
    then have "skip_whitespaces ?t = ''}'' @ r" by (cases pr) (simp_all add: skip_whitespaces_id)
    with ne pv True key(1) q u add show ?thesis
      unfolding s f by (simp add: parse_end_def skip_whitespaces_id m)
  next
    case False
    let ?v = "members_text L esc pr lev ms @ ?tail"
    have t: "skip_whitespaces ?t = ?t" using False by (intro skip_whitespaces_id) simp
    have "skip_whitespaces (drop 1 ?t) = skip_whitespaces ?v" using False by simp
    moreover have "parse_members pv f' (acc @ [(key, x)]) (skip_whitespaces ?v) n = Parsed (VObject ((acc @ [(key, x)]) @ ms)) r"
      using Cons.prems False by (intro Cons.IH) (simp_all add: f m)
    ultimately show ?thesis
      using ne pv t False key(1) q u add unfolding s f by (simp add: m)
  qed
qed simp

lemma peek_number_not:
  assumes "peek s = CHR ''-'' \<or> isdigit (peek s)"
  shows "peek s \<noteq> CHR ''{''" "peek s \<noteq> CHR ''[''" "peek s \<noteq> DQUOTE" "peek s \<noteq> CHR ''f''" "peek s \<noteq> CHR ''t''"
  using assms by (auto simp: isdigit_def)

lemma parse_number_reads:
  assumes "num_ok L x" "ends_number r"
  shows "parse_number_value L (num_text L x @ r) = Parsed (VNumber x) r"
  using assms strtod_len_text [of "num_text L x" r] is_decimal_text [of "num_text L x" r]
  by (simp add: parse_number_value_def json_value_init_number_def num_ok_def)

lemma json_text_peek_bracket:
  assumes "json_wf L x"
  shows "peek (json_text L esc pr n x @ t) \<noteq> CHR '']''"
proof (cases x)
  case (VNumber y)
  with assms show ?thesis
    using number_text_peek [of "num_text L y" t] by (auto simp: num_ok_def isdigit_def)
qed (simp_all add: quoted_def)

lemma parse_array_reads:
  assumes "\<forall>x \<in> set xs. json_wf L x \<and> reads L esc pr pv k n x" "length (json_text L esc pr lev (VArray xs) @ r) \<le> f" "f \<le> k"
  shows "parse_array_value pv f (json_text L esc pr lev (VArray xs) @ r) n = Parsed (VArray xs) r"
proof (cases "xs = []")
  case True
  then show ?thesis by (simp add: parse_array_value_def skip_whitespaces_id)
next
  case False
  let ?s = "items_text L esc pr lev xs @ (if pr then spaces lev else []) @ '']'' @ r"
  have s: "skip_whitespaces (drop 1 (json_text L esc pr lev (VArray xs) @ r)) = skip_whitespaces ?s"
    using False by simp
  have l: "length ?s < f" using assms(2) False by (cases pr) simp_all
  then have "length ?s < k" using assms(3) by linarith
  from parse_items_reads [OF assms(1) False refl l this, of "[]"]
  have "parse_items pv f [] (skip_whitespaces ?s) n = Parsed (VArray xs) r" by simp
  moreover have "peek (skip_whitespaces ?s) \<noteq> CHR '']''"
  proof -
    obtain x xs' where xs: "xs = x # xs'" using False by (cases xs) auto
    then have wf: "json_wf L x" using assms(1) by simp
    have "\<exists>t. skip_whitespaces ?s = json_text L esc pr (lev + 1) x @ t"
      using skip_json_text [OF wf] by (cases pr) (auto simp: xs)
    moreover have "peek (json_text L esc pr (lev + 1) x @ t) \<noteq> CHR '']''" for t
      by (rule json_text_peek_bracket [OF wf])
    ultimately show ?thesis by metis
  qed
  ultimately show ?thesis
    unfolding parse_array_value_def Let_def s by simp
qed

lemma parse_object_reads:
  assumes "\<forall>m \<in> set ms. NUL \<notin> set (fst m) \<and> json_wf L (snd m) \<and> reads L esc pr pv k n (snd m)"
    "distinct (map fst ms)" "length (json_text L esc pr lev (VObject ms) @ r) \<le> f" "f \<le> k"
  shows "parse_object_value pv f (json_text L esc pr lev (VObject ms) @ r) n = Parsed (VObject ms) r"
proof (cases "ms = []")
  case True
  then show ?thesis by (simp add: parse_object_value_def skip_whitespaces_id)
next
  case False
  let ?s = "members_text L esc pr lev ms @ (if pr then spaces lev else []) @ ''}'' @ r"
  have s: "skip_whitespaces (drop 1 (json_text L esc pr lev (VObject ms) @ r)) = skip_whitespaces ?s"
    using False by simp
  have l: "length ?s < f" using assms(3) False by (cases pr) simp_all
  then have "length ?s < k" using assms(4) by linarith
  from parse_members_reads [OF assms(1) False _ refl l this, of "[]"] assms(2)
  have "parse_members pv f [] (skip_whitespaces ?s) n = Parsed (VObject ms) r" by simp
  moreover have "peek (skip_whitespaces ?s) \<noteq> CHR ''}''"
  proof -
    obtain m ms' where ms: "ms = m # ms'" using False by (cases ms) auto
    have "skip_whitespaces (quoted esc (fst m) @ t) = quoted esc (fst m) @ t" for t
      by (intro skip_whitespaces_id) (simp add: quoted_def)
    then have "\<exists>t. skip_whitespaces ?s = quoted esc (fst m) @ t" by (cases pr) (auto simp: ms)
    then show ?thesis by (auto simp: quoted_def)
  qed
  ultimately show ?thesis
    unfolding parse_object_value_def Let_def s by simp
qed

lemma parse_value_reads:
  "json_wf L v \<Longrightarrow> n + json_depth v \<le> MAX_NESTING \<Longrightarrow> reads L esc pr (parse_value L f) f n v"
proof (induction f arbitrary: n v)
  case 0
  then show ?case by (simp add: reads_def)
next
  case (Suc f)
  have n: "\<not> n > MAX_NESTING" using Suc.prems(2) by simp
  show ?case
    unfolding reads_def
  proof (intro allI impI)
    fix ws lev r
    assume a: "\<forall>c \<in> set ws. isspace c" "ends_number r" "length (ws @ json_text L esc pr lev v @ r) < Suc f"
    let ?s = "json_text L esc pr lev v @ r"
    have s: "skip_whitespaces (ws @ ?s) = ?s"
      using skip_json_text [OF Suc.prems(1)] by (simp add: skip_spaces [OF a(1)])
    have len: "length ?s \<le> f" using a(3) by simp
    note step = parse_value.simps(2) [of L f "ws @ ?s" n, unfolded s Let_def if_not_P [OF n]]
    show "parse_value L (Suc f) (ws @ ?s) n = Parsed v r"
    proof (cases v)
      case (VArray xs)
      have "\<forall>x \<in> set xs. json_wf L x \<and> reads L esc pr (parse_value L f) f (n + 1) x"
        using Suc.prems depth_member(1) [of _ xs] by (fastforce simp: VArray intro!: Suc.IH)
      from parse_array_reads [OF this len [unfolded VArray] order_refl] show ?thesis
        unfolding step by (simp add: VArray)
    next
      case (VObject ms)
      have m: "\<forall>m \<in> set ms. NUL \<notin> set (fst m) \<and> json_wf L (snd m) \<and> reads L esc pr (parse_value L f) f (n + 1) (snd m)"
        using Suc.prems depth_member(2) [of _ ms] by (fastforce simp: VObject intro!: Suc.IH)
      have "distinct (map fst ms)" using Suc.prems(1) by (simp add: VObject)
      from parse_object_reads [OF m this len [unfolded VObject] order_refl] show ?thesis
        unfolding step by (simp add: VObject)
    next
      case (VNumber x)
      have x: "num_ok L x" using Suc.prems(1) by (simp add: VNumber)
      then have p: "peek ?s = CHR ''-'' \<or> isdigit (peek ?s)"
        using number_text_peek [of "num_text L x" r] by (simp add: VNumber num_ok_def)
      have t: "?s = num_text L x @ r" by (simp add: VNumber)
      show ?thesis
        unfolding step using p peek_number_not [OF p] parse_number_reads [OF x a(2)]
        by (simp add: t VNumber)
    next
      case (VString str)
      have "peek ?s = DQUOTE" by (simp add: VString quoted_def)
      then show ?thesis
        unfolding step by (simp add: VString parse_string_value_def get_quoted)
    next
      case (VBoolean b)
      then show ?thesis
        unfolding step by (cases b) (simp_all add: parse_boolean_value_def starts_with_def)
    next
      case VNull
      then show ?thesis
        unfolding step by (simp add: parse_null_value_def starts_with_def isdigit_def)
    qed
  qed
qed

lemma json_parse_string_text:
  assumes "json_wf L v" "json_depth v \<le> MAX_NESTING"
  shows "json_parse_string L (Some (json_text L esc pr 0 v)) = Parsed v []"
proof -
  let ?s = "json_text L esc pr 0 v"
  have "peek ?s \<noteq> CHR 0xEF"
  proof (cases v)
    case (VNumber x)
    with assms(1) show ?thesis
      using number_text_peek [of "num_text L x" "[]"] by (auto simp: num_ok_def isdigit_def)
  qed (simp_all add: quoted_def)
  then have "char_at ?s 0 \<noteq> CHR 0xEF" by (simp add: char_at_def)
  moreover have "parse_value L (fuel_for ?s) ([] @ ?s @ []) 0 = Parsed v []"
    by (rule readsD [OF parse_value_reads [OF assms(1)]]) (use assms(2) in \<open>simp_all add: fuel_for_def\<close>)
  ultimately show ?thesis by (simp add: json_parse_string_def)
qed

lemma json_parse_string_terminates: "json_parse_string L str \<noteq> NoFuel"
  by (cases str) (simp_all add: json_parse_string_def fuel_for_def Let_def parse_value_fuel del: parse_value.simps)

section \<open>Reading a string stays within its buffer\<close>

text \<open>
  \<open>process_string\<close> writes into a buffer of one byte more than the quoted text is long. A
  \<open>\u\<close> escape cannot reach past the closing quote, and decodes to no more bytes than it has
  characters.
\<close>

lemma hex_not_quote: "hex_char_to_int c \<noteq> -1 \<Longrightarrow> c \<noteq> DQUOTE \<and> c \<noteq> BACKSLASH"
  by (auto simp: hex_char_to_int_def)

lemma parse_utf16_hex_Some:
  assumes "parse_utf16_hex s = Some n"
  obtains a b c d r where "s = a # b # c # d # r" "\<forall>x \<in> {a, b, c, d}. x \<noteq> DQUOTE \<and> x \<noteq> BACKSLASH"
proof -
  have nz: "char_at s 0 \<noteq> NUL" "char_at s 1 \<noteq> NUL" "char_at s 2 \<noteq> NUL" "char_at s 3 \<noteq> NUL"
    and h: "\<forall>i \<in> {0, 1, 2, 3}. hex_char_to_int (char_at s i) \<noteq> -1"
    using assms by (auto simp: parse_utf16_hex_def Let_def split: if_splits)
  from nz(4) have "3 < length s" by (simp add: char_at_nth split: if_splits)
  then obtain a b c d r where s: "s = a # b # c # d # r"
    by (auto simp: numeral_3_eq_3 Suc_le_eq [symmetric] Suc_le_length_iff)
  with h hex_not_quote that show thesis by auto
qed

lemma skip_body_plain: "\<forall>x \<in> set xs. x \<noteq> DQUOTE \<and> x \<noteq> BACKSLASH \<Longrightarrow> skip_body (xs @ s) = skip_body s"
  by (induction xs) auto

lemma parse_trail_shape:
  assumes "parse_trail lead s = Some (out, s3)"
  shows "skip_body s = skip_body (drop 1 s3) \<and> length out = 4 \<and> length s = length (drop 1 s3) + 6"
proof -
  obtain trail where t: "char_at s 0 = BACKSLASH" "char_at s 1 = CHR ''u''" "parse_utf16_hex (drop 2 s) = Some trail"
    and o: "length out = 4" "s3 = drop 3 (drop 2 s)"
    using assms by (auto simp: parse_trail_def Let_def split: if_splits option.splits)
  from t(3) obtain a b c d r where abcd: "drop 2 s = a # b # c # d # r"
    "\<forall>x \<in> {a, b, c, d}. x \<noteq> DQUOTE \<and> x \<noteq> BACKSLASH" by (rule parse_utf16_hex_Some)
  have "s = BACKSLASH # CHR ''u'' # a # b # c # d # r"
    using t(1,2) abcd(1) by (cases s; cases "tl s") (simp_all add: char_at_nth)
  with o abcd show ?thesis by simp
qed

lemma parse_utf16_shape:
  assumes "parse_utf16 (u # s) = Some (out, s3)"
  shows "skip_body s = skip_body (drop 1 s3) \<and> length out + length (drop 1 s3) < length s"
proof -
  obtain cp where cp: "parse_utf16_hex s = Some cp"
    using assms by (auto simp: parse_utf16_def Let_def split: option.splits)
  then obtain a b c d r where s: "s = a # b # c # d # r" "\<forall>x \<in> {a, b, c, d}. x \<noteq> DQUOTE \<and> x \<noteq> BACKSLASH"
    by (rule parse_utf16_hex_Some)
  have q: "skip_body s = skip_body r" using s by simp
  have "(length out \<le> 3 \<and> s3 = drop 3 s) \<or> parse_trail cp (drop 4 s) = Some (out, s3)"
    using assms cp by (auto simp: parse_utf16_def split: if_splits)
  then show ?thesis
  proof
    assume "length out \<le> 3 \<and> s3 = drop 3 s"
    with q show ?thesis by (auto simp: s(1))
  next
    assume "parse_trail cp (drop 4 s) = Some (out, s3)"
    from parse_trail_shape [OF this] q show ?thesis by (auto simp: s(1))
  qed
qed

lemma process_string_bound:
  "skip_body s = Some r \<Longrightarrow> n = length s - length r - 1 \<Longrightarrow> process_string s n = Some out \<Longrightarrow> length out \<le> n"
proof (induction s n arbitrary: out rule: process_string.induct)
  case (1 s n)
  obtain c s1 where s: "s = c # s1" using "1.prems"(1) by (cases s) auto
  have p: "process_string (c # s1) n = Some out" using "1.prems"(3) by (simp add: s)
  consider "n = 0" | "n \<noteq> 0" "c = BACKSLASH" | "n \<noteq> 0" "c \<noteq> BACKSLASH" by blast
  then show ?case
  proof cases
    case 1
    with p show ?thesis by (simp add: process_string.simps)
  next
    case 2
    obtain d s2 where s1: "s1 = d # s2" using "1.prems"(1) 2 by (cases s1) (auto simp: s)
    have sk: "skip_body s2 = Some r" using "1.prems"(1) 2 by (simp add: s s1)
    note len = skip_body_length [OF sk]
    show ?thesis
    proof (cases "d = CHR ''u''")
      case True
      then obtain o1 s3 t where o: "parse_utf16 s1 = Some (o1, s3)"
        "process_string (drop 1 s3) (n - (length s - length (drop 1 s3))) = Some t" "out = o1 @ t"
        using p 2 by (subst (asm) process_string.simps) (auto simp: s1 s split: option.splits)
      from parse_utf16_shape [of d s2 o1 s3] o(1)
      have sh: "skip_body s2 = skip_body (drop 1 s3)" "length o1 + length (drop 1 s3) < length s2" by (simp_all add: s1)
      have n: "n - (length s - length (drop 1 s3)) = length (drop 1 s3) - length r - 1"
        using "1.prems"(2) sh(2) by (simp add: s s1)
      have "length r < length (drop 1 s3)" using sk sh(1) skip_body_length by metis
      moreover have "length t \<le> n - (length s - length (drop 1 s3))"
        using "1.IH"(1) [OF s 2 s1 True o(1) refl _ n o(2)] sk sh(1) by simp
      ultimately show ?thesis using "1.prems"(2) sh(2) n o(3) by (simp add: s s1)
    next
      case False
      then obtain e t where o: "simple_escape d = Some e" "process_string s2 (n - 2) = Some t" "out = e # t"
        using p 2 by (subst (asm) process_string.simps) (auto simp: s1 s split: option.splits)
      have "length t \<le> n - 2"
        using "1.IH"(2) [OF s 2 s1 False o(1) sk _ o(2)] "1.prems"(2) by (simp add: s s1)
      then show ?thesis using o(3) "1.prems"(2) len by (simp add: s s1)
    qed
  next
    case 3
    then obtain t where t: "\<not> uchar c < 0x20" "process_string s1 (n - 1) = Some t" "out = c # t"
      using p by (subst (asm) process_string.simps) (auto simp: s split: if_splits)
    have "c \<noteq> DQUOTE" using 3 "1.prems"(1,2) by (auto simp: s)
    then have "skip_body s1 = Some r" using 3 "1.prems"(1) by (simp add: s)
    with "1.IH"(3) [OF s 3 t(1) this _ t(2)] "1.prems"(2) 3 t(3) show ?thesis by (simp add: s)
  qed
qed

end
