(* ===== verification/JsonOps.thy ===== *)
theory JsonOps
  imports JsonObject JsonRoundtrip "HOL-Library.AList"
begin

text \<open>
  Operations of \<^verbatim>\<open>Tema_3/parson.c\<close> on whole values: access by dotted path, copying,
  comparison, validation against a schema, and the removal of comments before parsing. The
  members of an object are the list its arrays stand for (theory \<open>JsonObject\<close>): lookup is
  \<open>map_of\<close>, setting a name is \<open>AList.update\<close>, removal is \<open>swap_remove\<close>.
\<close>

section \<open>Access by type\<close>

type_synonym 'n members = "(string \<times> 'n json_value) list"

definition json_value_get_object :: "'n json_value option \<Rightarrow> 'n members option" where
  "json_value_get_object value = (case value of Some (VObject ms) \<Rightarrow> Some ms | _ \<Rightarrow> None)"

definition json_value_get_array :: "'n json_value option \<Rightarrow> 'n json_value list option" where
  "json_value_get_array value = (case value of Some (VArray xs) \<Rightarrow> Some xs | _ \<Rightarrow> None)"

definition json_value_get_string :: "'n json_value option \<Rightarrow> string option" where
  "json_value_get_string value = (case value of Some (VString s) \<Rightarrow> Some s | _ \<Rightarrow> None)"

definition json_value_get_boolean :: "'n json_value option \<Rightarrow> int" where
  "json_value_get_boolean value = (case value of Some (VBoolean b) \<Rightarrow> (if b then 1 else 0) | _ \<Rightarrow> -1)"

text \<open>The null object has no members.\<close>

definition json_object_get_value :: "'n members option \<Rightarrow> string \<Rightarrow> 'n json_value option" where
  "json_object_get_value obj name = (case obj of None \<Rightarrow> None | Some ms \<Rightarrow> map_of ms name)"

definition json_object_get_string :: "'n members option \<Rightarrow> string \<Rightarrow> string option" where
  "json_object_get_string obj name = json_value_get_string (json_object_get_value obj name)"

section \<open>Dotted paths\<close>

function json_object_dotget_value :: "'n members option \<Rightarrow> string \<Rightarrow> 'n json_value option" where
  "json_object_dotget_value obj name =
     (case strchr name (CHR ''.'') of
        None \<Rightarrow> json_object_get_value obj name
      | Some dot \<Rightarrow> json_object_dotget_value
          (json_value_get_object (json_object_get_value obj (take dot name))) (drop (dot + 1) name))"
  by pat_completeness auto
termination
  by (relation "measure (length \<circ> snd)") (auto dest: strchr_Some)

declare json_object_dotget_value.simps [simp del]

text \<open>
  Setting by path, with the new members or \<open>None\<close> where the code fails and changes nothing. A
  nested object that exists is changed in place, under its name in its parent.
\<close>

function json_object_dotset_value ::
    "'n members \<Rightarrow> string \<Rightarrow> bool \<Rightarrow> 'n json_value \<Rightarrow> 'n members option" where
  "json_object_dotset_value ms name has_parent v =
     (case strchr name (CHR ''.'') of
        None \<Rightarrow> if has_parent then None else Some (AList.update name v ms)
      | Some dot \<Rightarrow>
          let first = take dot name; rest = drop (dot + 1) name
          in case map_of ms first of
               Some temp_value \<Rightarrow>
                 (case json_value_get_object (Some temp_value) of
                    None \<Rightarrow> None
                  | Some temp_object \<Rightarrow>
                      map_option (\<lambda>o1. AList.update first (VObject o1) ms)
                        (json_object_dotset_value temp_object rest has_parent v))
             | None \<Rightarrow>
                 (case json_object_dotset_value [] rest has_parent v of
                    None \<Rightarrow> None
                  | Some new_object \<Rightarrow> add_member ms first (VObject new_object)))"
  by pat_completeness auto
termination
  by (relation "measure (\<lambda>(ms, name, p, v). length name)") (auto dest: strchr_Some)

declare json_object_dotset_value.simps [simp del]

text \<open>The index of a name, as the loop of the removal finds it.\<close>

definition remove_member_named :: "'n members \<Rightarrow> string \<Rightarrow> 'n members option" where
  "remove_member_named ms name =
     (case map_of ms name of None \<Rightarrow> None
      | Some v \<Rightarrow> Some (swap_remove (length (takeWhile (\<lambda>m. fst m \<noteq> name) ms)) ms))"

function json_object_dotremove :: "'n members \<Rightarrow> string \<Rightarrow> 'n members option" where
  "json_object_dotremove ms name =
     (case strchr name (CHR ''.'') of
        None \<Rightarrow> remove_member_named ms name
      | Some dot \<Rightarrow>
          (case json_value_get_object (map_of ms (take dot name)) of
             None \<Rightarrow> None
           | Some temp_object \<Rightarrow>
               map_option (\<lambda>o1. AList.update (take dot name) (VObject o1) ms)
                 (json_object_dotremove temp_object (drop (dot + 1) name))))"
  by pat_completeness auto
termination
  by (relation "measure (length \<circ> snd)") (auto dest: strchr_Some)

declare json_object_dotremove.simps [simp del]

lemma dotget_dotset:
  "json_object_dotset_value ms name p v = Some ms' \<Longrightarrow> json_object_dotget_value (Some ms') name = Some v"
proof (induction ms name p v arbitrary: ms' rule: json_object_dotset_value.induct)
  case (1 ms name p v)
  show ?case
  proof (cases "strchr name (CHR ''.'')")
    case None
    with "1.prems" show ?thesis
      by (subst (asm) json_object_dotset_value.simps)
        (auto simp: json_object_dotget_value.simps [of _ name] json_object_get_value_def update_conv split: if_splits)
  next
    case (Some dot)
    let ?a = "take dot name" and ?b = "drop (dot + 1) name"
    show ?thesis
    proof (cases "map_of ms ?a")
      case None
      with Some "1.prems" obtain o1 where o1: "json_object_dotset_value [] ?b p v = Some o1"
        "ms' = ms @ [(?a, VObject o1)]"
        by (subst (asm) json_object_dotset_value.simps)
          (auto simp: Let_def add_member_def split: option.splits if_splits)
      have "json_object_dotget_value (Some o1) ?b = Some v"
        using "1.IH"(1) [OF Some refl refl None] o1(1) by simp
      with Some None o1(2) show ?thesis
        by (subst json_object_dotget_value.simps)
          (simp add: json_object_get_value_def json_value_get_object_def map_add_def)
    next
      case (Some w)
      with \<open>strchr name (CHR ''.'') = Some dot\<close> "1.prems" obtain t o1 where t: "json_value_get_object (Some w) = Some t"
        "json_object_dotset_value t ?b p v = Some o1" "ms' = AList.update ?a (VObject o1) ms"
        by (subst (asm) json_object_dotset_value.simps) (auto simp: Let_def split: option.splits)
      have "json_object_dotget_value (Some o1) ?b = Some v"
        using "1.IH"(2) [OF \<open>strchr name (CHR ''.'') = Some dot\<close> refl refl Some t(1)] t(2) by simp
      with \<open>strchr name (CHR ''.'') = Some dot\<close> t(3) show ?thesis
        by (subst json_object_dotget_value.simps)
          (simp add: json_object_get_value_def json_value_get_object_def update_conv)
    qed
  qed
qed

text \<open>A path in the form of its components, and the paths one dotted set leaves alone.\<close>

fun dotted :: "string list \<Rightarrow> string" where
  "dotted [] = []"
| "dotted [a] = a"
| "dotted (a # as) = a @ CHR ''.'' # dotted as"

fun path_get :: "'n members option \<Rightarrow> string list \<Rightarrow> 'n json_value option" where
  "path_get obj [] = None"
| "path_get obj [a] = json_object_get_value obj a"
| "path_get obj (a # as) = path_get (json_value_get_object (json_object_get_value obj a)) as"

lemma dotget_path:
  "as \<noteq> [] \<Longrightarrow> \<forall>a \<in> set as. CHR ''.'' \<notin> set a \<Longrightarrow> json_object_dotget_value obj (dotted as) = path_get obj as"
proof (induction obj as rule: path_get.induct)
  case (2 obj a)
  then have "strchr a (CHR ''.'') = None" by (simp add: strchr_None)
  then show ?case by (simp add: json_object_dotget_value.simps)
next
  case (3 obj a b as)
  then have "strchr (a @ CHR ''.'' # dotted (b # as)) (CHR ''.'') = Some (length a)"
    by (intro strchr_append) simp
  with 3 show ?case by (simp add: json_object_dotget_value.simps [of _ "a @ _"])
qed simp

lemma path_get_None [simp]: "path_get None as = None"
  by (induction "None :: 'n members option" as rule: path_get.induct)
    (simp_all add: json_object_get_value_def json_value_get_object_def)

lemma dotset_dotted:
  "CHR ''.'' \<notin> set a \<Longrightarrow> json_object_dotset_value ms (a @ CHR ''.'' # name) p v =
     (case map_of ms a of
        Some w \<Rightarrow> (case json_value_get_object (Some w) of None \<Rightarrow> None
          | Some t \<Rightarrow> map_option (\<lambda>o1. AList.update a (VObject o1) ms) (json_object_dotset_value t name p v))
      | None \<Rightarrow> (case json_object_dotset_value [] name p v of None \<Rightarrow> None | Some o1 \<Rightarrow> add_member ms a (VObject o1)))"
  by (subst json_object_dotset_value.simps) (simp add: strchr_append Let_def)

lemma dotset_plain:
  "CHR ''.'' \<notin> set a \<Longrightarrow> json_object_dotset_value ms a p v = (if p then None else Some (AList.update a v ms))"
  by (subst json_object_dotset_value.simps) (simp add: strchr_None [THEN iffD2])

text \<open>Paths neither of which runs through the other.\<close>

fun apart :: "string list \<Rightarrow> string list \<Rightarrow> bool" where
  "apart (a # as) (b # bs) \<longleftrightarrow> a \<noteq> b \<or> apart as bs"
| "apart _ _ \<longleftrightarrow> False"

lemma path_get_nil: "apart as bs \<Longrightarrow> path_get (Some []) bs = None"
  by (cases bs rule: remdups_adj.cases) (simp_all add: json_object_get_value_def json_value_get_object_def)

lemma path_get_Cons:
  "path_get (Some ms) (b # bs) = (if bs = [] then map_of ms b else path_get (json_value_get_object (map_of ms b)) bs)"
  by (cases bs) (simp_all add: json_object_get_value_def)

lemma dotset_apart:
  "as \<noteq> [] \<Longrightarrow> \<forall>a \<in> set as. CHR ''.'' \<notin> set a \<Longrightarrow> apart as bs \<Longrightarrow>
   json_object_dotset_value ms (dotted as) p v = Some ms' \<Longrightarrow> path_get (Some ms') bs = path_get (Some ms) bs"
proof (induction as arbitrary: ms ms' bs rule: dotted.induct)
  case (2 a)
  then obtain b bs' where bs: "bs = b # bs'" by (cases bs) auto
  with 2 have "ms' = AList.update a v ms" "a \<noteq> b" by (auto simp: dotset_plain split: if_splits)
  then show ?case by (simp add: bs path_get_Cons update_conv)
next
  case (3 a a2 as)
  then obtain b bs' where bs: "bs = b # bs'" by (cases bs) auto
  let ?d = "dotted (a2 # as)"
  have s: "json_object_dotset_value ms (a @ CHR ''.'' # ?d) p v = Some ms'" using "3.prems"(4) by simp
  have a: "CHR ''.'' \<notin> set a" using "3.prems"(2) by simp
  have apart: "a \<noteq> b \<or> apart (a2 # as) bs'" using "3.prems"(3) by (simp add: bs)
  have ne: "bs' \<noteq> []" if "apart (a2 # as) bs'" using that by (cases bs') auto
  show ?case
  proof (cases "map_of ms a")
    case None
    then obtain o1 where o1: "json_object_dotset_value [] ?d p v = Some o1" "ms' = ms @ [(a, VObject o1)]"
      using s by (auto simp: dotset_dotted [OF a] add_member_def split: option.splits if_splits)
    show ?thesis
    proof (cases "a = b")
      case True
      with apart have ap: "apart (a2 # as) bs'" by simp
      have "path_get (Some o1) bs' = path_get (Some []) bs'"
        using "3.IH" [OF _ _ ap o1(1)] "3.prems"(2) by simp
      with True None o1(2) ne [OF ap] path_get_nil [OF ap] show ?thesis
        by (simp add: bs path_get_Cons map_add_def json_value_get_object_def)
    next
      case False
      with o1(2) show ?thesis by (simp add: bs path_get_Cons map_add_def split: option.split)
    qed
  next
    case (Some w)
    then obtain t o1 where t: "json_value_get_object (Some w) = Some t"
      "json_object_dotset_value t ?d p v = Some o1" "ms' = AList.update a (VObject o1) ms"
      using s by (auto simp: dotset_dotted [OF a] split: option.splits)
    show ?thesis
    proof (cases "a = b")
      case True
      with apart have ap: "apart (a2 # as) bs'" by simp
      have "path_get (Some o1) bs' = path_get (Some t) bs'"
        using "3.IH" [OF _ _ ap t(2)] "3.prems"(2) by simp
      with True Some t(1,3) ne [OF ap] show ?thesis
        by (simp add: bs path_get_Cons update_conv) (simp add: json_value_get_object_def)
    next
      case False
      with t(3) show ?thesis by (simp add: bs path_get_Cons update_conv)
    qed
  qed
qed simp

section \<open>Copying\<close>

text \<open>
  \<open>json_value_deep_copy\<close> copies an element through its accessor and adds it to the copy; the
  value under a key is looked up by that key. A number is refused where it is not finite.
\<close>

lemma size_map_of: "map_of ms k = Some v \<Longrightarrow> size v < size (VObject ms)"
proof -
  assume "map_of ms k = Some v"
  then have "(k, v) \<in> set ms" by (rule map_of_SomeD)
  from size_list_estimation' [OF this order_refl, of "size_prod (\<lambda>_. 0) size"] show ?thesis by simp
qed

lemma size_items: "x \<in> set xs \<Longrightarrow> size x < size (VArray xs)"
  using size_list_estimation' [of x xs "size x" size] by simp

fun copy_items :: "('n json_value \<Rightarrow> 'n json_value option) \<Rightarrow> 'n json_value list \<Rightarrow> 'n json_value list \<Rightarrow>
    'n json_value list option" where
  "copy_items cp acc [] = Some acc"
| "copy_items cp acc (x # xs) = (case cp x of None \<Rightarrow> None | Some y \<Rightarrow> copy_items cp (acc @ [y]) xs)"

fun copy_members :: "('n json_value \<Rightarrow> 'n json_value option) \<Rightarrow> 'n members \<Rightarrow> 'n members \<Rightarrow> 'n members \<Rightarrow>
    'n members option" where
  "copy_members cp ms acc [] = Some acc"
| "copy_members cp ms acc (m # rest) =
     (case map_of ms (fst m) of None \<Rightarrow> None
      | Some v \<Rightarrow> (case cp v of None \<Rightarrow> None
          | Some w \<Rightarrow> (case add_member acc (fst m) w of None \<Rightarrow> None
              | Some acc \<Rightarrow> copy_members cp ms acc rest)))"

lemma copy_items_cong [fundef_cong]:
  "xs = ys \<Longrightarrow> (\<And>x. x \<in> set ys \<Longrightarrow> f x = g x) \<Longrightarrow> copy_items f acc xs = copy_items g acc ys"
  by (induction ys arbitrary: xs acc) (auto split: option.split)

lemma copy_members_cong [fundef_cong]:
  "ms = ms' \<Longrightarrow> rest = rest' \<Longrightarrow> (\<And>k v. map_of ms' k = Some v \<Longrightarrow> f v = g v) \<Longrightarrow>
   copy_members f ms acc rest = copy_members g ms' acc rest'"
  by (induction rest' arbitrary: rest acc) (auto split: option.split)

function json_value_deep_copy :: "'n numlib \<Rightarrow> 'n json_value \<Rightarrow> 'n json_value option" where
  "json_value_deep_copy L v =
     (case v of
        VArray xs \<Rightarrow> map_option VArray (copy_items (json_value_deep_copy L) [] xs)
      | VObject ms \<Rightarrow> map_option VObject (copy_members (json_value_deep_copy L) ms [] ms)
      | VBoolean b \<Rightarrow> Some (VBoolean b)
      | VNumber x \<Rightarrow> json_value_init_number L x
      | VString s \<Rightarrow> Some (VString s)
      | VNull \<Rightarrow> Some VNull)"
  by pat_completeness auto
termination
  by (relation "measure (\<lambda>(L, v). size v)") (auto dest!: size_items size_map_of)

declare json_value_deep_copy.simps [simp del]

lemma deep_copy_scalars:
  "json_value_deep_copy L VNull = Some VNull" "json_value_deep_copy L (VString s) = Some (VString s)"
  "json_value_deep_copy L (VBoolean b) = Some (VBoolean b)"
  "json_value_deep_copy L (VNumber x) = json_value_init_number L x"
  by (subst json_value_deep_copy.simps, simp)+

fun json_valid :: "'n numlib \<Rightarrow> 'n json_value \<Rightarrow> bool" where
  "json_valid L (VArray xs) \<longleftrightarrow> (\<forall>x \<in> set xs. json_valid L x)"
| "json_valid L (VObject ms) \<longleftrightarrow> distinct (map fst ms) \<and> (\<forall>m \<in> set ms. json_valid L (snd m))"
| "json_valid L (VNumber x) \<longleftrightarrow> \<not> num_invalid L x"
| "json_valid L _ \<longleftrightarrow> True"

lemma copy_items_same: "(\<And>x. x \<in> set xs \<Longrightarrow> cp x = Some x) \<Longrightarrow> copy_items cp acc xs = Some (acc @ xs)"
  by (induction xs arbitrary: acc) auto

lemma copy_members_same:
  "distinct (map fst (acc @ rest)) \<Longrightarrow> (\<And>m. m \<in> set rest \<Longrightarrow> map_of ms (fst m) = Some (snd m) \<and> cp (snd m) = Some (snd m)) \<Longrightarrow>
   copy_members cp ms acc rest = Some (acc @ rest)"
  by (induction rest arbitrary: acc) (auto simp: add_member_def)

lemma deep_copy_same: "json_valid L v \<Longrightarrow> json_value_deep_copy L v = Some v"
proof (induction L v rule: json_value_deep_copy.induct)
  case (1 L v)
  show ?case
  proof (cases v)
    case (VArray xs)
    with 1 show ?thesis by (subst json_value_deep_copy.simps) (simp add: copy_items_same)
  next
    case (VObject ms)
    have "map_of ms (fst m) = Some (snd m)" if "m \<in> set ms" for m
      using that "1.prems" by (auto simp: VObject)
    moreover have "json_value_deep_copy L (snd m) = Some (snd m)" if "m \<in> set ms" for m
      using "1.IH"(1) [OF VObject] "1.prems" that calculation [OF that] by (cases m) (auto simp: VObject)
    ultimately show ?thesis
      using "1.prems" by (subst json_value_deep_copy.simps) (simp add: VObject copy_members_same)
  qed (use "1.prems" in \<open>simp_all add: deep_copy_scalars json_value_init_number_def\<close>)
qed

section \<open>Comparison\<close>

text \<open>Null pointers compare equal, as the code has it for \<open>JSONError\<close>.\<close>

function json_value_equals :: "'n numlib \<Rightarrow> 'n json_value option \<Rightarrow> 'n json_value option \<Rightarrow> bool" where
  "json_value_equals L a b =
     (if json_value_get_type a \<noteq> json_value_get_type b then False
      else case (a, b) of
          (Some (VArray xs), Some (VArray ys)) \<Rightarrow>
            length xs = length ys \<and> (\<forall>i \<in> {..<length xs}. json_value_equals L (Some (xs ! i)) (Some (ys ! i)))
        | (Some (VObject ms), Some (VObject ns)) \<Rightarrow>
            length ms = length ns \<and>
            (\<forall>k \<in> fst ` set ms. json_value_equals L (map_of ms k) (map_of ns k))
        | (Some (VString s), Some (VString t)) \<Rightarrow> s = t
        | (Some (VBoolean p), Some (VBoolean q)) \<Rightarrow> p = q
        | (Some (VNumber x), Some (VNumber y)) \<Rightarrow> num_close L x y
        | _ \<Rightarrow> True)"
  by pat_completeness auto
termination
proof (relation "measure (\<lambda>(L, a, b). size_option size a)", goal_cases)
  case (2 L a b a' b' v ms w ns k)
  then have "map_of ms k \<noteq> None" by (force simp: map_of_eq_None_iff)
  then obtain w where "map_of ms k = Some w" by blast
  with 2 size_map_of [of ms k w] show ?case by auto
next
  case (3 L a b a' b' v xs w ys i)
  then show ?case using size_items [of "xs ! i" xs] by auto
qed simp_all

declare json_value_equals.simps [simp del]

lemma equals_simps:
  "json_value_equals L (Some (VArray xs)) (Some (VArray ys)) \<longleftrightarrow>
     length xs = length ys \<and> (\<forall>i < length xs. json_value_equals L (Some (xs ! i)) (Some (ys ! i)))"
  "json_value_equals L (Some (VObject ms)) (Some (VObject ns)) \<longleftrightarrow>
     length ms = length ns \<and> (\<forall>k \<in> fst ` set ms. json_value_equals L (map_of ms k) (map_of ns k))"
  "json_value_equals L (Some (VString s)) (Some (VString t)) \<longleftrightarrow> s = t"
  "json_value_equals L (Some (VBoolean p)) (Some (VBoolean q)) \<longleftrightarrow> p = q"
  "json_value_equals L (Some (VNumber x)) (Some (VNumber y)) \<longleftrightarrow> num_close L x y"
  "json_value_equals L (Some VNull) (Some VNull)"
  "json_value_equals L None None"
  by (subst json_value_equals.simps; auto)+

lemma equals_type: "json_value_equals L a b \<Longrightarrow> json_value_get_type a = json_value_get_type b"
  by (subst (asm) json_value_equals.simps) (auto split: if_splits)

lemma equals_refl:
  "(\<forall>x. num_close L x x) \<Longrightarrow> json_valid L v \<Longrightarrow> json_value_equals L (Some v) (Some v)"
proof (induction L v rule: json_valid.induct)
  case (2 L ms)
  then show ?case by (auto simp: equals_simps)
qed (auto simp: equals_simps)

text \<open>Distinct names and equal lengths: if one object has all names of the other, both have the same.\<close>

lemma same_names:
  assumes "distinct (map fst ms)" "distinct (map fst ns)" "length ms = length ns" "fst ` set ms \<subseteq> fst ` set ns"
  shows "fst ` set ms = fst ` set ns"
proof -
  have "card (fst ` set ms) = length ms" "card (fst ` set ns) = length ns"
    using assms(1,2) by (metis distinct_card length_map set_map)+
  with assms(3,4) show ?thesis by (simp add: card_subset_eq)
qed

lemma equals_some: "json_value_equals L (Some v) b \<Longrightarrow> b \<noteq> None"
  by (cases b; cases v) (auto dest: equals_type)

lemma map_of_named: "k \<in> fst ` set ms \<longleftrightarrow> (\<exists>v. map_of ms k = Some v)"
  by (induction ms) auto

lemma equals_sym:
  "(\<forall>x y. num_close L x y \<longrightarrow> num_close L y x) \<Longrightarrow> json_valid L v \<Longrightarrow> json_valid L w \<Longrightarrow>
    json_value_equals L (Some v) (Some w) \<Longrightarrow> json_value_equals L (Some w) (Some v)"
proof (induction L v arbitrary: w rule: json_valid.induct)
  case (1 L xs)
  obtain ys where w: "w = VArray ys" using equals_type [OF "1.prems"(4)] by (cases w) auto
  with 1 show ?case by (simp add: equals_simps)
next
  case (2 L ms)
  obtain ns where w: "w = VObject ns" using equals_type [OF "2.prems"(4)] by (cases w) auto
  have d: "distinct (map fst ms)" "distinct (map fst ns)" "length ms = length ns"
    and e: "\<And>k. k \<in> fst ` set ms \<Longrightarrow> json_value_equals L (map_of ms k) (map_of ns k)"
    using "2.prems" by (auto simp: w equals_simps)
  have "k \<in> fst ` set ns" if k: "k \<in> fst ` set ms" for k
  proof -
    obtain v where "map_of ms k = Some v" using map_of_named [THEN iffD1, OF k] by blast
    with e [OF k] have "json_value_equals L (Some v) (map_of ns k)" by simp
    then have "map_of ns k \<noteq> None" by (rule equals_some)
    then show ?thesis by (simp add: map_of_named)
  qed
  then have names: "fst ` set ns = fst ` set ms" using same_names [OF d] by blast
  have "json_value_equals L (map_of ns k) (map_of ms k)" if k: "k \<in> fst ` set ms" for k
  proof -
    obtain v u where vu: "map_of ms k = Some v" "map_of ns k = Some u"
      using map_of_named [THEN iffD1, OF k] map_of_named [THEN iffD1, of k ns] k names by (auto simp only:)
    then have "(k, v) \<in> set ms" "(k, u) \<in> set ns" by (simp_all add: map_of_SomeD)
    moreover from this have "json_valid L v" "json_valid L u" using "2.prems"(2,3) by (auto simp: w)
    ultimately show ?thesis
      using "2.IH" [of "(k, v)" u] "2.prems"(1) e [OF k] vu by simp
  qed
  with d(3) names show ?case by (simp add: w equals_simps)
next
  case (3 L x)
  then show ?case using equals_type [OF "3.prems"(4)] by (cases w) (simp_all add: equals_simps)
next
  case "4_1"
  then show ?case using equals_type [OF "4_1.prems"(4)] by (cases w) (simp_all add: equals_simps)
next
  case "4_2"
  then show ?case using equals_type [OF "4_2.prems"(4)] by (cases w) (simp_all add: equals_simps)
next
  case "4_3"
  then show ?case using equals_type [OF "4_3.prems"(4)] by (cases w) (simp_all add: equals_simps)
qed

section \<open>Validation\<close>

function json_validate :: "'n json_value option \<Rightarrow> 'n json_value option \<Rightarrow> bool" where
  "json_validate schema value =
     (if schema = None \<or> value = None then False
      else if json_value_get_type schema \<noteq> json_value_get_type value \<and> json_value_get_type schema \<noteq> JSONNull
      then False
      else case (schema, value) of
          (Some (VArray ss), Some (VArray vs)) \<Rightarrow>
            (case ss of [] \<Rightarrow> True | temp_schema # _ \<Rightarrow> (\<forall>v \<in> set vs. json_validate (Some temp_schema) (Some v)))
        | (Some (VObject sm), Some (VObject vm)) \<Rightarrow>
            if sm = [] then True
            else if length vm < length sm then False
            else (\<forall>key \<in> fst ` set sm. map_of vm key \<noteq> None \<and> json_validate (map_of sm key) (map_of vm key))
        | _ \<Rightarrow> True)"
  by pat_completeness auto
termination
proof (relation "measure (\<lambda>(s, v). size_option size s)", goal_cases)
  case (2 s v s' v' a sm b vm key)
  then have "map_of sm key \<noteq> None" by (force simp: map_of_eq_None_iff)
  then obtain u where "map_of sm key = Some u" by blast
  with 2 size_map_of [of sm key u] show ?case by auto
qed (auto dest: size_items)

declare json_validate.simps [simp del]

end
