(* ===== verification/JsonComments.thy ===== *)
theory JsonComments
  imports JsonRoundtrip
begin

text \<open>
  Comments in \<^verbatim>\<open>Tema_3/parson.c\<close>: \<open>remove_comments\<close> overwrites them with blanks before the
  text is parsed. The loop has two flags, whether it is inside a string and whether the last
  character was an unescaped backslash; its result here is the text it leaves in the buffer.
\<close>

function strip_comments :: "string \<Rightarrow> string \<Rightarrow> bool \<Rightarrow> bool \<Rightarrow> string \<Rightarrow> string" where
  "strip_comments start_token end_token in_string escaped s =
     (case s of [] \<Rightarrow> []
      | c # cs \<Rightarrow>
          if c = BACKSLASH \<and> \<not> escaped then c # strip_comments start_token end_token in_string True cs
          else if c = DQUOTE \<and> \<not> escaped then c # strip_comments start_token end_token (\<not> in_string) False cs
          else if \<not> in_string \<and> starts_with start_token s
          then let rest = drop (length start_token) s
            in (case strstr rest end_token of
                  None \<Rightarrow> replicate (length start_token) (CHR '' '') @ rest
                | Some k \<Rightarrow>
                    if start_token = [] \<or> end_token = [] then s
                    else replicate (length start_token + k + length end_token) (CHR '' '') @
                      strip_comments start_token end_token in_string False (drop (k + length end_token) rest))
          else c # strip_comments start_token end_token in_string False cs)"
  by pat_completeness auto
termination
  by (relation "measure (\<lambda>(st, en, ins, esc, s). length s)") (auto split: if_splits)

declare strip_comments.simps [simp del]

text \<open>
  The test for empty tokens stands at the head of \<open>remove_comments\<close>; inside the loop it only
  keeps the recursion well founded. The four ways through the loop's body:
\<close>

lemma strip_Nil [simp]: "strip_comments st en ins esc [] = []"
  by (simp add: strip_comments.simps)

lemma strip_backslash: "strip_comments st en ins False (BACKSLASH # cs) = BACKSLASH # strip_comments st en ins True cs"
  by (subst strip_comments.simps) simp

lemma strip_quote: "strip_comments st en ins False (DQUOTE # cs) = DQUOTE # strip_comments st en (\<not> ins) False cs"
  by (subst strip_comments.simps) simp

lemma strip_other:
  "c = BACKSLASH \<or> c = DQUOTE \<longrightarrow> esc \<Longrightarrow> ins \<or> \<not> starts_with st (c # cs) \<Longrightarrow>
   strip_comments st en ins esc (c # cs) = c # strip_comments st en ins False cs"
  by (subst strip_comments.simps) auto

lemma strip_comment:
  "c = BACKSLASH \<or> c = DQUOTE \<longrightarrow> esc \<Longrightarrow> starts_with st (c # cs) \<Longrightarrow> st \<noteq> [] \<Longrightarrow> en \<noteq> [] \<Longrightarrow>
   strip_comments st en False esc (c # cs) =
     (case strstr (drop (length st) (c # cs)) en of
        None \<Rightarrow> replicate (length st) (CHR '' '') @ drop (length st) (c # cs)
      | Some k \<Rightarrow> replicate (length st + k + length en) (CHR '' '') @
          strip_comments st en False False (drop (k + length en) (drop (length st) (c # cs))))"
  by (subst strip_comments.simps) (auto simp: Let_def split: option.split)

definition remove_comments :: "string \<Rightarrow> string \<Rightarrow> string \<Rightarrow> string" where
  "remove_comments string start_token end_token =
     (if start_token = [] \<or> end_token = [] then string
      else strip_comments start_token end_token False False string)"

definition json_parse_string_with_comments :: "'n numlib \<Rightarrow> string \<Rightarrow> 'n json_value parsed" where
  "json_parse_string_with_comments L str =
     (let s = remove_comments (remove_comments str ''/*'' ''*/'') ''//'' ''\<newline>''
      in parse_value L (fuel_for s) s 0)"

section \<open>Blanks only\<close>

text \<open>The text keeps its length, and every character stays or becomes a blank.\<close>

definition blanked :: "string \<Rightarrow> string \<Rightarrow> bool" where
  "blanked s t \<longleftrightarrow> list_all2 (\<lambda>a b. b = a \<or> b = CHR '' '') s t"

lemma blanked_refl [simp]: "blanked s s"
  by (simp add: blanked_def list_all2_refl)

lemma blanked_Cons [simp]: "blanked (c # s) (d # t) \<longleftrightarrow> (d = c \<or> d = CHR '' '') \<and> blanked s t"
  by (simp add: blanked_def)

lemma blanked_replicate: "n \<le> length s \<Longrightarrow> blanked (drop n s) t \<Longrightarrow> blanked s (replicate n (CHR '' '') @ t)"
proof (induction n arbitrary: s)
  case (Suc n)
  then show ?case by (cases s) auto
qed simp

lemma blanked_trans: "blanked r s \<Longrightarrow> blanked s t \<Longrightarrow> blanked r t"
  unfolding blanked_def by (rule list_all2_trans [of _ "\<lambda>a b. b = a \<or> b = CHR '' ''"]) auto

lemma blanked_length: "blanked s t \<Longrightarrow> length t = length s"
  by (simp add: blanked_def list_all2_lengthD)

lemma starts_with_length: "starts_with p s \<Longrightarrow> length p \<le> length s"
  by (auto simp: starts_with_iff)

lemma strip_comments_blanked:
  assumes "st \<noteq> []" "en \<noteq> []"
  shows "blanked s (strip_comments st en ins esc s)"
proof (induction s arbitrary: ins esc rule: length_induct)
  case (1 s)
  show ?case
  proof (cases s)
    case (Cons c cs)
    have IH: "blanked cs (strip_comments st en ins esc cs)" for ins esc using 1 by (simp add: Cons)
    consider "c = BACKSLASH" "\<not> esc" | "c = DQUOTE" "\<not> esc"
      | "c = BACKSLASH \<or> c = DQUOTE \<longrightarrow> esc" "\<not> ins" "starts_with st (c # cs)"
      | "c = BACKSLASH \<or> c = DQUOTE \<longrightarrow> esc" "ins \<or> \<not> starts_with st (c # cs)" by blast
    then show ?thesis
    proof cases
      case 3
      let ?rest = "drop (length st) s"
      have l: "length st \<le> length s" using starts_with_length [OF 3(3)] by (simp add: Cons)
      show ?thesis
      proof (cases "strstr ?rest en")
        case None
        with 3 assms l show ?thesis by (simp add: Cons strip_comment blanked_replicate)
      next
        case (Some k)
        have "\<exists>r. drop k ?rest = en @ r" using strstr_Some [OF Some] by blast
        then have "length en \<le> length (drop k ?rest)" by (metis le_add1 length_append)
        then have "length en \<le> length s - length st - k" by simp
        moreover have "0 < length en" using assms(2) by blast
        ultimately have k: "length st + k + length en \<le> length s" using l by linarith
        have "blanked (drop (length st + k + length en) s) (strip_comments st en False False (drop (k + length en) ?rest))"
        proof -
          have "0 < length st" using assms(1) by blast
          then have "length (drop (length st + k + length en) s) < length s" using k unfolding length_drop by linarith
          with 1 show ?thesis by (simp add: add_ac)
        qed
        with k have "blanked s (replicate (length st + k + length en) (CHR '' '') @
            strip_comments st en False False (drop (k + length en) ?rest))" by (rule blanked_replicate)
        with 3 assms Some show ?thesis by (simp add: Cons strip_comment)
      qed
    qed (simp_all add: Cons strip_backslash strip_quote strip_other IH)
  qed simp
qed

lemma remove_comments_blanked: "blanked s (remove_comments s st en)"
  by (simp add: remove_comments_def strip_comments_blanked)

section \<open>Serialized text has no comments\<close>

lemma strip_plain:
  "\<forall>c \<in> set t. c \<noteq> BACKSLASH \<and> c \<noteq> DQUOTE \<and> c \<noteq> CHR ''/'' \<Longrightarrow>
   strip_comments (CHR ''/'' # st) en False False (t @ s) = t @ strip_comments (CHR ''/'' # st) en False False s"
  by (induction t) (simp_all add: strip_other starts_with_def)

lemma strip_escape_char:
  "strip_comments st en True False (escape_char esc c @ s) = escape_char esc c @ strip_comments st en True False s"
proof (cases rule: escape_char_cases [of c esc])
  case control
  have h: "hex_digit d \<noteq> DQUOTE" "hex_digit d \<noteq> BACKSLASH" if "d < 16" for d
    using that by (auto simp: hex_digit_def char_eq_uchar simp del: of_char_eq_iff)
  have "uchar c div 16 < 16" using uchar_less [of c] by linarith
  with control show ?thesis by (simp add: strip_backslash strip_other h)
next
  case (simple d)
  then show ?thesis by (simp add: strip_backslash strip_other)
next
  case plain
  then have "c \<noteq> DQUOTE" by (auto simp: escape_char_def)
  with plain show ?thesis by (simp add: strip_other)
qed

lemma strip_quoted:
  "strip_comments st en False False (quoted esc str @ s) = quoted esc str @ strip_comments st en False False s"
proof -
  have "strip_comments st en True False (concat (map (escape_char esc) str) @ s) =
      concat (map (escape_char esc) str) @ strip_comments st en True False s" for s
    by (induction str) (simp_all add: strip_escape_char)
  then show ?thesis by (simp add: quoted_def strip_quote)
qed

lemma number_text_plain: "number_text t \<Longrightarrow> c \<in> set t \<Longrightarrow> isdigit c \<or> c \<in> set ''-+.e''"
  by (auto simp: number_text_def fraction_text_def exponent_text_def digits_def)

text \<open>Text the loop passes over, outside strings, without a change.\<close>

definition comment_free :: "string \<Rightarrow> string \<Rightarrow> string \<Rightarrow> bool" where
  "comment_free st en t \<longleftrightarrow>
     (\<forall>s. strip_comments (CHR ''/'' # st) en False False (t @ s) = t @ strip_comments (CHR ''/'' # st) en False False s)"

lemma strip_json_text:
  "json_wf L v \<Longrightarrow> comment_free st en (json_text L esc pr n v)"
  "\<forall>x \<in> set xs. json_wf L x \<Longrightarrow> comment_free st en (items_text L esc pr n xs)"
  "\<forall>m \<in> set ms. json_wf L (snd m) \<Longrightarrow> comment_free st en (members_text L esc pr n ms)"
proof (induction L esc pr n v and L esc pr n xs and L esc pr n ms rule: json_text_items_text_members_text.induct)
  case (5 L esc pr n x)
  then have "\<forall>c \<in> set (num_text L x). c \<noteq> BACKSLASH \<and> c \<noteq> DQUOTE \<and> c \<noteq> CHR ''/''"
    using number_text_plain by (fastforce simp: num_ok_def isdigit_def)
  then show ?case by (simp add: comment_free_def strip_plain)
qed (simp_all add: comment_free_def strip_other strip_quoted starts_with_def spaces_def strip_plain)

lemma remove_comments_text:
  assumes "json_wf L v"
  shows "remove_comments (json_text L esc pr n v) (CHR ''/'' # st) en = json_text L esc pr n v"
proof -
  have "strip_comments (CHR ''/'' # st) en False False (json_text L esc pr n v @ []) = json_text L esc pr n v @ []"
    using strip_json_text(1) [OF assms, of st en esc pr n] unfolding comment_free_def by (metis strip_Nil)
  then show ?thesis by (simp add: remove_comments_def)
qed

section \<open>A comment before a value\<close>

lemma parse_with_comments:
  assumes "json_wf L v" "json_depth v \<le> MAX_NESTING" "strstr (c @ ''*/'') ''*/'' = Some (length c)"
  shows "json_parse_string_with_comments L (json_text L esc pr n v) = Parsed v []"
    and "json_parse_string_with_comments L (''/*'' @ c @ ''*/'' @ json_text L esc pr n v) = Parsed v []"
proof -
  let ?t = "json_text L esc pr n v" and ?ws = "replicate (4 + length c) (CHR '' '')"
  have parse: "parse_value L (fuel_for (ws @ ?t)) (ws @ ?t) 0 = Parsed v []" if "\<forall>x \<in> set ws. isspace x" for ws
    using readsD [OF parse_value_reads [OF assms(1)], of 0 ws "[]" esc pr n "fuel_for (ws @ ?t)"] assms(2) that
    by (simp add: fuel_for_def del: parse_value.simps)
  show "json_parse_string_with_comments L ?t = Parsed v []"
    using parse [of "[]"] by (simp add: json_parse_string_with_comments_def remove_comments_text [OF assms(1)] del: parse_value.simps)
  have "strstr (c @ ''*/'' @ ?t) ''*/'' = Some (length c)"
    using strstr_append [OF assms(3), of ?t] by simp
  then have "remove_comments (''/*'' @ c @ ''*/'' @ ?t) ''/*'' ''*/'' = ?ws @ ?t"
    using remove_comments_text [OF assms(1), of esc pr n "''*''" "''*/''"]
    by (simp add: remove_comments_def strip_comment starts_with_def eval_nat_numeral)
  moreover have "remove_comments (?ws @ ?t) ''//'' ''\<newline>'' = ?ws @ ?t"
    using remove_comments_text [OF assms(1), of esc pr n "''/''" "''\<newline>''"] strip_plain [of ?ws "''/''" "''\<newline>''" ?t]
    by (simp add: remove_comments_def)
  moreover have "\<forall>x \<in> set ?ws. isspace x" by (simp add: isspace_def)
  ultimately show "json_parse_string_with_comments L (''/*'' @ c @ ''*/'' @ ?t) = Parsed v []"
    using parse [of ?ws] by (simp only: json_parse_string_with_comments_def Let_def)
qed

end
