(* ===== verification/JsonApi.thy ===== *)
theory JsonApi
  imports JsonOps JsonComments
begin

text \<open>
  The remaining interface of \<^verbatim>\<open>Tema_3/parson.c\<close>: constructors of values, accessors by type,
  the setters that build the value they store, and the functions that read and write files. A
  setter whose value cannot be built, or which cannot store it, frees the value and changes nothing.
\<close>

section \<open>Constructors\<close>

text \<open>
  A value that is not \<open>NULL\<close>; the string is a buffer of at least \<open>len\<close> bytes. A C string is
  as long as its list of characters.
\<close>

definition json_value_init_string_with_len :: "string option \<Rightarrow> nat \<Rightarrow> 'n json_value option" where
  "json_value_init_string_with_len str len =
     (case str of None \<Rightarrow> None
      | Some s \<Rightarrow> if \<not> is_valid_utf8 s len then None else Some (VString (take len s)))"

definition json_value_init_string :: "string option \<Rightarrow> 'n json_value option" where
  "json_value_init_string str =
     (case str of None \<Rightarrow> None | Some s \<Rightarrow> json_value_init_string_with_len str (length s))"

definition json_value_init_boolean :: "int \<Rightarrow> 'n json_value option" where
  "json_value_init_boolean b = Some (VBoolean (b \<noteq> 0))"

definition json_value_init_null :: "'n json_value option" where
  "json_value_init_null = Some VNull"

definition json_value_init_object :: "'n json_value option" where
  "json_value_init_object = Some (VObject [])"

definition json_value_init_array :: "'n json_value option" where
  "json_value_init_array = Some (VArray [])"

section \<open>Accessors\<close>

text \<open>A number read from what is no number is the zero of the number type.\<close>

definition json_value_get_string_len :: "'n json_value option \<Rightarrow> nat" where
  "json_value_get_string_len value = (case json_value_get_string value of None \<Rightarrow> 0 | Some s \<Rightarrow> length s)"

definition json_value_get_number :: "'n \<Rightarrow> 'n json_value option \<Rightarrow> 'n" where
  "json_value_get_number zero value = (case value of Some (VNumber x) \<Rightarrow> x | _ \<Rightarrow> zero)"

definition json_object_get_string_len :: "'n members option \<Rightarrow> string \<Rightarrow> nat" where
  "json_object_get_string_len obj name = json_value_get_string_len (json_object_get_value obj name)"

definition json_object_get_number :: "'n \<Rightarrow> 'n members option \<Rightarrow> string \<Rightarrow> 'n" where
  "json_object_get_number zero obj name = json_value_get_number zero (json_object_get_value obj name)"

definition json_object_get_object :: "'n members option \<Rightarrow> string \<Rightarrow> 'n members option" where
  "json_object_get_object obj name = json_value_get_object (json_object_get_value obj name)"

definition json_object_get_array :: "'n members option \<Rightarrow> string \<Rightarrow> 'n json_value list option" where
  "json_object_get_array obj name = json_value_get_array (json_object_get_value obj name)"

definition json_object_get_boolean :: "'n members option \<Rightarrow> string \<Rightarrow> int" where
  "json_object_get_boolean obj name = json_value_get_boolean (json_object_get_value obj name)"

definition json_object_dotget_string :: "'n members option \<Rightarrow> string \<Rightarrow> string option" where
  "json_object_dotget_string obj name = json_value_get_string (json_object_dotget_value obj name)"

definition json_object_dotget_string_len :: "'n members option \<Rightarrow> string \<Rightarrow> nat" where
  "json_object_dotget_string_len obj name = json_value_get_string_len (json_object_dotget_value obj name)"

definition json_object_dotget_number :: "'n \<Rightarrow> 'n members option \<Rightarrow> string \<Rightarrow> 'n" where
  "json_object_dotget_number zero obj name = json_value_get_number zero (json_object_dotget_value obj name)"

definition json_object_dotget_object :: "'n members option \<Rightarrow> string \<Rightarrow> 'n members option" where
  "json_object_dotget_object obj name = json_value_get_object (json_object_dotget_value obj name)"

definition json_object_dotget_array :: "'n members option \<Rightarrow> string \<Rightarrow> 'n json_value list option" where
  "json_object_dotget_array obj name = json_value_get_array (json_object_dotget_value obj name)"

definition json_object_dotget_boolean :: "'n members option \<Rightarrow> string \<Rightarrow> int" where
  "json_object_dotget_boolean obj name = json_value_get_boolean (json_object_dotget_value obj name)"

definition json_object_get_count :: "'n members option \<Rightarrow> nat" where
  "json_object_get_count obj = (case obj of None \<Rightarrow> 0 | Some ms \<Rightarrow> length ms)"

definition json_object_has_value :: "'n members option \<Rightarrow> string \<Rightarrow> bool" where
  "json_object_has_value obj name \<longleftrightarrow> json_object_get_value obj name \<noteq> None"

definition json_object_has_value_of_type :: "'n members option \<Rightarrow> string \<Rightarrow> json_value_type \<Rightarrow> bool" where
  "json_object_has_value_of_type obj name ty \<longleftrightarrow>
     (let val = json_object_get_value obj name in val \<noteq> None \<and> json_value_get_type val = ty)"

definition json_object_dothas_value :: "'n members option \<Rightarrow> string \<Rightarrow> bool" where
  "json_object_dothas_value obj name \<longleftrightarrow> json_object_dotget_value obj name \<noteq> None"

definition json_object_dothas_value_of_type :: "'n members option \<Rightarrow> string \<Rightarrow> json_value_type \<Rightarrow> bool" where
  "json_object_dothas_value_of_type obj name ty \<longleftrightarrow>
     (let val = json_object_dotget_value obj name in val \<noteq> None \<and> json_value_get_type val = ty)"

text \<open>Items of an array, through the slots of theory \<open>JsonObject\<close>.\<close>

definition json_array_get_string :: "'n json_value json_array \<Rightarrow> nat \<Rightarrow> (string option) c_result" where
  "json_array_get_string arr index = c_bind (json_array_get_value arr index) (\<lambda>v. Inr (json_value_get_string v))"

definition json_array_get_string_len :: "'n json_value json_array \<Rightarrow> nat \<Rightarrow> nat c_result" where
  "json_array_get_string_len arr index = c_bind (json_array_get_value arr index) (\<lambda>v. Inr (json_value_get_string_len v))"

definition json_array_get_number :: "'n \<Rightarrow> 'n json_value json_array \<Rightarrow> nat \<Rightarrow> 'n c_result" where
  "json_array_get_number zero arr index = c_bind (json_array_get_value arr index) (\<lambda>v. Inr (json_value_get_number zero v))"

definition json_array_get_object :: "'n json_value json_array \<Rightarrow> nat \<Rightarrow> ('n members option) c_result" where
  "json_array_get_object arr index = c_bind (json_array_get_value arr index) (\<lambda>v. Inr (json_value_get_object v))"

definition json_array_get_array :: "'n json_value json_array \<Rightarrow> nat \<Rightarrow> ('n json_value list option) c_result" where
  "json_array_get_array arr index = c_bind (json_array_get_value arr index) (\<lambda>v. Inr (json_value_get_array v))"

definition json_array_get_boolean :: "'n json_value json_array \<Rightarrow> nat \<Rightarrow> int c_result" where
  "json_array_get_boolean arr index = c_bind (json_array_get_value arr index) (\<lambda>v. Inr (json_value_get_boolean v))"

definition json_array_get_count :: "'v json_array option \<Rightarrow> nat" where
  "json_array_get_count arr = (case arr of None \<Rightarrow> 0 | Some a \<Rightarrow> acount a)"

section \<open>The short names\<close>

text \<open>Each is the accessor it calls; \<open>json_object\<close> and \<open>json_array\<close> are the names of records here.\<close>

definition json_type :: "'n json_value option \<Rightarrow> json_value_type" where
  "json_type value = json_value_get_type value"

definition json_object_alias :: "'n json_value option \<Rightarrow> 'n members option" where
  "json_object_alias value = json_value_get_object value"

definition json_array_alias :: "'n json_value option \<Rightarrow> 'n json_value list option" where
  "json_array_alias value = json_value_get_array value"

definition json_string :: "'n json_value option \<Rightarrow> string option" where
  "json_string value = json_value_get_string value"

definition json_string_len :: "'n json_value option \<Rightarrow> nat" where
  "json_string_len value = json_value_get_string_len value"

definition json_number :: "'n \<Rightarrow> 'n json_value option \<Rightarrow> 'n" where
  "json_number zero value = json_value_get_number zero value"

definition json_boolean :: "'n json_value option \<Rightarrow> int" where
  "json_boolean value = json_value_get_boolean value"

section \<open>Setters that build their value\<close>

definition store_new :: "'v option \<Rightarrow> ('v \<Rightarrow> 'c option c_result) \<Rightarrow> 'c option c_result" where
  "store_new value op = (case value of None \<Rightarrow> Inr None | Some v \<Rightarrow> op v)"

definition json_array_replace_string :: "'n json_value json_array \<Rightarrow> nat \<Rightarrow> string option \<Rightarrow> 'n json_value json_array option c_result" where
  "json_array_replace_string arr i str =
     store_new (json_value_init_string str) (json_array_replace_value arr i False)"

definition json_array_replace_string_with_len :: "'n json_value json_array \<Rightarrow> nat \<Rightarrow> string option \<Rightarrow> nat \<Rightarrow> 'n json_value json_array option c_result" where
  "json_array_replace_string_with_len arr i str len =
     store_new (json_value_init_string_with_len str len) (json_array_replace_value arr i False)"

definition json_array_replace_number :: "'n numlib \<Rightarrow> 'n json_value json_array \<Rightarrow> nat \<Rightarrow> 'n \<Rightarrow> 'n json_value json_array option c_result" where
  "json_array_replace_number L arr i x =
     store_new (json_value_init_number L x) (json_array_replace_value arr i False)"

definition json_array_replace_boolean :: "'n json_value json_array \<Rightarrow> nat \<Rightarrow> int \<Rightarrow> 'n json_value json_array option c_result" where
  "json_array_replace_boolean arr i b =
     store_new (json_value_init_boolean b) (json_array_replace_value arr i False)"

definition json_array_replace_null :: "'n json_value json_array \<Rightarrow> nat \<Rightarrow> 'n json_value json_array option c_result" where
  "json_array_replace_null arr i =
     store_new (json_value_init_null) (json_array_replace_value arr i False)"

definition json_array_append_string :: "'n json_value json_array \<Rightarrow> string option \<Rightarrow> 'n json_value json_array option c_result" where
  "json_array_append_string arr str =
     store_new (json_value_init_string str) (json_array_append_value arr False)"

definition json_array_append_string_with_len :: "'n json_value json_array \<Rightarrow> string option \<Rightarrow> nat \<Rightarrow> 'n json_value json_array option c_result" where
  "json_array_append_string_with_len arr str len =
     store_new (json_value_init_string_with_len str len) (json_array_append_value arr False)"

definition json_array_append_number :: "'n numlib \<Rightarrow> 'n json_value json_array \<Rightarrow> 'n \<Rightarrow> 'n json_value json_array option c_result" where
  "json_array_append_number L arr x =
     store_new (json_value_init_number L x) (json_array_append_value arr False)"

definition json_array_append_boolean :: "'n json_value json_array \<Rightarrow> int \<Rightarrow> 'n json_value json_array option c_result" where
  "json_array_append_boolean arr b =
     store_new (json_value_init_boolean b) (json_array_append_value arr False)"

definition json_array_append_null :: "'n json_value json_array \<Rightarrow> 'n json_value json_array option c_result" where
  "json_array_append_null arr =
     store_new (json_value_init_null) (json_array_append_value arr False)"

definition json_object_set_string :: "'n json_value json_object \<Rightarrow> string \<Rightarrow> string option \<Rightarrow> 'n json_value json_object option c_result" where
  "json_object_set_string obj name str =
     store_new (json_value_init_string str) (json_object_set_value obj name False)"

definition json_object_set_string_with_len :: "'n json_value json_object \<Rightarrow> string \<Rightarrow> string option \<Rightarrow> nat \<Rightarrow> 'n json_value json_object option c_result" where
  "json_object_set_string_with_len obj name str len =
     store_new (json_value_init_string_with_len str len) (json_object_set_value obj name False)"

definition json_object_set_number :: "'n numlib \<Rightarrow> 'n json_value json_object \<Rightarrow> string \<Rightarrow> 'n \<Rightarrow> 'n json_value json_object option c_result" where
  "json_object_set_number L obj name x =
     store_new (json_value_init_number L x) (json_object_set_value obj name False)"

definition json_object_set_boolean :: "'n json_value json_object \<Rightarrow> string \<Rightarrow> int \<Rightarrow> 'n json_value json_object option c_result" where
  "json_object_set_boolean obj name b =
     store_new (json_value_init_boolean b) (json_object_set_value obj name False)"

definition json_object_set_null :: "'n json_value json_object \<Rightarrow> string \<Rightarrow> 'n json_value json_object option c_result" where
  "json_object_set_null obj name =
     store_new (json_value_init_null) (json_object_set_value obj name False)"

text \<open>By path, on the members of the object.\<close>

definition json_object_dotset_string :: "'n members \<Rightarrow> string \<Rightarrow> string option \<Rightarrow> 'n members option" where
  "json_object_dotset_string ms name str =
     (case json_value_init_string str of None \<Rightarrow> None | Some v \<Rightarrow> json_object_dotset_value ms name False v)"

definition json_object_dotset_string_with_len :: "'n members \<Rightarrow> string \<Rightarrow> string option \<Rightarrow> nat \<Rightarrow> 'n members option" where
  "json_object_dotset_string_with_len ms name str len =
     (case json_value_init_string_with_len str len of None \<Rightarrow> None | Some v \<Rightarrow> json_object_dotset_value ms name False v)"

definition json_object_dotset_number :: "'n numlib \<Rightarrow> 'n members \<Rightarrow> string \<Rightarrow> 'n \<Rightarrow> 'n members option" where
  "json_object_dotset_number L ms name x =
     (case json_value_init_number L x of None \<Rightarrow> None | Some v \<Rightarrow> json_object_dotset_value ms name False v)"

definition json_object_dotset_boolean :: "'n members \<Rightarrow> string \<Rightarrow> int \<Rightarrow> 'n members option" where
  "json_object_dotset_boolean ms name b =
     (case json_value_init_boolean b of None \<Rightarrow> None | Some v \<Rightarrow> json_object_dotset_value ms name False v)"

definition json_object_dotset_null :: "'n members \<Rightarrow> string \<Rightarrow> 'n members option" where
  "json_object_dotset_null ms name =
     (case json_value_init_null of None \<Rightarrow> None | Some v \<Rightarrow> json_object_dotset_value ms name False v)"

section \<open>Pretty printing\<close>

definition json_serialization_size_pretty :: "'n numlib \<Rightarrow> bool \<Rightarrow> 'n json_value option \<Rightarrow> nat" where
  "json_serialization_size_pretty L esc value =
     (case json_serialize_to_buffer_r L esc value None True of None \<Rightarrow> 0 | Some (res, buf) \<Rightarrow> res + 1)"

definition json_serialize_to_buffer_pretty :: "'n numlib \<Rightarrow> bool \<Rightarrow> 'n json_value option \<Rightarrow> nat \<Rightarrow> string option" where
  "json_serialize_to_buffer_pretty L esc value buf_size_in_bytes =
     (let needed_size_in_bytes = json_serialization_size_pretty L esc value
      in if needed_size_in_bytes = 0 \<or> buf_size_in_bytes < needed_size_in_bytes then None
         else case json_serialize_to_buffer_r L esc value (Some []) True of
           None \<Rightarrow> None | Some (written, buf) \<Rightarrow> buf)"

definition json_serialize_to_string_pretty :: "'n numlib \<Rightarrow> bool \<Rightarrow> 'n json_value option \<Rightarrow> string option" where
  "json_serialize_to_string_pretty L esc value =
     (let buf_size_bytes = json_serialization_size_pretty L esc value
      in if buf_size_bytes = 0 then None
         else json_serialize_to_buffer_pretty L esc value buf_size_bytes)"

section \<open>Files\<close>

text \<open>
  What reading the file gave, \<open>None\<close> where it could not be opened or read; an empty file is not
  read. The text handed on ends at the first terminator in it. Writing takes whether the file
  could be opened and whether all was written, and gives the status with the text written.
\<close>

definition read_file :: "string option \<Rightarrow> string option" where
  "read_file contents =
     (case contents of None \<Rightarrow> None
      | Some s \<Rightarrow> if length s = 0 then None else Some (takeWhile (\<lambda>c. c \<noteq> NUL) s))"

definition json_parse_file :: "'n numlib \<Rightarrow> string option \<Rightarrow> 'n json_value parsed" where
  "json_parse_file L contents =
     (case read_file contents of None \<Rightarrow> Failed | Some s \<Rightarrow> json_parse_string L (Some s))"

definition json_parse_file_with_comments :: "'n numlib \<Rightarrow> string option \<Rightarrow> 'n json_value parsed" where
  "json_parse_file_with_comments L contents =
     (case read_file contents of None \<Rightarrow> Failed | Some s \<Rightarrow> json_parse_string_with_comments L s)"

definition json_serialize_to_file :: "'n numlib \<Rightarrow> bool \<Rightarrow> 'n json_value option \<Rightarrow> bool \<Rightarrow> bool \<Rightarrow> bool \<times> string option" where
  "json_serialize_to_file L esc value can_open written =
     (case json_serialize_to_string L esc False value of None \<Rightarrow> (False, None)
      | Some s \<Rightarrow> if \<not> can_open then (False, None) else (written, Some s))"

definition json_serialize_to_file_pretty :: "'n numlib \<Rightarrow> bool \<Rightarrow> 'n json_value option \<Rightarrow> bool \<Rightarrow> bool \<Rightarrow> bool \<times> string option" where
  "json_serialize_to_file_pretty L esc value can_open written =
     (case json_serialize_to_string_pretty L esc value of None \<Rightarrow> (False, None)
      | Some s \<Rightarrow> if \<not> can_open then (False, None) else (written, Some s))"

end
