(* ===== verification/JsonProps.thy ===== *)
theory JsonProps
  imports JsonRoundtrip
begin

text \<open>
  The properties of the JSON text functions of \<^verbatim>\<open>Tema_3/parson.c\<close>. The instances use the
  numbers an integer format reads and prints.
\<close>

section \<open>A number library\<close>

text \<open>Integers below \<open>10 ^ 17\<close> are what \<open>"%1.17g"\<close> prints without point or exponent.\<close>

definition int_lib :: "int numlib" where
  "int_lib = \<lparr>num_value = (\<lambda>t. if peek t = CHR ''-'' then - int (digits_value (drop 1 t)) else int (digits_value t)),
     num_errno = (\<lambda>t. False), num_text = int_text, num_invalid = (\<lambda>n. False), num_close = (\<lambda>m n. m = n)\<rparr>"

lemma int_lib_ok: "num_ok int_lib n"
proof -
  have d: "digits (nat_text k)" for k using nat_text_digits by (auto simp: digits_def)
  have z: "peek (nat_text k) = CHR ''0'' \<longrightarrow> length (nat_text k) = 1" for k
    using nat_text_leading [of k] by (cases "k = 0") (auto simp: nat_text.simps)
  have "number_text (int_text n)"
  proof (cases "n < 0")
    case True
    with d z show ?thesis
      unfolding number_text_def
      by (intro exI [of _ "''-''"] exI [of _ "nat_text (nat (- n))"] exI [of _ "[]"])
        (simp add: int_text_def fraction_text_def exponent_text_def)
  next
    case False
    with d z show ?thesis
      unfolding number_text_def
      by (intro exI [of _ "[]"] exI [of _ "nat_text (nat n)"] exI [of _ "[]"])
        (simp add: int_text_def fraction_text_def exponent_text_def)
  qed
  moreover have "peek (nat_text k) \<noteq> CHR ''-''" for k
    using nat_text_digits [of "peek (nat_text k)" k] nat_text_nonempty [of k]
    by (cases "nat_text k") (auto simp: isdigit_def)
  ultimately show ?thesis
    by (simp add: num_ok_def int_lib_def int_text_def digits_value_nat_text)
qed

section \<open>Serializing and parsing\<close>

text \<open>
  C4: What the serializer writes, compact or pretty-printed, with slashes escaped or not, the
  parser reads back as the same value, to the last character. This holds for every value
  nested at most 2048 deep with distinct, terminator-free object names and numbers the C
  library prints and reads back; strings may hold any bytes, terminators included.
\<close>

theorem parse_serialize_roundtrip:
  assumes "json_wf L v" "json_depth v \<le> MAX_NESTING"
  shows "\<exists>s. json_serialize_to_string L esc pr (Some v) = Some s \<and> json_parse_string L (Some s) = Parsed v []"
  using json_parse_string_text [OF assms] by (simp add: json_serialize_to_string_eq)

definition demo_json :: "int json_value" where
  "demo_json = VObject [(''title'', VString ''a/b\<newline>''), (''ids'', VArray [VNumber 7, VNumber (-12), VNull]),
     (''ok'', VBoolean True), (''empty'', VObject [])]"

theorem parse_serialize_roundtrip_witness:
  "\<exists>s. json_serialize_to_string int_lib True True (Some demo_json) = Some s \<and>
     json_parse_string int_lib (Some s) = Parsed demo_json []"
  by (rule parse_serialize_roundtrip) (simp_all add: demo_json_def int_lib_ok MAX_NESTING_def)

text \<open>
  C22: The parser returns for every input: with the fuel of its entry point it never runs out.
\<close>

theorem parser_terminates:
  "json_parse_string L str = Failed \<or> (\<exists>v r. json_parse_string L str = Parsed v r)"
  using json_parse_string_terminates [of L str] by (cases "json_parse_string L str") auto


text \<open>
  Reading a quoted string undoes writing it, for every string and either treatment of
  slashes, and leaves the input just after the closing quote.
\<close>

theorem quoted_string_roundtrip:
  "\<exists>t. json_serialize_string esc s (Some b) = (length t, Some (b @ t)) \<and>
    get_quoted_string (t @ r) = Some (s, r)"
  by (intro exI [of _ "quoted esc s"]) (simp add: json_serialize_string_eq append_string_def get_quoted)

text \<open>
  Processing the text between two quotes never writes more characters than the text has,
  so the output fits its buffer of one byte more.
\<close>

theorem process_string_fits:
  assumes "skip_quotes s = Some r" "process_string (drop 1 s) (length s - length r - 2) = Some out"
  shows "length out \<le> length s - length r - 2"
proof -
  obtain s' where s: "s = DQUOTE # s'" "skip_body s' = Some r"
    using assms(1) by (cases s) (auto simp: skip_quotes_def split: if_splits)
  then show ?thesis
    using process_string_bound [of s' r "length s - length r - 2" out] assms(2) by simp
qed

theorem process_string_fits_witness:
  "process_string (CHR ''a'' # BACKSLASH # ''n'' @ [DQUOTE]) 3 = Some ''a\<newline>'' \<and> length (''a\<newline>'') \<le> (3::nat)"
proof -
  have "process_string (CHR ''a'' # BACKSLASH # ''n'' @ [DQUOTE]) 3 = Some ''a\<newline>''"
    by (simp add: process_string.simps simple_escape_def)
  then show ?thesis
    using process_string_fits [of "DQUOTE # CHR ''a'' # BACKSLASH # ''n'' @ [DQUOTE]" "[]" "''a\<newline>''"]
    by (simp add: skip_quotes_def)
qed

section \<open>Characters\<close>

text \<open>
  C18: The check of UTF-8 accepts a string exactly when it is the concatenation of encodings of
  Unicode scalar values: no overlong form, no surrogate, nothing above U+10FFFF, no sequence cut
  short.
\<close>

theorem is_valid_utf8_iff:
  "is_valid_utf8 s (length s) \<longleftrightarrow> (\<exists>cps. (\<forall>cp \<in> set cps. scalar_value cp) \<and> s = concat (map utf8_encode cps))"
proof
  assume "is_valid_utf8 s (length s)"
  from is_valid_utf8_decode [OF this] show "\<exists>cps. (\<forall>cp \<in> set cps. scalar_value cp) \<and> s = concat (map utf8_encode cps)"
    by auto
next
  assume "\<exists>cps. (\<forall>cp \<in> set cps. scalar_value cp) \<and> s = concat (map utf8_encode cps)"
  then show "is_valid_utf8 s (length s)" using is_valid_utf8_encode [of _ "length s" "[]"] by auto
qed

theorem is_valid_utf8_iff_witness:
  "is_valid_utf8 (concat (map utf8_encode [0x41, 0x20AC, 0x1F600])) (length (concat (map utf8_encode [0x41, 0x20AC, 0x1F600])))"
  by (subst is_valid_utf8_iff) (intro exI [of _ "[0x41, 0x20AC, 0x1F600]"], simp add: scalar_value_def)



section \<open>What the parser lets through\<close>

text \<open>
  A lone minus sign is parsed as a number without consuming it: \<open>strtod\<close> takes nothing,
  and nothing checks that it took something. Any text behind the minus sign that is not a
  number, an infinity or a NaN is accepted with it, since the entry point does not look at
  what is left.
\<close>

theorem lone_minus_is_a_number:
  assumes "strtod_len (CHR ''-'' # s) = 0" "\<not> num_errno L []" "\<not> num_invalid L (num_value L [])"
  shows "json_parse_string L (Some (CHR ''-'' # s)) = Parsed (VNumber (num_value L [])) (CHR ''-'' # s)"
  using assms by (simp add: json_parse_string_def fuel_for_def skip_whitespaces_id parse_number_value_def is_decimal_def
      json_value_init_number_def isdigit_chars)

theorem lone_minus_is_a_number_witness:
  "json_parse_string int_lib (Some ''-garbage'') = Parsed (VNumber 0) ''-garbage''"
proof -
  have "strtod_len ''-garbage'' = 0"
    by (simp add: strtod_len_def mantissa_len_def name_len_def starts_with_def to_lower_def isdigit_def)
  then show ?thesis
    using lone_minus_is_a_number [of "''garbage''" int_lib] by (simp add: int_lib_def digits_value_def)
qed

end
