(* ===== verification/JsonApiProps.thy ===== *)
theory JsonApiProps
  imports JsonApi JsonProps
begin

text \<open>
  The properties of the containers of \<^verbatim>\<open>Tema_3/parson.c\<close> and of the operations on whole values:
  objects as maps, arrays as lists, dotted paths, copies, comparison, validation, comments, files.
\<close>

section \<open>Containers\<close>



text \<open>
  C28: An array stands for a list, whatever its capacity: reading is by index and nothing outside
  the count, appending adds at the end, removing closes the gap in order, replacing changes one
  item; the operations fail exactly outside the count and never touch memory outside the array.
\<close>

theorem array_refines_list:
  assumes "arr_rep arr xs"
  shows "json_array_get_value arr i = Inr (if i < length xs then Some (xs ! i) else None) \<and>
    (\<exists>a. json_array_append_value arr False v = Inr (Some a) \<and> arr_rep a (xs @ [v])) \<and>
    (if i < length xs
     then (\<exists>a. json_array_remove arr i = Inr (Some a) \<and> arr_rep a (take i xs @ drop (Suc i) xs)) \<and>
       (\<exists>a. json_array_replace_value arr i False v = Inr (Some a) \<and> arr_rep a (xs[i := v]))
     else json_array_remove arr i = Inr None \<and> json_array_replace_value arr i False v = Inr None) \<and>
    arr_rep (json_array_clear arr) []"
  using arr_get_rep [OF assms] arr_add_rep [OF assms] arr_remove_rep [OF assms, of i] arr_replace_rep [OF assms, of i v]
    assms
  by (auto simp: json_array_append_value_def json_array_clear_def arr_rep_def)

theorem array_refines_list_witness:
  "\<exists>a. json_array_append_value (json_array_init :: nat json_array) False 7 = Inr (Some a) \<and> arr_rep a [7]"
  using array_refines_list [OF arr_rep_init, of 0 "7 :: nat"] by simp

section \<open>Typed access\<close>

text \<open>
  Storing a string under a name succeeds exactly when the string is valid UTF-8, and then the
  same string, with its length, is read back under the name and every other member is as it was;
  an invalid string leaves the object as it is.
\<close>

theorem set_string_reads_back:
  assumes "obj_rep obj ms"
  shows "if is_valid_utf8 s (length s)
    then \<exists>obj' ms'. json_object_set_string obj name (Some s) = Inr (Some obj') \<and> obj_rep obj' ms' \<and>
      json_object_get_string (Some ms') name = Some s \<and> json_object_get_string_len (Some ms') name = length s \<and>
      (\<forall>j. j \<noteq> name \<longrightarrow> json_object_get_value (Some ms') j = json_object_get_value (Some ms) j)
    else json_object_set_string obj name (Some s) = Inr None"
proof (cases "is_valid_utf8 s (length s)")
  case True
  obtain obj' ms' where "json_object_set_value obj name False (VString s) = Inr (Some obj')" "obj_rep obj' ms'"
    "map_of ms' = (map_of ms)(name \<mapsto> VString s)" using jo.rep_put [OF assms] by blast
  with True have "json_object_set_string obj name (Some s) = Inr (Some obj') \<and> obj_rep obj' ms' \<and>
      json_object_get_string (Some ms') name = Some s \<and> json_object_get_string_len (Some ms') name = length s \<and>
      (\<forall>j. j \<noteq> name \<longrightarrow> json_object_get_value (Some ms') j = json_object_get_value (Some ms) j)"
    by (simp add: json_object_set_string_def store_new_def json_value_init_string_def json_value_init_string_with_len_def
        json_object_get_string_def json_object_get_string_len_def json_value_get_string_len_def
        json_object_get_value_def json_value_get_string_def del: is_valid_utf8.simps)
  with True show ?thesis by (simp only: if_True) blast
next
  case False
  then show ?thesis
    by (simp add: json_object_set_string_def store_new_def json_value_init_string_def json_value_init_string_with_len_def
        del: is_valid_utf8.simps)
qed

theorem set_string_reads_back_witness:
  "\<exists>obj' ms'. json_object_set_string (json_object_init :: int json_value json_object) ''k'' (Some ''v'') = Inr (Some obj') \<and>
     obj_rep obj' ms' \<and> json_object_get_string (Some ms') ''k'' = Some ''v''"
proof -
  have "is_valid_utf8 [char_of (118 :: nat)] (length ''v'')"
    using is_valid_utf8_encode [of "[0x76]" "length ''v''" "[]"]
    by (simp add: scalar_value_def utf8_encode_def utf8_bytes_def)
  moreover have "char_of (118 :: nat) = CHR ''v''" by code_simp
  ultimately have "is_valid_utf8 ''v'' (length ''v'')" by simp
  then show ?thesis using set_string_reads_back [OF obj_rep_init, of "''v''" "''k''"] by auto
qed

section \<open>Dotted paths\<close>

text \<open>
  C34: What is set under a dotted path is read back under that path, through the objects the path
  runs through, created where they are missing; and every value whose path does not run through
  the one set is as before.
\<close>

theorem dotted_set_get:
  assumes "json_object_dotset_value ms (dotted p) False v = Some ms'" "p \<noteq> []" "\<forall>a \<in> set p. CHR ''.'' \<notin> set a"
  shows "json_object_dotget_value (Some ms') (dotted p) = Some v \<and>
    (\<forall>q. q \<noteq> [] \<longrightarrow> (\<forall>a \<in> set q. CHR ''.'' \<notin> set a) \<longrightarrow> apart p q \<longrightarrow>
      json_object_dotget_value (Some ms') (dotted q) = json_object_dotget_value (Some ms) (dotted q))"
  using dotget_dotset [OF assms(1)] dotset_apart [OF assms(2,3) _ assms(1)] by (simp add: dotget_path)

theorem dotted_set_get_witness:
  "json_object_dotget_value (Some [(''a'', VObject [(''b'', VNumber (1::int))])]) ''a.b'' = Some (VNumber 1)"
proof -
  have "json_object_dotset_value [] (dotted [''a'', ''b'']) False (VNumber (1::int)) = Some [(''a'', VObject [(''b'', VNumber 1)])]"
    using dotset_dotted [of "''a''" "[]" "''b''" False "VNumber 1"] by (simp add: dotset_plain add_member_def)
  from dotted_set_get [OF this] show ?thesis by simp
qed

section \<open>Whole values\<close>

text \<open>
  A deep copy of a value with distinct names and valid numbers is that value, and the
  comparison finds them equal; the comparison is symmetric on such values.
\<close>

theorem deep_copy_equals:
  assumes "json_valid L v" "json_valid L w" "\<forall>x. num_close L x x" "\<forall>x y. num_close L x y \<longrightarrow> num_close L y x"
  shows "json_value_deep_copy L v = Some v \<and> json_value_equals L (Some v) (json_value_deep_copy L v) \<and>
    json_value_equals L (Some v) (Some w) = json_value_equals L (Some w) (Some v)"
  using deep_copy_same [OF assms(1)] equals_refl [OF assms(3,1)] equals_sym [OF assms(4,1,2)] equals_sym [OF assms(4,2,1)]
  by auto

theorem deep_copy_equals_witness:
  "json_value_deep_copy int_lib demo_json = Some demo_json"
  using deep_copy_equals [of int_lib demo_json demo_json] by (simp add: int_lib_def demo_json_def)

text \<open>What a schema asks of a value, as the header describes it: names and types only.\<close>

fun conforms :: "'n json_value \<Rightarrow> 'n json_value \<Rightarrow> bool" where
  "conforms VNull v \<longleftrightarrow> True"
| "conforms (VArray ss) v \<longleftrightarrow> (case v of VArray vs \<Rightarrow> (case ss of [] \<Rightarrow> True | s # _ \<Rightarrow> (\<forall>x \<in> set vs. conforms s x)) | _ \<Rightarrow> False)"
| "conforms (VObject sm) v \<longleftrightarrow>
     (case v of VObject vm \<Rightarrow> (\<forall>m \<in> set sm. case map_of vm (fst m) of None \<Rightarrow> False | Some x \<Rightarrow> conforms (snd m) x) | _ \<Rightarrow> False)"
| "conforms s v \<longleftrightarrow> json_value_get_type (Some s) = json_value_get_type (Some v)"


lemma validate_simps:
  "json_validate (Some VNull) (Some v)"
  "json_validate (Some (VArray ss)) (Some (VArray vs)) \<longleftrightarrow>
     (case ss of [] \<Rightarrow> True | s # _ \<Rightarrow> (\<forall>v \<in> set vs. json_validate (Some s) (Some v)))"
  "json_validate (Some (VObject sm)) (Some (VObject vm)) \<longleftrightarrow>
     (if sm = [] then True else if length vm < length sm then False
      else (\<forall>key \<in> fst ` set sm. map_of vm key \<noteq> None \<and> json_validate (map_of sm key) (map_of vm key)))"
  by (subst json_validate.simps; simp split: list.split)+

lemma validate_type:
  "s \<noteq> VNull \<Longrightarrow> json_value_get_type (Some s) \<noteq> json_value_get_type (Some v) \<Longrightarrow> \<not> json_validate (Some s) (Some v)"
  by (subst json_validate.simps) (cases s; simp)

lemma validate_scalar:
  "\<forall>xs. s \<noteq> VArray xs \<Longrightarrow> \<forall>ms. s \<noteq> VObject ms \<Longrightarrow> s \<noteq> VNull \<Longrightarrow>
   json_validate (Some s) (Some v) \<longleftrightarrow> json_value_get_type (Some s) = json_value_get_type (Some v)"
  by (subst json_validate.simps) (cases s; cases v; simp)

lemma redundant_test:
  "(A \<longleftrightarrow> C) \<Longrightarrow> (e \<Longrightarrow> C) \<Longrightarrow> (C \<Longrightarrow> \<not> l) \<Longrightarrow> (if e then True else if l then False else A) \<longleftrightarrow> C"
  by auto

lemma validate_conforms: "json_valid L s \<Longrightarrow> json_validate (Some s) (Some v) \<longleftrightarrow> conforms s v"
proof (induction s v rule: conforms.induct)
  case (2 ss v)
  then show ?case
    by (cases v) (auto simp: validate_type validate_simps split: list.split)
next
  case (3 sm v)
  show ?case
  proof (cases v)
    case (VObject vm)
    let ?conf = "\<forall>m \<in> set sm. case map_of vm (fst m) of None \<Rightarrow> False | Some x \<Rightarrow> conforms (snd m) x"
    have d: "distinct (map fst sm)" using "3.prems" by simp
    have e: "map_of vm (fst m) \<noteq> None \<and> json_validate (map_of sm (fst m)) (map_of vm (fst m)) \<longleftrightarrow>
        (case map_of vm (fst m) of None \<Rightarrow> False | Some x \<Rightarrow> conforms (snd m) x)" if m: "m \<in> set sm" for m
    proof -
      have s: "map_of sm (fst m) = Some (snd m)" using d m by (simp add: map_of_eq_Some_iff)
      show ?thesis unfolding s using "3.IH" [OF VObject m] "3.prems" m by (auto split: option.split)
    qed
    have len: "length sm \<le> length vm" if ?conf
    proof -
      have "fst ` set sm \<subseteq> fst ` set vm" using that by (force simp: map_of_named split: option.splits)
      then have "card (fst ` set sm) \<le> card (fst ` set vm)" by (intro card_mono) simp_all
      moreover have "card (fst ` set sm) = length sm" using d by (metis distinct_card length_map set_map)
      moreover have "card (fst ` set vm) \<le> length vm" by (metis card_length length_map set_map)
      ultimately show ?thesis by simp
    qed
    have "(\<forall>key \<in> fst ` set sm. map_of vm key \<noteq> None \<and> json_validate (map_of sm key) (map_of vm key)) \<longleftrightarrow> ?conf"
      using e by (simp add: ball_simps(9) cong: ball_cong)
    moreover have "sm = [] \<Longrightarrow> ?conf" by simp
    moreover have "\<not> length vm < length sm" if ?conf using len [OF that] by simp
    ultimately show ?thesis
      unfolding VObject validate_simps conforms.simps json_value.case by (rule redundant_test)
  qed (simp_all add: validate_type)
qed (simp_all add: validate_simps validate_scalar)

text \<open>
  C33: For a schema without repeated names, validation accepts exactly the values the header
  describes: null takes any value, an empty array or object any of its kind, the first item of
  an array describes all items, every member of an object is there and conforms, and scalars
  agree in type. The test of the number of members adds nothing.
\<close>

theorem validate_is_conformance:
  assumes "json_valid L s"
  shows "json_validate (Some s) (Some v) \<longleftrightarrow> conforms s v"
  using assms by (rule validate_conforms)

theorem validate_is_conformance_witness:
  "json_validate (Some (VObject [(''name'', VString []), (''age'', VNumber (0::int))]))
     (Some (VObject [(''age'', VNumber 25), (''name'', VString ''Joe''), (''gender'', VNull)]))"
  by (subst validate_is_conformance [of int_lib]) (simp_all add: int_lib_def)

section \<open>Comments and files\<close>

text \<open>
  Reading with comments gives the value back from its serialized text, and from that text
  behind a block comment, for any text in the comment that does not end it early; and blanking
  comments keeps the length of any text and changes characters to blanks only.
\<close>

theorem comments_are_ignored:
  assumes "json_wf L v" "json_depth v \<le> MAX_NESTING" "strstr (c @ ''*/'') ''*/'' = Some (length c)"
    "json_serialize_to_string L esc pr (Some v) = Some s"
  shows "json_parse_string_with_comments L s = Parsed v [] \<and>
    json_parse_string_with_comments L (''/*'' @ c @ ''*/'' @ s) = Parsed v [] \<and>
    (\<forall>t st en. blanked t (remove_comments t st en))"
  using parse_with_comments [OF assms(1-3), of esc pr 0] assms(4) by (simp add: json_serialize_to_string_eq remove_comments_blanked)

theorem comments_are_ignored_witness:
  "json_parse_string_with_comments int_lib ''/* x // */[null]'' = Parsed (VArray [VNull]) []"
  using comments_are_ignored [of int_lib "VArray [VNull]" "'' x // ''" False False "''[null]''"]
  by (simp add: MAX_NESTING_def json_serialize_to_string_eq starts_with_def)

lemma escape_char_no_NUL: "NUL \<notin> set (escape_char esc c)"
proof (cases rule: escape_char_cases [of c esc])
  case control
  have "NUL \<noteq> hex_digit d" if "d < 16" for d using hex_digit_not_NUL [OF that] by simp
  moreover have "uchar c div 16 < 16" using uchar_less [of c] by linarith
  ultimately show ?thesis by (simp add: control)
qed (auto simp: simple_escape_def split: if_splits)

lemma text_no_NUL:
  "json_wf L v \<Longrightarrow> NUL \<notin> set (json_text L esc pr n v)"
  "\<forall>x \<in> set xs. json_wf L x \<Longrightarrow> NUL \<notin> set (items_text L esc pr n xs)"
  "\<forall>m \<in> set ms. json_wf L (snd m) \<Longrightarrow> NUL \<notin> set (members_text L esc pr n ms)"
proof (induction L esc pr n v and L esc pr n xs and L esc pr n ms rule: json_text_items_text_members_text.induct)
  case (5 L esc pr n x)
  then show ?case using number_text_plain [of "num_text L x" NUL] by (auto simp: num_ok_def isdigit_def)
qed (auto simp: quoted_def spaces_def escape_char_no_NUL)

text \<open>
  A value written to a file, compact or pretty-printed, is read back from the file, with or
  without the treatment of comments; a value is lost only where the file cannot be opened.
\<close>

theorem file_roundtrip:
  assumes "json_wf L v" "json_depth v \<le> MAX_NESTING"
  shows "\<exists>s t. json_serialize_to_file L esc (Some v) True True = (True, Some s) \<and>
    json_serialize_to_file_pretty L esc (Some v) True True = (True, Some t) \<and>
    (\<forall>u \<in> {s, t}. json_parse_file L (Some u) = Parsed v [] \<and> json_parse_file_with_comments L (Some u) = Parsed v [])"
proof -
  have r: "read_file (Some (json_text L esc pr 0 v)) = Some (json_text L esc pr 0 v)" for pr
    using text_no_NUL(1) [OF assms(1), of esc pr 0] json_text_peek [OF assms(1), of esc pr 0]
    by (auto simp: read_file_def takeWhile_eq_all_conv)
  have c: "strstr ([] @ ''*/'') ''*/'' = Some (length [])" by (simp add: starts_with_def)
  have p: "json_parse_file L (Some (json_text L esc pr 0 v)) = Parsed v []"
      "json_parse_file_with_comments L (Some (json_text L esc pr 0 v)) = Parsed v []" for pr
    using json_parse_string_text [OF assms] parse_with_comments(1) [OF assms c] r
    by (simp_all add: json_parse_file_def json_parse_file_with_comments_def)
  have "json_serialize_to_string_pretty L esc (Some v) = Some (json_text L esc True 0 v)"
    by (simp add: json_serialize_to_string_pretty_def json_serialize_to_buffer_pretty_def json_serialization_size_pretty_def
        json_serialize_to_buffer_r_def serialize_eq append_string_def)
  then show ?thesis
    by (intro exI [of _ "json_text L esc False 0 v"] exI [of _ "json_text L esc True 0 v"])
      (simp add: json_serialize_to_file_def json_serialize_to_file_pretty_def json_serialize_to_string_eq p)
qed

theorem file_roundtrip_witness:
  "\<exists>s. json_serialize_to_file_pretty int_lib True (Some demo_json) True True = (True, Some s) \<and>
     json_parse_file int_lib (Some s) = Parsed demo_json []"
  using file_roundtrip [of int_lib demo_json True] by (auto simp: demo_json_def int_lib_ok MAX_NESTING_def)

end
