(* ===== verification/JsonHeap.thy ===== *)
theory JsonHeap
  imports JsonObject
begin

text \<open>
  The values of \<^verbatim>\<open>Tema_3/parson.c\<close> in memory: values with their parent pointers, objects and arrays with
  their wrapping values, slots and strings, each a block of an explicit heap. An allocation may fail. The
  blocks of a value are described by a tree of addresses, and freeing a value frees exactly these.
\<close>

section \<open>Blocks and the heap\<close>

text \<open>Address \<open>0\<close> is the null pointer. A slot nothing was stored in holds \<open>None\<close>.\<close>

type_synonym jaddr = nat

datatype 'n payload =
    PNull | PBoolean bool | PNumber 'n | PString jaddr nat | PObject jaddr | PArray jaddr

record 'n jvalue =
  parent :: jaddr
  payload :: "'n payload"

record jobject =
  obj_wrapping :: jaddr
  obj_names :: jaddr
  obj_values :: jaddr
  obj_count :: nat
  obj_capacity :: nat

record jarray =
  arr_wrapping :: jaddr
  arr_items :: jaddr
  arr_count :: nat
  arr_capacity :: nat

datatype 'n block =
    ValueBlock "'n jvalue" | ObjectBlock jobject | ArrayBlock jarray | SlotsBlock "jaddr option list" | CharsBlock string

text \<open>\<open>budget\<close> is the number of allocations that are granted; addresses are never used again.\<close>

record 'n jheap =
  mem :: "jaddr \<Rightarrow> 'n block option"
  next_addr :: jaddr
  budget :: nat

definition parson_malloc :: "'n block \<Rightarrow> 'n jheap \<Rightarrow> jaddr \<times> 'n jheap" where
  "parson_malloc b h =
     (if budget h = 0 then (0, h)
      else (next_addr h, h\<lparr>mem := (mem h)(next_addr h \<mapsto> b), next_addr := Suc (next_addr h), budget := budget h - 1\<rparr>))"

definition parson_free :: "jaddr \<Rightarrow> 'n jheap \<Rightarrow> 'n jheap c_result" where
  "parson_free a h =
     (if a = 0 then Inr h else if mem h a = None then Inl BadPointer else Inr (h\<lparr>mem := (mem h)(a := None)\<rparr>))"

definition block_at :: "jaddr \<Rightarrow> 'n jheap \<Rightarrow> 'n block c_result" where
  "block_at a h = (if a = 0 then Inl NullDeref else case mem h a of None \<Rightarrow> Inl BadPointer | Some b \<Rightarrow> Inr b)"

definition value_at :: "jaddr \<Rightarrow> 'n jheap \<Rightarrow> 'n jvalue c_result" where
  "value_at a h = c_bind (block_at a h) (\<lambda>b. case b of ValueBlock v \<Rightarrow> Inr v | _ \<Rightarrow> Inl BadPointer)"

definition object_at :: "jaddr \<Rightarrow> 'n jheap \<Rightarrow> jobject c_result" where
  "object_at a h = c_bind (block_at a h) (\<lambda>b. case b of ObjectBlock v \<Rightarrow> Inr v | _ \<Rightarrow> Inl BadPointer)"

definition array_at :: "jaddr \<Rightarrow> 'n jheap \<Rightarrow> jarray c_result" where
  "array_at a h = c_bind (block_at a h) (\<lambda>b. case b of ArrayBlock v \<Rightarrow> Inr v | _ \<Rightarrow> Inl BadPointer)"

definition slots_at :: "jaddr \<Rightarrow> 'n jheap \<Rightarrow> jaddr option list c_result" where
  "slots_at a h = c_bind (block_at a h) (\<lambda>b. case b of SlotsBlock v \<Rightarrow> Inr v | _ \<Rightarrow> Inl BadPointer)"

definition chars_at :: "jaddr \<Rightarrow> 'n jheap \<Rightarrow> string c_result" where
  "chars_at a h = c_bind (block_at a h) (\<lambda>b. case b of CharsBlock v \<Rightarrow> Inr v | _ \<Rightarrow> Inl BadPointer)"

definition slot_at :: "jaddr \<Rightarrow> nat \<Rightarrow> 'n jheap \<Rightarrow> jaddr c_result" where
  "slot_at a i h = c_bind (slots_at a h) (\<lambda>xs. read_slot xs i)"

definition store_block :: "jaddr \<Rightarrow> 'n block \<Rightarrow> 'n jheap \<Rightarrow> 'n jheap" where
  "store_block a b h = h\<lparr>mem := (mem h)(a \<mapsto> b)\<rparr>"

definition set_slot :: "jaddr \<Rightarrow> nat \<Rightarrow> jaddr \<Rightarrow> 'n jheap \<Rightarrow> 'n jheap c_result" where
  "set_slot a i x h =
     c_bind (slots_at a h) (\<lambda>xs. c_bind (write_slot xs i x) (\<lambda>xs. Inr (store_block a (SlotsBlock xs) h)))"

section \<open>Freeing\<close>

text \<open>
  The functions call each other; the loops take the function for values as an argument. The
  recursion is cut at the number of blocks ever allocated.
\<close>

fun free_members :: "(jaddr \<Rightarrow> 'n jheap \<Rightarrow> 'n jheap c_result) \<Rightarrow> jobject \<Rightarrow> nat \<Rightarrow> nat \<Rightarrow> 'n jheap \<Rightarrow> 'n jheap c_result" where
  "free_members fv ob i 0 h = Inr h"
| "free_members fv ob i (Suc k) h =
     c_bind (slot_at (obj_names ob) i h) (\<lambda>n.
     c_bind (parson_free n h) (\<lambda>h.
     c_bind (slot_at (obj_values ob) i h) (\<lambda>v.
     c_bind (fv v h) (free_members fv ob (Suc i) k))))"

definition json_object_free :: "(jaddr \<Rightarrow> 'n jheap \<Rightarrow> 'n jheap c_result) \<Rightarrow> jaddr \<Rightarrow> 'n jheap \<Rightarrow> 'n jheap c_result" where
  "json_object_free fv a h =
     c_bind (object_at a h) (\<lambda>ob.
     c_bind (free_members fv ob 0 (obj_count ob) h) (\<lambda>h.
     c_bind (parson_free (obj_names ob) h) (\<lambda>h.
     c_bind (parson_free (obj_values ob) h) (parson_free a))))"

fun free_items :: "(jaddr \<Rightarrow> 'n jheap \<Rightarrow> 'n jheap c_result) \<Rightarrow> jarray \<Rightarrow> nat \<Rightarrow> nat \<Rightarrow> 'n jheap \<Rightarrow> 'n jheap c_result" where
  "free_items fv ar i 0 h = Inr h"
| "free_items fv ar i (Suc k) h =
     c_bind (slot_at (arr_items ar) i h) (\<lambda>v. c_bind (fv v h) (free_items fv ar (Suc i) k))"

definition json_array_free :: "(jaddr \<Rightarrow> 'n jheap \<Rightarrow> 'n jheap c_result) \<Rightarrow> jaddr \<Rightarrow> 'n jheap \<Rightarrow> 'n jheap c_result" where
  "json_array_free fv a h =
     c_bind (array_at a h) (\<lambda>ar.
     c_bind (free_items fv ar 0 (arr_count ar) h) (\<lambda>h.
     c_bind (parson_free (arr_items ar) h) (parson_free a)))"

fun free_value :: "nat \<Rightarrow> jaddr \<Rightarrow> 'n jheap \<Rightarrow> 'n jheap c_result" where
  "free_value 0 a h = Inl OutOfFuel"
| "free_value (Suc n) a h =
     (if a = 0 then Inr h
      else c_bind (value_at a h) (\<lambda>v.
           c_bind (case payload v of
                     PObject ob \<Rightarrow> json_object_free (free_value n) ob h
                   | PString c len \<Rightarrow> parson_free c h
                   | PArray ar \<Rightarrow> json_array_free (free_value n) ar h
                   | _ \<Rightarrow> Inr h)
             (parson_free a)))"

definition json_value_free :: "jaddr \<Rightarrow> 'n jheap \<Rightarrow> 'n jheap c_result" where
  "json_value_free a h = free_value (next_addr h) a h"

section \<open>The blocks of a value\<close>

text \<open>
  A value with the addresses of its blocks: its own, that of its object or array, those of the slots
  (\<open>0\<close> where there are none yet), and what the slots past the count hold.
\<close>

datatype 'n jtree =
    TNull jaddr | TBoolean jaddr bool | TNumber jaddr 'n | TString jaddr jaddr string
  | TObject jaddr jaddr jaddr jaddr "jaddr option list" "jaddr option list" "(jaddr \<times> string \<times> 'n jtree) list"
  | TArray jaddr jaddr jaddr "jaddr option list" "'n jtree list"

fun root :: "'n jtree \<Rightarrow> jaddr" where
  "root (TNull a) = a" | "root (TBoolean a b) = a" | "root (TNumber a x) = a" | "root (TString a c s) = a"
| "root (TObject a ob ns vs nr vr ms) = a" | "root (TArray a ar is r ts) = a"

fun value_of :: "'n jtree \<Rightarrow> 'n json_value" where
  "value_of (TNull a) = VNull" | "value_of (TBoolean a b) = VBoolean b" | "value_of (TNumber a x) = VNumber x"
| "value_of (TString a c s) = VString s"
| "value_of (TObject a ob ns vs nr vr ms) = VObject (map (\<lambda>(c, k, t). (k, value_of t)) ms)"
| "value_of (TArray a ar is r ts) = VArray (map value_of ts)"

definition slots_block :: "jaddr \<Rightarrow> jaddr option list \<Rightarrow> (jaddr \<times> 'n block) list" where
  "slots_block a xs = (if a = 0 then [] else [(a, SlotsBlock xs)])"

fun blocks :: "jaddr \<Rightarrow> 'n jtree \<Rightarrow> (jaddr \<times> 'n block) list" where
  "blocks p (TNull a) = [(a, ValueBlock \<lparr>parent = p, payload = PNull\<rparr>)]"
| "blocks p (TBoolean a b) = [(a, ValueBlock \<lparr>parent = p, payload = PBoolean b\<rparr>)]"
| "blocks p (TNumber a x) = [(a, ValueBlock \<lparr>parent = p, payload = PNumber x\<rparr>)]"
| "blocks p (TString a c s) = [(a, ValueBlock \<lparr>parent = p, payload = PString c (length s)\<rparr>), (c, CharsBlock s)]"
| "blocks p (TObject a ob ns vs nr vr ms) =
     (a, ValueBlock \<lparr>parent = p, payload = PObject ob\<rparr>) #
     (ob, ObjectBlock \<lparr>obj_wrapping = a, obj_names = ns, obj_values = vs, obj_count = length ms,
        obj_capacity = length ms + length nr\<rparr>) #
     slots_block ns (map (\<lambda>m. Some (fst m)) ms @ nr) @
     slots_block vs (map (\<lambda>m. Some (root (snd (snd m)))) ms @ vr) @
     concat (map (\<lambda>(c, k, t). (c, CharsBlock k) # blocks a t) ms)"
| "blocks p (TArray a ar is r ts) =
     (a, ValueBlock \<lparr>parent = p, payload = PArray ar\<rparr>) #
     (ar, ArrayBlock \<lparr>arr_wrapping = a, arr_items = is, arr_count = length ts, arr_capacity = length ts + length r\<rparr>) #
     slots_block is (map (\<lambda>t. Some (root t)) ts @ r) @
     concat (map (blocks a) ts)"

text \<open>No address is null but that of no slots; names are C strings, each once.\<close>

fun tree_ok :: "'n jtree \<Rightarrow> bool" where
  "tree_ok (TNull a) \<longleftrightarrow> a \<noteq> 0" | "tree_ok (TBoolean a b) \<longleftrightarrow> a \<noteq> 0" | "tree_ok (TNumber a x) \<longleftrightarrow> a \<noteq> 0"
| "tree_ok (TString a c s) \<longleftrightarrow> a \<noteq> 0 \<and> c \<noteq> 0"
| "tree_ok (TObject a ob ns vs nr vr ms) \<longleftrightarrow> a \<noteq> 0 \<and> ob \<noteq> 0 \<and> length vr = length nr \<and>
     (ns = 0 \<longleftrightarrow> ms = [] \<and> nr = []) \<and> (vs = 0 \<longleftrightarrow> ms = [] \<and> nr = []) \<and>
     distinct (map (\<lambda>m. fst (snd m)) ms) \<and> (\<forall>(c, k, t) \<in> set ms. c \<noteq> 0 \<and> NUL \<notin> set k \<and> tree_ok t)"
| "tree_ok (TArray a ar is r ts) \<longleftrightarrow> a \<noteq> 0 \<and> ar \<noteq> 0 \<and> (is = 0 \<longleftrightarrow> ts = [] \<and> r = []) \<and> (\<forall>t \<in> set ts. tree_ok t)"

definition addrs :: "'n jtree \<Rightarrow> jaddr set" where
  "addrs t = fst ` set (blocks 0 t)"

definition owned :: "(jaddr \<Rightarrow> 'n block option) \<Rightarrow> (jaddr \<times> 'n block) list \<Rightarrow> bool" where
  "owned m bs \<longleftrightarrow> distinct (map fst bs) \<and> (\<forall>(a, b) \<in> set bs. m a = Some b)"

section \<open>Ownership\<close>

lemma addrs_parent: "map fst (blocks p t) = map fst (blocks q t)"
  by (cases t) (simp_all add: map_concat comp_def)

lemma addrs_eq: "fst ` set (blocks p t) = addrs t"
  using addrs_parent [of p t 0] unfolding addrs_def by (metis list.set_map)

lemma length_blocks: "length (blocks p t) = length (blocks q t)"
  using addrs_parent [of p t q] by (metis length_map)

lemma root_addrs [simp]: "root t \<in> addrs t"
  by (cases t) (simp_all add: addrs_def)

lemma length_blocks_pos [simp]: "0 < length (blocks p t)"
  by (cases t) simp_all

text \<open>The blocks of the members of an object and of the items of an array.\<close>

fun member_blocks :: "jaddr \<Rightarrow> (jaddr \<times> string \<times> 'n jtree) list \<Rightarrow> (jaddr \<times> 'n block) list" where
  "member_blocks a [] = []"
| "member_blocks a ((c, k, t) # ms) = (c, CharsBlock k) # blocks a t @ member_blocks a ms"

fun item_blocks :: "jaddr \<Rightarrow> 'n jtree list \<Rightarrow> (jaddr \<times> 'n block) list" where
  "item_blocks a [] = []"
| "item_blocks a (t # ts) = blocks a t @ item_blocks a ts"

fun member_addrs :: "(jaddr \<times> string \<times> 'n jtree) list \<Rightarrow> jaddr set" where
  "member_addrs [] = {}"
| "member_addrs ((c, k, t) # ms) = {c} \<union> addrs t \<union> member_addrs ms"

fun item_addrs :: "'n jtree list \<Rightarrow> jaddr set" where
  "item_addrs [] = {}"
| "item_addrs (t # ts) = addrs t \<union> item_addrs ts"

lemma concat_members: "concat (map (\<lambda>(c, k, t). (c, CharsBlock k) # blocks a t) ms) = member_blocks a ms"
  by (induction ms) auto

lemma concat_items: "concat (map (blocks a) ts) = item_blocks a ts"
  by (induction ts) auto

lemma member_addrs_eq: "fst ` set (member_blocks a ms) = member_addrs ms"
  by (induction ms rule: member_addrs.induct) (simp_all add: image_Un addrs_eq)

lemma item_addrs_eq: "fst ` set (item_blocks a ts) = item_addrs ts"
  by (induction ts) (simp_all add: image_Un addrs_eq)

lemma member_blocks_append [simp]: "member_blocks a (xs @ ys) = member_blocks a xs @ member_blocks a ys"
  by (induction xs) auto

lemma item_blocks_append [simp]: "item_blocks a (xs @ ys) = item_blocks a xs @ item_blocks a ys"
  by (induction xs) auto

lemma member_addrs_append [simp]: "member_addrs (xs @ ys) = member_addrs xs \<union> member_addrs ys"
  by (induction xs) auto

lemma item_addrs_append [simp]: "item_addrs (xs @ ys) = item_addrs xs \<union> item_addrs ys"
  by (induction xs) auto

declare blocks.simps(5,6) [simp del]
lemmas blocks_object = blocks.simps(5) [unfolded concat_members]
  and blocks_array = blocks.simps(6) [unfolded concat_items]

definition slots_addrs :: "jaddr \<Rightarrow> jaddr set" where
  "slots_addrs a = (if a = 0 then {} else {a})"

lemma slots_addrs_eq [simp]: "fst ` set (slots_block a xs) = slots_addrs a"
  by (simp add: slots_block_def slots_addrs_def)

lemma addrs_object: "addrs (TObject a ob ns vs nr vr ms) = {a, ob} \<union> slots_addrs ns \<union> slots_addrs vs \<union> member_addrs ms"
  by (auto simp: addrs_def blocks_object image_Un member_addrs_eq)

lemma addrs_array: "addrs (TArray a ar is r ts) = {a, ar} \<union> slots_addrs is \<union> item_addrs ts"
  by (auto simp: addrs_def blocks_array image_Un item_addrs_eq)

lemma tree_ok_nonzero: "tree_ok t \<Longrightarrow> 0 \<notin> addrs t"
proof (induction t rule: tree_ok.induct)
  case (5 a ob ns vs nr vr ms)
  have "0 \<notin> member_addrs ms'" if "set ms' \<subseteq> set ms" for ms'
    using that 5 by (induction ms' rule: member_addrs.induct) auto
  with 5(2) show ?case by (auto simp: addrs_object slots_addrs_def)
next
  case (6 a ar its r ts)
  have "0 \<notin> item_addrs ts'" if "set ts' \<subseteq> set ts" for ts'
    using that 6 by (induction ts') auto
  with 6(2) show ?case by (auto simp: addrs_array slots_addrs_def)
qed (auto simp: addrs_def)

text \<open>Ownership of lists of blocks.\<close>

lemma owned_Nil [simp]: "owned m []"
  by (simp add: owned_def)

lemma owned_Cons: "owned m (ab # bs) \<longleftrightarrow> m (fst ab) = Some (snd ab) \<and> fst ab \<notin> fst ` set bs \<and> owned m bs"
  by (auto simp: owned_def)

lemma owned_append: "owned m (xs @ ys) \<longleftrightarrow> owned m xs \<and> owned m ys \<and> fst ` set xs \<inter> fst ` set ys = {}"
  by (auto simp: owned_def)

lemma owned_outside:
  assumes "owned m bs" "\<And>a. a \<in> fst ` set bs \<Longrightarrow> m' a = m a"
  shows "owned m' bs"
proof -
  have "m' a = Some b" if "(a, b) \<in> set bs" for a b
  proof -
    have "a \<in> fst ` set bs" using that by (simp add: rev_image_eqI)
    then show ?thesis using assms that by (auto simp: owned_def)
  qed
  with assms(1) show ?thesis by (auto simp: owned_def)
qed

section \<open>Freeing a value\<close>

text \<open>A heap without the blocks at some addresses.\<close>

definition release :: "jaddr set \<Rightarrow> 'n jheap \<Rightarrow> 'n jheap" where
  "release A h = h\<lparr>mem := mem h |` (- A)\<rparr>"

lemma release_simps [simp]:
  "mem (release A h) a = (if a \<in> A then None else mem h a)" "next_addr (release A h) = next_addr h"
  "budget (release A h) = budget h" "release {} h = h"
  by (simp_all add: release_def restrict_map_def)

lemma release_release [simp]: "release B (release A h) = release (A \<union> B) h"
  by (simp add: release_def Compl_Un)

lemma owned_release: "owned (mem h) bs \<Longrightarrow> A \<inter> fst ` set bs = {} \<Longrightarrow> owned (mem (release A h)) bs"
  by (erule owned_outside) auto

lemma parson_free_block: "a \<noteq> 0 \<Longrightarrow> mem h a = Some b \<Longrightarrow> parson_free a h = Inr (release {a} h)"
  by (simp add: parson_free_def release_def restrict_map_def fun_upd_def fun_eq_iff)

lemma parson_free_0 [simp]: "parson_free 0 h = Inr h"
  by (simp add: parson_free_def)

lemma parson_free_slots: "owned (mem h) (slots_block a xs) \<Longrightarrow> parson_free a h = Inr (release (slots_addrs a) h)"
  by (cases "a = 0") (auto simp: slots_block_def slots_addrs_def parson_free_block owned_Cons)

lemma block_at_eq [simp]: "a \<noteq> 0 \<Longrightarrow> mem h a = Some b \<Longrightarrow> block_at a h = Inr b"
  by (simp add: block_at_def)

lemmas at_defs = value_at_def object_at_def array_at_def slots_at_def chars_at_def

lemma slot_at_eq: "a \<noteq> 0 \<Longrightarrow> mem h a = Some (SlotsBlock (map Some xs @ r)) \<Longrightarrow> i < length xs \<Longrightarrow> slot_at a i h = Inr (xs ! i)"
  by (simp add: slot_at_def at_defs read_slot_def nth_append)

text \<open>What the function for values does, on the members of a list.\<close>

definition frees :: "(jaddr \<Rightarrow> 'n jheap \<Rightarrow> 'n jheap c_result) \<Rightarrow> jaddr \<Rightarrow> 'n jtree \<Rightarrow> bool" where
  "frees fv a t \<longleftrightarrow> (\<forall>h. owned (mem h) (blocks a t) \<longrightarrow> fv (root t) h = Inr (release (addrs t) h))"

abbreviation member_root :: "jaddr \<times> string \<times> 'n jtree \<Rightarrow> jaddr" where
  "member_root m \<equiv> root (snd (snd m))"

lemma free_members_tree:
  assumes "owned (mem h) (member_blocks a rest)" "\<forall>(c, k, t) \<in> set rest. c \<noteq> 0 \<and> frees fv a t"
    "rest \<noteq> [] \<Longrightarrow> obj_names ob \<noteq> 0 \<and> obj_values ob \<noteq> 0 \<and>
       mem h (obj_names ob) = Some (SlotsBlock (map Some (map fst (done @ rest)) @ nr)) \<and>
       mem h (obj_values ob) = Some (SlotsBlock (map Some (map member_root (done @ rest)) @ vr)) \<and>
       obj_names ob \<notin> member_addrs rest \<and> obj_values ob \<notin> member_addrs rest"
  shows "free_members fv ob (length done) (length rest) h = Inr (release (member_addrs rest) h)"
  using assms
proof (induction rest arbitrary: "done" h)
  case (Cons m rest)
  obtain c k t where m: "m = (c, k, t)" by (cases m)
  have own: "mem h c = Some (CharsBlock k)" "owned (mem h) (blocks a t)" "owned (mem h) (member_blocks a rest)"
    "c \<notin> addrs t" "c \<notin> member_addrs rest" "addrs t \<inter> member_addrs rest = {}"
    using Cons.prems(1) by (auto simp: m owned_Cons owned_append addrs_eq image_Un member_addrs_eq)
  have arr: "obj_names ob \<noteq> 0" "obj_values ob \<noteq> 0"
    "mem h (obj_names ob) = Some (SlotsBlock (map Some (map fst (done @ m # rest)) @ nr))"
    "mem h (obj_values ob) = Some (SlotsBlock (map Some (map member_root (done @ m # rest)) @ vr))"
    "obj_names ob \<notin> member_addrs (m # rest)" "obj_values ob \<notin> member_addrs (m # rest)"
    using Cons.prems(3) by simp_all
  have 1: "slot_at (obj_names ob) (length done) h = Inr c"
    using slot_at_eq [OF arr(1,3), of "length done"] by (simp add: nth_append m)
  have "c \<noteq> 0" "frees fv a t" using Cons.prems(2) by (auto simp: m)
  then have 2: "parson_free c h = Inr (release {c} h)" using parson_free_block own(1) by blast
  have 3: "slot_at (obj_values ob) (length done) (release {c} h) = Inr (root t)"
    using slot_at_eq [OF arr(2), of "release {c} h" "map member_root (done @ m # rest)" vr "length done"] arr(4,6)
    by (simp add: nth_append m)
  have "owned (mem (release {c} h)) (blocks a t)" using owned_release [OF own(2), of "{c}"] own(4) by (simp add: addrs_eq)
  with \<open>frees fv a t\<close> have 4: "fv (root t) (release {c} h) = Inr (release ({c} \<union> addrs t) h)"
    by (simp add: frees_def)
  have "owned (mem (release ({c} \<union> addrs t) h)) (member_blocks a rest)"
    using owned_release [OF own(3), of "{c} \<union> addrs t"] own(5,6) by (auto simp: member_addrs_eq)
  then have "free_members fv ob (length (done @ [m])) (length rest) (release ({c} \<union> addrs t) h) =
      Inr (release (member_addrs rest) (release ({c} \<union> addrs t) h))"
    by (rule Cons.IH) (use Cons.prems(2) arr in \<open>auto simp: m\<close>)
  with 1 2 3 4 show ?case by (simp add: m)
qed simp

lemma free_items_tree:
  assumes "owned (mem h) (item_blocks a rest)" "\<forall>t \<in> set rest. frees fv a t"
    "rest \<noteq> [] \<Longrightarrow> arr_items ar \<noteq> 0 \<and> mem h (arr_items ar) = Some (SlotsBlock (map Some (map root (done @ rest)) @ r)) \<and>
       arr_items ar \<notin> item_addrs rest"
  shows "free_items fv ar (length done) (length rest) h = Inr (release (item_addrs rest) h)"
  using assms
proof (induction rest arbitrary: "done" h)
  case (Cons t rest)
  have own: "owned (mem h) (blocks a t)" "owned (mem h) (item_blocks a rest)" "addrs t \<inter> item_addrs rest = {}"
    using Cons.prems(1) by (auto simp: owned_append addrs_eq item_addrs_eq)
  have arr: "arr_items ar \<noteq> 0" "mem h (arr_items ar) = Some (SlotsBlock (map Some (map root (done @ t # rest)) @ r))"
    "arr_items ar \<notin> item_addrs (t # rest)" using Cons.prems(3) by simp_all
  have 1: "slot_at (arr_items ar) (length done) h = Inr (root t)"
    using slot_at_eq [OF arr(1,2), of "length done"] by (simp add: nth_append)
  have 2: "fv (root t) h = Inr (release (addrs t) h)" using own(1) Cons.prems(2) by (simp add: frees_def)
  have "owned (mem (release (addrs t) h)) (item_blocks a rest)"
    using owned_release [OF own(2), of "addrs t"] own(3) by (auto simp: item_addrs_eq)
  then have "free_items fv ar (length (done @ [t])) (length rest) (release (addrs t) h) =
      Inr (release (item_addrs rest) (release (addrs t) h))"
    by (rule Cons.IH) (use Cons.prems(2) arr in auto)
  with 1 2 show ?case by simp
qed simp

lemma owned_object:
  assumes "owned m (blocks p (TObject a ob ns vs nr vr ms))"
  shows "m a = Some (ValueBlock \<lparr>parent = p, payload = PObject ob\<rparr>)"
    "m ob = Some (ObjectBlock \<lparr>obj_wrapping = a, obj_names = ns, obj_values = vs, obj_count = length ms,
        obj_capacity = length ms + length nr\<rparr>)"
    "owned m (slots_block ns (map Some (map fst ms) @ nr))" "owned m (slots_block vs (map Some (map member_root ms) @ vr))"
    "owned m (member_blocks a ms)" "a \<noteq> ob" "a \<notin> slots_addrs ns \<union> slots_addrs vs \<union> member_addrs ms"
    "ob \<notin> slots_addrs ns \<union> slots_addrs vs \<union> member_addrs ms" "slots_addrs ns \<inter> slots_addrs vs = {}"
    "(slots_addrs ns \<union> slots_addrs vs) \<inter> member_addrs ms = {}"
  using assms
  by (simp_all add: blocks_object owned_Cons owned_append image_Un member_addrs_eq Int_Un_distrib Int_Un_distrib2
      comp_def)

lemma owned_array:
  assumes "owned m (blocks p (TArray a ar is r ts))"
  shows "m a = Some (ValueBlock \<lparr>parent = p, payload = PArray ar\<rparr>)"
    "m ar = Some (ArrayBlock \<lparr>arr_wrapping = a, arr_items = is, arr_count = length ts, arr_capacity = length ts + length r\<rparr>)"
    "owned m (slots_block is (map Some (map root ts) @ r))" "owned m (item_blocks a ts)" "a \<noteq> ar"
    "a \<notin> slots_addrs is \<union> item_addrs ts" "ar \<notin> slots_addrs is \<union> item_addrs ts" "slots_addrs is \<inter> item_addrs ts = {}"
  using assms
  by (simp_all add: blocks_array owned_Cons owned_append image_Un item_addrs_eq comp_def)

lemma slots_block_mem: "owned m (slots_block a xs) \<Longrightarrow> a \<noteq> 0 \<Longrightarrow> m a = Some (SlotsBlock xs)"
  by (simp add: slots_block_def owned_Cons)

lemma length_member_block: "(c, k, t) \<in> set ms \<Longrightarrow> length (blocks a t) < length (member_blocks a ms)"
  by (induction ms rule: member_addrs.induct) auto

lemma length_item_block: "t \<in> set ts \<Longrightarrow> length (blocks a t) \<le> length (item_blocks a ts)"
  by (induction ts) auto

lemma json_object_free_tree:
  assumes own: "owned (mem h) (blocks p (TObject a ob ns vs nr vr ms))" and ok: "tree_ok (TObject a ob ns vs nr vr ms)"
    and fv: "\<forall>(c, k, t) \<in> set ms. frees fv a t"
  shows "json_object_free fv ob h = Inr (release ({ob} \<union> slots_addrs ns \<union> slots_addrs vs \<union> member_addrs ms) h)"
proof -
  let ?ob = "\<lparr>obj_wrapping = a, obj_names = ns, obj_values = vs, obj_count = length ms, obj_capacity = length ms + length nr\<rparr>"
  note o = owned_object [OF own]
  have c: "\<forall>(c, k, t) \<in> set ms. c \<noteq> 0 \<and> frees fv a t" using ok fv by auto
  have arr: "ms \<noteq> [] \<Longrightarrow> ns \<noteq> 0 \<and> vs \<noteq> 0" using ok by auto
  have "obj_names ?ob \<noteq> 0 \<and> obj_values ?ob \<noteq> 0 \<and>
       mem h (obj_names ?ob) = Some (SlotsBlock (map Some (map fst ([] @ ms)) @ nr)) \<and>
       mem h (obj_values ?ob) = Some (SlotsBlock (map Some (map member_root ([] @ ms)) @ vr)) \<and>
       obj_names ?ob \<notin> member_addrs ms \<and> obj_values ?ob \<notin> member_addrs ms" if "ms \<noteq> []"
  proof -
    from that have "ns \<noteq> 0" "vs \<noteq> 0" using arr by auto
    with o(3,4,10) show "obj_names ?ob \<noteq> 0 \<and> obj_values ?ob \<noteq> 0 \<and>
       mem h (obj_names ?ob) = Some (SlotsBlock (map Some (map fst ([] @ ms)) @ nr)) \<and>
       mem h (obj_values ?ob) = Some (SlotsBlock (map Some (map member_root ([] @ ms)) @ vr)) \<and>
       obj_names ?ob \<notin> member_addrs ms \<and> obj_values ?ob \<notin> member_addrs ms"
      using slots_block_mem [OF o(3)] slots_block_mem [OF o(4)] by (auto simp: slots_addrs_def)
  qed
  from free_members_tree [OF o(5) c this]
  have 1: "free_members fv ?ob 0 (length ms) h = Inr (release (member_addrs ms) h)" by simp
  have "owned (mem (release (member_addrs ms) h)) (slots_block ns (map Some (map fst ms) @ nr))"
    by (rule owned_release [OF o(3)]) (use o(10) in auto)
  from parson_free_slots [OF this]
  have 2: "parson_free ns (release (member_addrs ms) h) = Inr (release (member_addrs ms \<union> slots_addrs ns) h)" by simp
  have "owned (mem (release (member_addrs ms \<union> slots_addrs ns) h)) (slots_block vs (map Some (map member_root ms) @ vr))"
    by (rule owned_release [OF o(4)]) (use o(9,10) in auto)
  from parson_free_slots [OF this]
  have 3: "parson_free vs (release (member_addrs ms \<union> slots_addrs ns) h) =
      Inr (release (member_addrs ms \<union> slots_addrs ns \<union> slots_addrs vs) h)" by simp
  have "ob \<noteq> 0" using ok by simp
  have "mem (release (member_addrs ms \<union> slots_addrs ns \<union> slots_addrs vs) h) ob = mem h ob" using o(8) by auto
  with parson_free_block [OF \<open>ob \<noteq> 0\<close>, of "release (member_addrs ms \<union> slots_addrs ns \<union> slots_addrs vs) h"] o(2)
  have 4: "parson_free ob (release (member_addrs ms \<union> slots_addrs ns \<union> slots_addrs vs) h) =
      Inr (release (member_addrs ms \<union> slots_addrs ns \<union> slots_addrs vs \<union> {ob}) h)" by simp
  have 0: "object_at ob h = Inr ?ob" using o(2) \<open>ob \<noteq> 0\<close> by (simp add: at_defs)
  show ?thesis
    by (simp add: json_object_free_def 0 1 2 3 4 del: insert_is_Un Un_insert_right) (simp add: ac_simps insert_commute)
qed

lemma json_array_free_tree:
  assumes own: "owned (mem h) (blocks p (TArray a ar is r ts))" and ok: "tree_ok (TArray a ar is r ts)"
    and fv: "\<forall>t \<in> set ts. frees fv a t"
  shows "json_array_free fv ar h = Inr (release ({ar} \<union> slots_addrs is \<union> item_addrs ts) h)"
proof -
  let ?ar = "\<lparr>arr_wrapping = a, arr_items = is, arr_count = length ts, arr_capacity = length ts + length r\<rparr>"
  note o = owned_array [OF own]
  have arr: "ts \<noteq> [] \<Longrightarrow> is \<noteq> 0" using ok by auto
  have "arr_items ?ar \<noteq> 0 \<and> mem h (arr_items ?ar) = Some (SlotsBlock (map Some (map root ([] @ ts)) @ r)) \<and>
       arr_items ?ar \<notin> item_addrs ts" if "ts \<noteq> []"
  proof -
    from that have "is \<noteq> 0" using arr by auto
    with o(8) show "arr_items ?ar \<noteq> 0 \<and> mem h (arr_items ?ar) = Some (SlotsBlock (map Some (map root ([] @ ts)) @ r)) \<and>
       arr_items ?ar \<notin> item_addrs ts"
      using slots_block_mem [OF o(3)] by (auto simp: slots_addrs_def)
  qed
  from free_items_tree [OF o(4) fv this]
  have 1: "free_items fv ?ar 0 (length ts) h = Inr (release (item_addrs ts) h)" by simp
  have "owned (mem (release (item_addrs ts) h)) (slots_block is (map Some (map root ts) @ r))"
    by (rule owned_release [OF o(3)]) (use o(8) in auto)
  from parson_free_slots [OF this]
  have 2: "parson_free is (release (item_addrs ts) h) = Inr (release (item_addrs ts \<union> slots_addrs is) h)" by simp
  have "ar \<noteq> 0" using ok by simp
  have "mem (release (item_addrs ts \<union> slots_addrs is) h) ar = mem h ar" using o(7) by auto
  with parson_free_block [OF \<open>ar \<noteq> 0\<close>, of "release (item_addrs ts \<union> slots_addrs is) h"] o(2)
  have 3: "parson_free ar (release (item_addrs ts \<union> slots_addrs is) h) = Inr (release (item_addrs ts \<union> slots_addrs is \<union> {ar}) h)"
    by simp
  have 0: "array_at ar h = Inr ?ar" using o(2) \<open>ar \<noteq> 0\<close> by (simp add: at_defs)
  show ?thesis
    by (simp add: json_array_free_def 0 1 2 3) (simp add: ac_simps insert_commute)
qed

lemma free_value_tree: "tree_ok t \<Longrightarrow> length (blocks p t) \<le> n \<Longrightarrow> frees (free_value n) p t"
proof (induction p t arbitrary: n rule: blocks.induct)
  case (5 p a ob ns vs nr vr ms)
  let ?t = "TObject a ob ns vs nr vr ms"
  obtain k where n: "n = Suc k" using 5(3) by (cases n) (simp_all add: blocks_object)
  have k: "Suc (length (member_blocks a ms)) \<le> k" using 5(3) by (simp add: n blocks_object)
  have "frees (free_value k) a t" if "(c, key, t) \<in> set ms" for c key t
  proof (rule 5(1) [OF that refl refl])
    show "tree_ok t" using 5(2) that by auto
    show "length (blocks a t) \<le> k" using length_member_block [OF that, of a] k by simp
  qed
  then have fv: "\<forall>(c, key, t) \<in> set ms. frees (free_value k) a t" by auto
  show ?case
    unfolding frees_def
  proof (intro allI impI)
    fix h :: "'a jheap" assume own: "owned (mem h) (blocks p ?t)"
    note o = owned_object [OF own]
    have a: "a \<noteq> 0" using 5(2) by simp
    let ?A = "{ob} \<union> slots_addrs ns \<union> slots_addrs vs \<union> member_addrs ms"
    have "mem (release ?A h) a = mem h a" using o(6,7) by auto
    with parson_free_block [OF a, of "release ?A h"] o(1) have "parson_free a (release ?A h) = Inr (release (?A \<union> {a}) h)" by simp
    with a o(1) json_object_free_tree [OF own 5(2) fv] show "free_value n (root ?t) h = Inr (release (addrs ?t) h)"
      by (simp add: n at_defs addrs_object; simp add: ac_simps insert_commute)
  qed
next
  case (6 p a ar its r ts)
  let ?t = "TArray a ar its r ts"
  obtain k where n: "n = Suc k" using 6(3) by (cases n) (simp_all add: blocks_array)
  have k: "length (item_blocks a ts) \<le> k" using 6(3) by (simp add: n blocks_array)
  have "frees (free_value k) a t" if "t \<in> set ts" for t
    using 6(1) [OF that] 6(2) that length_item_block [OF that, of a] k by simp
  then have fv: "\<forall>t \<in> set ts. frees (free_value k) a t" by blast
  show ?case
    unfolding frees_def
  proof (intro allI impI)
    fix h :: "'a jheap" assume own: "owned (mem h) (blocks p ?t)"
    note o = owned_array [OF own]
    have a: "a \<noteq> 0" using 6(2) by simp
    let ?A = "{ar} \<union> slots_addrs its \<union> item_addrs ts"
    have "mem (release ?A h) a = mem h a" using o(5,6) by auto
    with parson_free_block [OF a, of "release ?A h"] o(1) have "parson_free a (release ?A h) = Inr (release (?A \<union> {a}) h)" by simp
    with a o(1) json_array_free_tree [OF own 6(2) fv] show "free_value n (root ?t) h = Inr (release (addrs ?t) h)"
      by (simp add: n at_defs addrs_array; simp add: ac_simps insert_commute)
  qed
next
  case (4 p a c s)
  then obtain k where n: "n = Suc k" by (cases n) simp_all
  show ?case
    using 4 unfolding frees_def
    by (auto simp: n owned_Cons at_defs addrs_def parson_free_block insert_commute)
next
  case (1 p a)
  then show ?case by (cases n) (simp_all add: frees_def owned_Cons at_defs addrs_def parson_free_block)
next
  case (2 p a b)
  then show ?case by (cases n) (simp_all add: frees_def owned_Cons at_defs addrs_def parson_free_block)
next
  case (3 p a x)
  then show ?case by (cases n) (simp_all add: frees_def owned_Cons at_defs addrs_def parson_free_block)
qed

text \<open>The blocks of a heap lie below the next address, so there are at least as many rounds as blocks.\<close>

definition heap_ok :: "'n jheap \<Rightarrow> bool" where
  "heap_ok h \<longleftrightarrow> 0 < next_addr h \<and> mem h 0 = None \<and> (\<forall>a \<ge> next_addr h. mem h a = None)"

lemma heap_okD: "heap_ok h \<Longrightarrow> mem h a = Some b \<Longrightarrow> 0 < a \<and> a < next_addr h"
  by (metis heap_ok_def not_le gr0I option.distinct(1))

lemma owned_below: "heap_ok h \<Longrightarrow> owned (mem h) bs \<Longrightarrow> fst ` set bs \<subseteq> {0<..<next_addr h}"
  by (auto simp: owned_def dest!: heap_okD)

lemma length_owned:
  assumes "heap_ok h" "owned (mem h) bs"
  shows "length bs \<le> next_addr h"
proof -
  have "distinct (map fst bs)" using assms(2) by (simp add: owned_def)
  then have "length bs = card (fst ` set bs)" by (metis distinct_card length_map list.set_map)
  also have "\<dots> \<le> card {0<..<next_addr h}" by (rule card_mono) (use owned_below [OF assms] in auto)
  finally show ?thesis by simp
qed

lemma json_value_free_tree:
  "heap_ok h \<Longrightarrow> tree_ok t \<Longrightarrow> owned (mem h) (blocks p t) \<Longrightarrow> json_value_free (root t) h = Inr (release (addrs t) h)"
  using free_value_tree [of t p "next_addr h"] length_owned [of h "blocks p t"]
  by (simp add: json_value_free_def frees_def)

lemma heap_ok_release [simp]: "heap_ok h \<Longrightarrow> heap_ok (release A h)"
  by (simp add: heap_ok_def)

end
