(* ===== verification/JsonHeapAdd.thy ===== *)
theory JsonHeapAdd
  imports JsonHeap
begin

text \<open>
  The constructors of values of \<^verbatim>\<open>Tema_3/parson.c\<close> and the operations that add to objects and arrays, on the heap.
  Each is specified by the blocks it leaves: on success those of the new tree, on failure those there were.
  An operation fails only when its precondition does or an allocation is refused.
\<close>

section \<open>What a heap holds\<close>

text \<open>The heap consists of the memory \<open>m\<close> and, apart from it, the blocks \<open>bs\<close>.\<close>

definition holds :: "(jaddr \<Rightarrow> 'n block option) \<Rightarrow> (jaddr \<times> 'n block) list \<Rightarrow> 'n jheap \<Rightarrow> bool" where
  "holds m bs h \<longleftrightarrow> heap_ok h \<and> owned (mem h) bs \<and> (\<forall>a. m a = (if a \<in> fst ` set bs then None else mem h a))"

lemma holds_Nil: "holds m [] h \<longleftrightarrow> heap_ok h \<and> m = mem h"
  by (auto simp: holds_def)

lemma holds_perm:
  assumes "holds m bs h" "mset cs = mset bs"
  shows "holds m cs h"
proof -
  have "mset (map fst cs) = mset (map fst bs)" using assms(2) by simp
  then have "distinct (map fst cs) = distinct (map fst bs)" by (rule mset_eq_imp_distinct_iff)
  moreover have "set cs = set bs" using assms(2) by (rule mset_eq_setD)
  ultimately show ?thesis using assms(1) by (simp add: holds_def owned_def)
qed

lemma holds_at:
  assumes "holds m bs h" "(a, b) \<in> set bs"
  shows "a \<noteq> 0" "mem h a = Some b"
proof -
  show b: "mem h a = Some b" using assms by (auto simp: holds_def owned_def)
  show "a \<noteq> 0" using heap_okD [OF _ b] assms(1) by (simp add: holds_def)
qed

lemma holds_head: "holds m ((a, b) # bs) h \<Longrightarrow> a \<noteq> 0" "holds m ((a, b) # bs) h \<Longrightarrow> mem h a = Some b"
  using holds_at [of m "(a, b) # bs" h a b] by simp_all

lemma holds_store:
  assumes "holds m ((a, b) # bs) h"
  shows "holds m ((a, b') # bs) (store_block a b' h)"
proof -
  have o: "owned (mem h) bs" "a \<notin> fst ` set bs" "heap_ok h" using assms by (simp_all add: holds_def owned_Cons)
  have "mem h a = Some b" using assms by (simp add: holds_def owned_Cons)
  with o(3) have "a < next_addr h" "0 < a" using heap_okD by blast+
  with o(3) have "heap_ok (store_block a b' h)" by (auto simp: heap_ok_def store_block_def)
  moreover have "owned (mem (store_block a b' h)) bs"
    by (rule owned_outside [OF o(1)]) (use o(2) in \<open>auto simp: store_block_def\<close>)
  ultimately show ?thesis
    using assms o(2) by (auto simp: holds_def owned_Cons store_block_def)
qed

lemma budget_store [simp]: "budget (store_block a b h) = budget h"
  by (simp add: store_block_def)

lemma malloc_cases:
  assumes "holds m bs h"
  obtains (refused) "parson_malloc b h = (0, h)" "budget h = 0"
  | (granted) a h' where "parson_malloc b h = (a, h')" "a \<noteq> 0" "holds m ((a, b) # bs) h'" "budget h = Suc (budget h')"
proof (cases "budget h = 0")
  case True
  then show thesis by (intro refused) (simp_all add: parson_malloc_def)
next
  case False
  let ?a = "next_addr h"
  let ?h = "h\<lparr>mem := (mem h)(?a \<mapsto> b), next_addr := Suc ?a, budget := budget h - 1\<rparr>"
  have ok: "heap_ok h" "owned (mem h) bs" using assms by (simp_all add: holds_def)
  have free: "mem h ?a = None" and pos: "0 < ?a" using ok(1) by (simp_all add: heap_ok_def)
  have out: "?a \<notin> fst ` set bs" using owned_below [OF ok] by auto
  have "owned (mem ?h) bs" by (rule owned_outside [OF ok(2)]) (use out in force)
  moreover have "heap_ok ?h" using ok(1) pos by (simp add: heap_ok_def)
  ultimately have "holds m ((?a, b) # bs) ?h"
    using assms out free by (auto simp: holds_def owned_Cons)
  with False pos show thesis by (intro granted [of ?a ?h]) (simp_all add: parson_malloc_def)
qed

lemma free_block:
  assumes "holds m ((a, b) # bs) h"
  shows "\<exists>h'. parson_free a h = Inr h' \<and> holds m bs h' \<and> budget h' = budget h"
proof (intro exI conjI)
  have a: "a \<noteq> 0" "mem h a = Some b" using holds_at [OF assms] by auto
  show "parson_free a h = Inr (release {a} h)" by (rule parson_free_block [OF a])
  have "owned (mem (release {a} h)) bs"
    by (rule owned_release) (use assms in \<open>auto simp: holds_def owned_Cons\<close>)
  then show "holds m bs (release {a} h)" using assms by (auto simp: holds_def owned_Cons)
qed simp

lemma free_slots:
  assumes "holds m (slots_block a xs @ bs) h"
  shows "\<exists>h'. parson_free a h = Inr h' \<and> holds m bs h' \<and> budget h' = budget h"
  using assms free_block [of m a "SlotsBlock xs" bs h] by (cases "a = 0") (auto simp: slots_block_def)

lemma free_tree:
  assumes "holds m (blocks p t @ bs) h" "tree_ok t"
  shows "\<exists>h'. json_value_free (root t) h = Inr h' \<and> holds m bs h' \<and> budget h' = budget h"
proof (intro exI conjI)
  have o: "heap_ok h" "owned (mem h) (blocks p t)" "owned (mem h) bs" "addrs t \<inter> fst ` set bs = {}"
    using assms(1) by (auto simp: holds_def owned_append addrs_eq)
  show "json_value_free (root t) h = Inr (release (addrs t) h)" by (rule json_value_free_tree [OF o(1) assms(2) o(2)])
  have "owned (mem (release (addrs t) h)) bs" by (rule owned_release [OF o(3,4)])
  then show "holds m bs (release (addrs t) h)"
    using assms(1) o(1,4) by (auto simp: holds_def image_Un addrs_eq)
qed simp

text \<open>A value is its own block and the rest, and only its own block has the parent.\<close>

definition tree_payload :: "'n jtree \<Rightarrow> 'n payload" where
  "tree_payload t = (case t of TNull a \<Rightarrow> PNull | TBoolean a b \<Rightarrow> PBoolean b | TNumber a x \<Rightarrow> PNumber x
     | TString a c s \<Rightarrow> PString c (length s) | TObject a ob ns vs nr vr ms \<Rightarrow> PObject ob | TArray a ar is r ts \<Rightarrow> PArray ar)"

definition inner :: "'n jtree \<Rightarrow> (jaddr \<times> 'n block) list" where
  "inner t = tl (blocks 0 t)"

lemma blocks_root: "blocks p t = (root t, ValueBlock \<lparr>parent = p, payload = tree_payload t\<rparr>) # inner t"
  by (cases t) (simp_all add: inner_def tree_payload_def blocks_object blocks_array)

section \<open>Constructors\<close>

text \<open>A copy of a string is allocated with its length.\<close>

definition parson_strndup :: "string \<Rightarrow> nat \<Rightarrow> 'n jheap \<Rightarrow> jaddr \<times> 'n jheap" where
  "parson_strndup s n h = parson_malloc (CharsBlock (take n s)) h"

definition parson_strdup :: "string \<Rightarrow> 'n jheap \<Rightarrow> jaddr \<times> 'n jheap" where
  "parson_strdup s h = parson_strndup s (length s) h"

definition new_value :: "'n payload \<Rightarrow> 'n jheap \<Rightarrow> jaddr \<times> 'n jheap" where
  "new_value pl h = parson_malloc (ValueBlock \<lparr>parent = 0, payload = pl\<rparr>) h"

definition json_value_init_string_no_copy :: "jaddr \<Rightarrow> nat \<Rightarrow> 'n jheap \<Rightarrow> jaddr \<times> 'n jheap" where
  "json_value_init_string_no_copy c len h = new_value (PString c len) h"

definition json_value_init_string_with_len_m :: "string option \<Rightarrow> nat \<Rightarrow> 'n jheap \<Rightarrow> (jaddr \<times> 'n jheap) c_result" where
  "json_value_init_string_with_len_m str len h =
     (case str of None \<Rightarrow> Inr (0, h)
      | Some s \<Rightarrow>
          if \<not> is_valid_utf8 s len then Inr (0, h)
          else let (copy, h) = parson_strndup s len h
            in if copy = 0 then Inr (0, h)
               else let (v, h) = json_value_init_string_no_copy copy len h
                 in if v = 0 then c_bind (parson_free copy h) (\<lambda>h. Inr (0, h)) else Inr (v, h))"

definition json_value_init_string_m :: "string option \<Rightarrow> 'n jheap \<Rightarrow> (jaddr \<times> 'n jheap) c_result" where
  "json_value_init_string_m str h =
     (case str of None \<Rightarrow> Inr (0, h) | Some s \<Rightarrow> json_value_init_string_with_len_m str (length s) h)"

definition json_value_init_number_m :: "'n numlib \<Rightarrow> 'n \<Rightarrow> 'n jheap \<Rightarrow> jaddr \<times> 'n jheap" where
  "json_value_init_number_m L x h = (if num_invalid L x then (0, h) else new_value (PNumber x) h)"

definition json_value_init_boolean_m :: "int \<Rightarrow> 'n jheap \<Rightarrow> jaddr \<times> 'n jheap" where
  "json_value_init_boolean_m b h = new_value (PBoolean (b \<noteq> 0)) h"

definition json_value_init_null_m :: "'n jheap \<Rightarrow> jaddr \<times> 'n jheap" where
  "json_value_init_null_m h = new_value PNull h"

definition json_object_init_m :: "jaddr \<Rightarrow> 'n jheap \<Rightarrow> jaddr \<times> 'n jheap" where
  "json_object_init_m wrapping h = parson_malloc (ObjectBlock
     \<lparr>obj_wrapping = wrapping, obj_names = 0, obj_values = 0, obj_count = 0, obj_capacity = 0\<rparr>) h"

definition json_array_init_m :: "jaddr \<Rightarrow> 'n jheap \<Rightarrow> jaddr \<times> 'n jheap" where
  "json_array_init_m wrapping h = parson_malloc (ArrayBlock
     \<lparr>arr_wrapping = wrapping, arr_items = 0, arr_count = 0, arr_capacity = 0\<rparr>) h"

text \<open>The value is allocated first, then what it wraps; its own block is completed at the end.\<close>

definition json_value_init_object_m :: "'n jheap \<Rightarrow> (jaddr \<times> 'n jheap) c_result" where
  "json_value_init_object_m h =
     (let (a, h) = new_value (PObject 0) h
      in if a = 0 then Inr (0, h)
         else let (ob, h) = json_object_init_m a h
           in if ob = 0 then c_bind (parson_free a h) (\<lambda>h. Inr (0, h))
              else Inr (a, store_block a (ValueBlock \<lparr>parent = 0, payload = PObject ob\<rparr>) h))"

definition json_value_init_array_m :: "'n jheap \<Rightarrow> (jaddr \<times> 'n jheap) c_result" where
  "json_value_init_array_m h =
     (let (a, h) = new_value (PArray 0) h
      in if a = 0 then Inr (0, h)
         else let (ar, h) = json_array_init_m a h
           in if ar = 0 then c_bind (parson_free a h) (\<lambda>h. Inr (0, h))
              else Inr (a, store_block a (ValueBlock \<lparr>parent = 0, payload = PArray ar\<rparr>) h))"

text \<open>
  A constructor gives the root of a tree it has added to the heap, or the null pointer with nothing
  added. With \<open>k\<close> allocations granted it does not fail.
\<close>

definition builds :: "(jaddr \<Rightarrow> 'n block option) \<Rightarrow> (jaddr \<times> 'n block) list \<Rightarrow> 'n jheap \<Rightarrow> nat \<Rightarrow> jaddr \<Rightarrow> 'n jheap \<Rightarrow>
    'n json_value \<Rightarrow> bool" where
  "builds m bs h k a h' v \<longleftrightarrow> budget h \<le> budget h' + k \<and>
     (a = 0 \<and> holds m bs h' \<and> budget h' = 0 \<or>
      (\<exists>t. a = root t \<and> a \<noteq> 0 \<and> tree_ok t \<and> holds m (blocks 0 t @ bs) h' \<and> value_of t = v))"

lemma new_value_builds:
  assumes "holds m bs h" "new_value pl h = (a, h')"
    "\<And>a. a \<noteq> 0 \<Longrightarrow> root (f a) = a \<and> tree_ok (f a) \<and> blocks 0 (f a) = [(a, ValueBlock \<lparr>parent = 0, payload = pl\<rparr>)] \<and> value_of (f a) = v"
  shows "builds m bs h 1 a h' v"
proof (cases rule: malloc_cases [OF assms(1), of "ValueBlock \<lparr>parent = 0, payload = pl\<rparr>"])
  case 1
  with assms(1,2) show ?thesis by (simp add: new_value_def builds_def)
next
  case (2 a2 h2)
  with assms(2) assms(3) [of a2] show ?thesis
    unfolding builds_def by (intro conjI disjI2 exI [of _ "f a2"]) (auto simp: new_value_def)
qed

lemma null_builds: "holds m bs h \<Longrightarrow> json_value_init_null_m h = (a, h') \<Longrightarrow> builds m bs h 1 a h' VNull"
  by (rule new_value_builds [where f = TNull]) (simp_all add: json_value_init_null_m_def)

lemma boolean_builds: "holds m bs h \<Longrightarrow> json_value_init_boolean_m b h = (a, h') \<Longrightarrow> builds m bs h 1 a h' (VBoolean (b \<noteq> 0))"
  by (rule new_value_builds [where f = "\<lambda>a. TBoolean a (b \<noteq> 0)"]) (simp_all add: json_value_init_boolean_m_def)

lemma number_builds:
  "holds m bs h \<Longrightarrow> \<not> num_invalid L x \<Longrightarrow> json_value_init_number_m L x h = (a, h') \<Longrightarrow> builds m bs h 1 a h' (VNumber x)"
  by (rule new_value_builds [where f = "\<lambda>a. TNumber a x"]) (simp_all add: json_value_init_number_m_def)

lemma object_builds:
  assumes "holds m bs h"
  shows "\<exists>a h'. json_value_init_object_m h = Inr (a, h') \<and> budget h \<le> budget h' + 2 \<and>
    (a = 0 \<and> holds m bs h' \<and> budget h' = 0 \<or>
     (\<exists>ob. a \<noteq> 0 \<and> ob \<noteq> 0 \<and> holds m (blocks 0 (TObject a ob 0 0 [] [] []) @ bs) h'))"
proof (cases rule: malloc_cases [OF assms, of "ValueBlock \<lparr>parent = 0, payload = PObject 0\<rparr>"])
  case 1
  with assms show ?thesis by (simp add: json_value_init_object_m_def new_value_def)
next
  case (2 a h1)
  let ?o = "ObjectBlock \<lparr>obj_wrapping = a, obj_names = 0, obj_values = 0, obj_count = 0, obj_capacity = 0\<rparr>"
  show ?thesis
  proof (cases rule: malloc_cases [OF 2(3), of ?o])
    case 1
    from free_block [OF 2(3)] obtain h2 where "parson_free a h1 = Inr h2" "holds m bs h2" "budget h2 = budget h1" by blast
    with 1 2 show ?thesis by (simp add: json_value_init_object_m_def new_value_def json_object_init_m_def)
  next
    case (2 ob h2)
    have "holds m ((a, ValueBlock \<lparr>parent = 0, payload = PObject 0\<rparr>) # (ob, ?o) # bs) h2"
      by (rule holds_perm [OF 2(3)]) simp
    from holds_store [OF this, of "ValueBlock \<lparr>parent = 0, payload = PObject ob\<rparr>"]
    have "holds m (blocks 0 (TObject a ob 0 0 [] [] []) @ bs) (store_block a (ValueBlock \<lparr>parent = 0, payload = PObject ob\<rparr>) h2)"
      by (simp add: blocks_object slots_block_def)
    with 2 \<open>a \<noteq> 0\<close> \<open>parson_malloc _ h = (a, h1)\<close> \<open>budget h = Suc (budget h1)\<close> show ?thesis
      by (auto simp add: json_value_init_object_m_def new_value_def json_object_init_m_def)
  qed
qed

lemma array_builds:
  assumes "holds m bs h"
  shows "\<exists>a h'. json_value_init_array_m h = Inr (a, h') \<and> budget h \<le> budget h' + 2 \<and>
    (a = 0 \<and> holds m bs h' \<and> budget h' = 0 \<or>
     (\<exists>ar. a \<noteq> 0 \<and> ar \<noteq> 0 \<and> holds m (blocks 0 (TArray a ar 0 [] []) @ bs) h'))"
proof (cases rule: malloc_cases [OF assms, of "ValueBlock \<lparr>parent = 0, payload = PArray 0\<rparr>"])
  case 1
  with assms show ?thesis by (simp add: json_value_init_array_m_def new_value_def)
next
  case (2 a h1)
  let ?o = "ArrayBlock \<lparr>arr_wrapping = a, arr_items = 0, arr_count = 0, arr_capacity = 0\<rparr>"
  show ?thesis
  proof (cases rule: malloc_cases [OF 2(3), of ?o])
    case 1
    from free_block [OF 2(3)] obtain h2 where "parson_free a h1 = Inr h2" "holds m bs h2" "budget h2 = budget h1" by blast
    with 1 2 show ?thesis by (simp add: json_value_init_array_m_def new_value_def json_array_init_m_def)
  next
    case (2 ar h2)
    have "holds m ((a, ValueBlock \<lparr>parent = 0, payload = PArray 0\<rparr>) # (ar, ?o) # bs) h2"
      by (rule holds_perm [OF 2(3)]) simp
    from holds_store [OF this, of "ValueBlock \<lparr>parent = 0, payload = PArray ar\<rparr>"]
    have "holds m (blocks 0 (TArray a ar 0 [] []) @ bs) (store_block a (ValueBlock \<lparr>parent = 0, payload = PArray ar\<rparr>) h2)"
      by (simp add: blocks_array slots_block_def)
    with 2 \<open>a \<noteq> 0\<close> \<open>parson_malloc _ h = (a, h1)\<close> \<open>budget h = Suc (budget h1)\<close> show ?thesis
      by (auto simp add: json_value_init_array_m_def new_value_def json_array_init_m_def)
  qed
qed

end
