(* ===== verification/JsonHeapGrow.thy ===== *)
theory JsonHeapGrow
  imports JsonHeapAdd
begin

text \<open>
  The operations of \<^verbatim>\<open>Tema_3/parson.c\<close> that add a value to an object or array on the heap: looking a name up,
  growing the slots, storing the copied name and the value with its parent.
\<close>

section \<open>Slots\<close>

text \<open>\<open>memcpy\<close> of the first \<open>k\<close> slots of one block over those of another.\<close>

definition copy_block :: "jaddr \<Rightarrow> jaddr \<Rightarrow> nat \<Rightarrow> 'n jheap \<Rightarrow> 'n jheap c_result" where
  "copy_block dst src k h =
     c_bind (slots_at src h) (\<lambda>xs.
     c_bind (slots_at dst h) (\<lambda>ys.
       if k \<le> length xs \<and> k \<le> length ys then Inr (store_block dst (SlotsBlock (take k xs @ drop k ys)) h)
       else Inl OutOfBounds))"

text \<open>What the functions on C strings see of a block of characters.\<close>

definition c_chars :: "string \<Rightarrow> string" where
  "c_chars s = takeWhile (\<lambda>c. c \<noteq> NUL) s"

lemma c_chars_id [simp]: "NUL \<notin> set s \<Longrightarrow> c_chars s = s"
  by (auto simp: c_chars_def takeWhile_eq_all_conv)

lemma c_chars_length: "length (c_chars s) = length s \<longleftrightarrow> NUL \<notin> set s"
proof
  assume "length (c_chars s) = length s"
  then have "c_chars s = s" unfolding c_chars_def by (metis takeWhile_eq_take take_all order_refl)
  then show "NUL \<notin> set s" unfolding c_chars_def by (metis set_takeWhileD)
qed simp

lemma copy_block_eq:
  assumes "holds m ((dst, SlotsBlock (replicate n None)) # bs) h" "(src, SlotsBlock (map Some xs @ r)) \<in> set bs" "length xs \<le> n"
  shows "\<exists>h'. copy_block dst src (length xs) h = Inr h' \<and>
    holds m ((dst, SlotsBlock (map Some xs @ replicate (n - length xs) None)) # bs) h' \<and> budget h' = budget h"
proof -
  have d: "dst \<noteq> 0" "mem h dst = Some (SlotsBlock (replicate n None))" using holds_head [OF assms(1)] by simp_all
  have s: "src \<noteq> 0" "mem h src = Some (SlotsBlock (map Some xs @ r))"
    using holds_at [OF assms(1) list.set_intros(2) [OF assms(2)]] by simp_all
  have "copy_block dst src (length xs) h =
      Inr (store_block dst (SlotsBlock (map Some xs @ replicate (n - length xs) None)) h)"
    using d s assms(3) by (simp add: copy_block_def at_defs)
  with holds_store [OF assms(1), of "SlotsBlock (map Some xs @ replicate (n - length xs) None)"] show ?thesis by simp
qed

lemma update_after_map [simp]: "(map f xs @ x # ys)[length xs := y] = map f xs @ y # ys"
  by (simp add: list_update_append)

lemma set_slot_eq:
  assumes "holds m ((a, SlotsBlock xs) # bs) h" "i < length xs"
  shows "\<exists>h'. set_slot a i x h = Inr h' \<and> holds m ((a, SlotsBlock (xs[i := Some x])) # bs) h' \<and> budget h' = budget h"
  using holds_head [OF assms(1)] holds_store [OF assms(1), of "SlotsBlock (xs[i := Some x])"] assms(2)
  by (simp add: set_slot_def at_defs write_slot_def)

section \<open>Objects\<close>

text \<open>The parent of what is stored in an object or array is the value that wraps it.\<close>

definition json_object_get_wrapping_value :: "jaddr \<Rightarrow> 'n jheap \<Rightarrow> jaddr c_result" where
  "json_object_get_wrapping_value ob h = c_bind (object_at ob h) (\<lambda>obj. Inr (obj_wrapping obj))"

definition json_value_get_parent :: "jaddr \<Rightarrow> 'n jheap \<Rightarrow> jaddr c_result" where
  "json_value_get_parent v h = (if v = 0 then Inr 0 else c_bind (value_at v h) (\<lambda>w. Inr (parent w)))"

definition set_parent :: "jaddr \<Rightarrow> jaddr \<Rightarrow> 'n jheap \<Rightarrow> 'n jheap c_result" where
  "set_parent v p h = c_bind (value_at v h) (\<lambda>w. Inr (store_block v (ValueBlock (w\<lparr>parent := p\<rparr>)) h))"

fun find_value_m :: "jobject \<Rightarrow> string \<Rightarrow> nat \<Rightarrow> nat \<Rightarrow> 'n jheap \<Rightarrow> jaddr c_result" where
  "find_value_m ob name i 0 h = Inr 0"
| "find_value_m ob name i (Suc k) h =
     c_bind (slot_at (obj_names ob) i h) (\<lambda>c.
     c_bind (chars_at c h) (\<lambda>s.
       if length (c_chars s) \<noteq> length name then find_value_m ob name (Suc i) k h
       else if c_chars s = name then slot_at (obj_values ob) i h
       else find_value_m ob name (Suc i) k h))"

definition json_object_getn_value_m :: "jaddr \<Rightarrow> string \<Rightarrow> 'n jheap \<Rightarrow> jaddr c_result" where
  "json_object_getn_value_m a name h =
     (if a = 0 then Inr 0 else c_bind (object_at a h) (\<lambda>ob. find_value_m ob name 0 (obj_count ob) h))"

definition json_object_resize_m :: "jaddr \<Rightarrow> nat \<Rightarrow> 'n jheap \<Rightarrow> (bool \<times> 'n jheap) c_result" where
  "json_object_resize_m a new_capacity h =
     c_bind (object_at a h) (\<lambda>ob.
       if obj_names ob = 0 \<and> obj_values ob \<noteq> 0 \<or> obj_names ob \<noteq> 0 \<and> obj_values ob = 0 \<or> new_capacity = 0 then Inr (False, h)
       else let (temp_names, h) = parson_malloc (SlotsBlock (replicate new_capacity None)) h
         in if temp_names = 0 then Inr (False, h)
            else let (temp_values, h) = parson_malloc (SlotsBlock (replicate new_capacity None)) h
              in if temp_values = 0 then c_bind (parson_free temp_names h) (\<lambda>h. Inr (False, h))
                 else c_bind (if obj_names ob \<noteq> 0 \<and> obj_values ob \<noteq> 0 \<and> obj_count ob > 0
                              then c_bind (copy_block temp_names (obj_names ob) (obj_count ob) h)
                                     (copy_block temp_values (obj_values ob) (obj_count ob))
                              else Inr h) (\<lambda>h.
                      c_bind (parson_free (obj_names ob) h) (\<lambda>h.
                      c_bind (parson_free (obj_values ob) h) (\<lambda>h.
                        Inr (True, store_block a (ObjectBlock (ob\<lparr>obj_names := temp_names, obj_values := temp_values,
                          obj_capacity := new_capacity\<rparr>)) h)))))"

definition json_object_addn_m :: "jaddr \<Rightarrow> string \<Rightarrow> jaddr \<Rightarrow> 'n jheap \<Rightarrow> (bool \<times> 'n jheap) c_result" where
  "json_object_addn_m a name v h =
     (if a = 0 \<or> v = 0 then Inr (False, h)
      else c_bind (json_object_getn_value_m a name h) (\<lambda>old.
        if old \<noteq> 0 then Inr (False, h)
        else c_bind (object_at a h) (\<lambda>ob.
             c_bind (if obj_count ob \<ge> obj_capacity ob
                     then json_object_resize_m a (max (obj_capacity ob * 2) STARTING_CAPACITY) h
                     else Inr (True, h)) (\<lambda>(ok, h).
               if \<not> ok then Inr (False, h)
               else c_bind (object_at a h) (\<lambda>ob.
                    let index = obj_count ob; (copy, h) = parson_strndup name (length name) h
                    in c_bind (set_slot (obj_names ob) index copy h) (\<lambda>h.
                         if copy = 0 then Inr (False, h)
                         else c_bind (json_object_get_wrapping_value a h) (\<lambda>w.
                              c_bind (set_parent v w h) (\<lambda>h.
                              c_bind (set_slot (obj_values ob) index v h) (\<lambda>h.
                              c_bind (object_at a h) (\<lambda>ob.
                                Inr (True, store_block a (ObjectBlock (ob\<lparr>obj_count := obj_count ob + 1\<rparr>)) h)))))))))))"

definition json_object_add_m :: "jaddr \<Rightarrow> string option \<Rightarrow> jaddr \<Rightarrow> 'n jheap \<Rightarrow> (bool \<times> 'n jheap) c_result" where
  "json_object_add_m a name v h =
     (case name of None \<Rightarrow> Inr (False, h) | Some name \<Rightarrow> json_object_addn_m a name v h)"

section \<open>Arrays\<close>

definition json_array_get_wrapping_value :: "jaddr \<Rightarrow> 'n jheap \<Rightarrow> jaddr c_result" where
  "json_array_get_wrapping_value ar h = c_bind (array_at ar h) (\<lambda>a. Inr (arr_wrapping a))"

definition json_array_resize_m :: "jaddr \<Rightarrow> nat \<Rightarrow> 'n jheap \<Rightarrow> (bool \<times> 'n jheap) c_result" where
  "json_array_resize_m a new_capacity h =
     (if new_capacity = 0 then Inr (False, h)
      else let (new_items, h) = parson_malloc (SlotsBlock (replicate new_capacity None)) h
        in if new_items = 0 then Inr (False, h)
           else c_bind (array_at a h) (\<lambda>ar.
                c_bind (if arr_items ar \<noteq> 0 \<and> arr_count ar > 0
                        then copy_block new_items (arr_items ar) (arr_count ar) h else Inr h) (\<lambda>h.
                c_bind (parson_free (arr_items ar) h) (\<lambda>h.
                  Inr (True, store_block a (ArrayBlock (ar\<lparr>arr_items := new_items, arr_capacity := new_capacity\<rparr>)) h)))))"

definition json_array_add_m :: "jaddr \<Rightarrow> jaddr \<Rightarrow> 'n jheap \<Rightarrow> (bool \<times> 'n jheap) c_result" where
  "json_array_add_m a v h =
     c_bind (array_at a h) (\<lambda>ar.
     c_bind (if arr_count ar \<ge> arr_capacity ar
             then json_array_resize_m a (max (arr_capacity ar * 2) STARTING_CAPACITY) h
             else Inr (True, h)) (\<lambda>(ok, h).
       if \<not> ok then Inr (False, h)
       else c_bind (json_array_get_wrapping_value a h) (\<lambda>w.
            c_bind (set_parent v w h) (\<lambda>h.
            c_bind (array_at a h) (\<lambda>ar.
            c_bind (set_slot (arr_items ar) (arr_count ar) v h) (\<lambda>h.
              Inr (True, store_block a (ArrayBlock (ar\<lparr>arr_count := arr_count ar + 1\<rparr>)) h)))))))"

section \<open>The specifications\<close>

lemma set_parent_eq:
  assumes "holds m (blocks p t @ bs) h"
  shows "\<exists>h'. set_parent (root t) q h = Inr h' \<and> holds m (blocks q t @ bs) h' \<and> budget h' = budget h"
proof -
  have h: "holds m ((root t, ValueBlock \<lparr>parent = p, payload = tree_payload t\<rparr>) # inner t @ bs) h"
    using assms by (simp add: blocks_root)
  have "root t \<noteq> 0" "mem h (root t) = Some (ValueBlock \<lparr>parent = p, payload = tree_payload t\<rparr>)"
    using holds_head [OF h] by simp_all
  with holds_store [OF h, of "ValueBlock \<lparr>parent = q, payload = tree_payload t\<rparr>"] show ?thesis
    by (simp add: set_parent_def at_defs blocks_root)
qed

text \<open>The member of that name among those from \<open>i\<close>, or the null pointer.\<close>

lemma find_value_eq:
  assumes "holds m bs h" "length rest > 0 \<Longrightarrow> (obj_names ob, SlotsBlock (map Some (map fst (pre @ rest)) @ nr)) \<in> set bs"
    "length rest > 0 \<Longrightarrow> (obj_values ob, SlotsBlock (map Some (map member_root (pre @ rest)) @ vr)) \<in> set bs"
    "\<forall>(c, k, t) \<in> set rest. (c, CharsBlock k) \<in> set bs \<and> NUL \<notin> set k"
  shows "find_value_m ob name (length pre) (length rest) h =
    Inr (case map_of (map (\<lambda>(c, k, t). (k, root t)) rest) name of None \<Rightarrow> 0 | Some a \<Rightarrow> a)"
  using assms(2-4)
proof (induction rest arbitrary: pre)
  case (Cons x rest)
  obtain c k t where x: "x = (c, k, t)" by (cases x)
  have n: "(obj_names ob, SlotsBlock (map Some (map fst (pre @ x # rest)) @ nr)) \<in> set bs" using Cons.prems(1) by simp
  have v: "(obj_values ob, SlotsBlock (map Some (map member_root (pre @ x # rest)) @ vr)) \<in> set bs" using Cons.prems(2) by simp
  have 1: "slot_at (obj_names ob) (length pre) h = Inr c"
    using slot_at_eq [OF holds_at [OF assms(1) n], of "length pre"] by (simp add: nth_append x)
  have 2: "slot_at (obj_values ob) (length pre) h = Inr (root t)"
    using slot_at_eq [OF holds_at [OF assms(1) v], of "length pre"] by (simp add: nth_append x)
  have k: "(c, CharsBlock k) \<in> set bs" "NUL \<notin> set k" using Cons.prems(3) by (auto simp: x)
  then have 3: "chars_at c h = Inr k" using holds_at [OF assms(1) k(1)] by (simp add: at_defs)
  have "find_value_m ob name (length (pre @ [x])) (length rest) h =
      Inr (case map_of (map (\<lambda>(c, k, t). (k, root t)) rest) name of None \<Rightarrow> 0 | Some a \<Rightarrow> a)"
    by (rule Cons.IH) (use n v Cons.prems(3) in auto)
  with 1 2 3 k(2) show ?case by (auto simp: x)
qed simp

text \<open>Growing or trimming the slots of an object to \<open>n\<close>, or a refused allocation and nothing changed.\<close>

lemma object_resize_cases:
  assumes h: "holds m ((a, ObjectBlock ob) # slots_block (obj_names ob) (map Some xs @ r) @
      slots_block (obj_values ob) (map Some ys @ q) @ bs) h"
    and k: "length xs = obj_count ob" "length ys = obj_count ob" "obj_count ob \<le> n" "n \<noteq> 0"
    and null: "obj_names ob = 0 \<longleftrightarrow> obj_values ob = 0" "obj_names ob = 0 \<longrightarrow> xs = [] \<and> ys = []"
  obtains (refused) h' where "json_object_resize_m a n h = Inr (False, h')" "budget h' = 0" "budget h \<le> 2"
      "holds m ((a, ObjectBlock ob) # slots_block (obj_names ob) (map Some xs @ r) @
        slots_block (obj_values ob) (map Some ys @ q) @ bs) h'"
    | (resized) h' ns vs where "json_object_resize_m a n h = Inr (True, h')" "ns \<noteq> 0" "vs \<noteq> 0" "budget h = budget h' + 2"
      "holds m ((a, ObjectBlock (ob\<lparr>obj_names := ns, obj_values := vs, obj_capacity := n\<rparr>)) #
          slots_block ns (map Some xs @ replicate (n - length xs) None) @
          slots_block vs (map Some ys @ replicate (n - length ys) None) @ bs) h'"
proof -
  let ?N = "slots_block (obj_names ob) (map Some xs @ r)" and ?V = "slots_block (obj_values ob) (map Some ys @ q)"
  let ?E = "SlotsBlock (replicate n None)"
  have a: "a \<noteq> 0" "mem h a = Some (ObjectBlock ob)" using holds_head [OF h] by simp_all
  have o: "object_at a h = Inr ob" using a by (simp add: at_defs)
  show thesis
  proof (cases rule: malloc_cases [OF h, of ?E])
    case 1
    show thesis by (rule refused [of h]) (use 1 o null(1) k(4) h in \<open>auto simp: json_object_resize_m_def\<close>)
  next
    case (2 tn h1)
    note tn = 2
    show thesis
    proof (cases rule: malloc_cases [OF tn(3), of ?E])
      case 1
      from free_block [OF tn(3)] obtain h2 where
        "parson_free tn h1 = Inr h2" "holds m ((a, ObjectBlock ob) # ?N @ ?V @ bs) h2" "budget h2 = budget h1" by blast
      then show thesis using 1 tn o null(1) k(4) by (intro refused [of h2]) (auto simp: json_object_resize_m_def)
    next
      case (2 tv h2)
      note tv = 2
      let ?copy = "if obj_names ob \<noteq> 0 \<and> obj_values ob \<noteq> 0 \<and> obj_count ob > 0
        then c_bind (copy_block tn (obj_names ob) (obj_count ob) h2) (copy_block tv (obj_values ob) (obj_count ob)) else Inr h2"
      let ?X = "SlotsBlock (map Some xs @ replicate (n - length xs) None)"
        and ?Y = "SlotsBlock (map Some ys @ replicate (n - length ys) None)"
      have "\<exists>h3. ?copy = Inr h3 \<and> holds m ((tv, ?Y) # (tn, ?X) # (a, ObjectBlock ob) # ?N @ ?V @ bs) h3 \<and> budget h3 = budget h2"
      proof (cases "obj_names ob \<noteq> 0 \<and> obj_values ob \<noteq> 0 \<and> obj_count ob > 0")
        case True
        have "holds m ((tn, ?E) # (tv, ?E) # (a, ObjectBlock ob) # ?N @ ?V @ bs) h2"
          by (rule holds_perm [OF tv(3)]) simp
        from copy_block_eq [OF this, of "obj_names ob" xs r] True k obtain h3 where
          h3: "copy_block tn (obj_names ob) (obj_count ob) h2 = Inr h3" "budget h3 = budget h2"
          "holds m ((tn, ?X) # (tv, ?E) # (a, ObjectBlock ob) # ?N @ ?V @ bs) h3"
          by (auto simp: slots_block_def)
        have "holds m ((tv, ?E) # (tn, ?X) # (a, ObjectBlock ob) # ?N @ ?V @ bs) h3"
          by (rule holds_perm [OF h3(3)]) simp
        from copy_block_eq [OF this, of "obj_values ob" ys q] True k obtain h4 where
          "copy_block tv (obj_values ob) (obj_count ob) h3 = Inr h4" "budget h4 = budget h3"
          "holds m ((tv, ?Y) # (tn, ?X) # (a, ObjectBlock ob) # ?N @ ?V @ bs) h4"
          by (auto simp: slots_block_def)
        with True h3 show ?thesis by simp
      next
        case False
        with k null have "xs = []" "ys = []" by auto
        with False tv(3) show ?thesis by auto
      qed
      then obtain h3 where h3: "?copy = Inr h3" "budget h3 = budget h2"
        "holds m ((tv, ?Y) # (tn, ?X) # (a, ObjectBlock ob) # ?N @ ?V @ bs) h3" by blast
      have "holds m (?N @ ?V @ (a, ObjectBlock ob) # (tn, ?X) # (tv, ?Y) # bs) h3"
        by (rule holds_perm [OF h3(3)]) (simp add: ac_simps)
      from free_slots [OF this] obtain h4 where h4: "parson_free (obj_names ob) h3 = Inr h4"
        "holds m (?V @ (a, ObjectBlock ob) # (tn, ?X) # (tv, ?Y) # bs) h4" "budget h4 = budget h3" by blast
      from free_slots [OF h4(2)] obtain h5 where h5: "parson_free (obj_values ob) h4 = Inr h5"
        "holds m ((a, ObjectBlock ob) # (tn, ?X) # (tv, ?Y) # bs) h5" "budget h5 = budget h4" by blast
      let ?O = "ObjectBlock (ob\<lparr>obj_names := tn, obj_values := tv, obj_capacity := n\<rparr>)"
      have "json_object_resize_m a n h = Inr (True, store_block a ?O h5)"
        using o tn tv h3(1) h4(1) h5(1) null(1) k(4) by (auto simp: json_object_resize_m_def)
      moreover have "holds m ((a, ?O) # slots_block tn (map Some xs @ replicate (n - length xs) None) @
          slots_block tv (map Some ys @ replicate (n - length ys) None) @ bs) (store_block a ?O h5)"
        using holds_store [OF h5(2), of ?O] tn(2) tv(2) by (simp add: slots_block_def)
      ultimately show thesis
        using tn(2,4) tv(2,4) h3(2) h4(3) h5(3) by (intro resized [of "store_block a ?O h5" tn tv]) auto
    qed
  qed
qed

lemma obj_update [simp]:
  "\<lparr>obj_wrapping = w, obj_names = n, obj_values = v, obj_count = k, obj_capacity = c\<rparr>\<lparr>obj_names := n', obj_values := v', obj_capacity := c'\<rparr> =
   \<lparr>obj_wrapping = w, obj_names = n', obj_values = v', obj_count = k, obj_capacity = c'\<rparr>"
  by simp

text \<open>The same on trees.\<close>

lemma object_resize_tree:
  assumes h: "holds m (blocks p (TObject a ob ns vs nr vr ms) @ bs) h" and ok: "tree_ok (TObject a ob ns vs nr vr ms)"
    and n: "length ms \<le> n" "n \<noteq> 0"
  obtains (refused) h' where "json_object_resize_m ob n h = Inr (False, h')" "budget h' = 0" "budget h \<le> 2"
      "holds m (blocks p (TObject a ob ns vs nr vr ms) @ bs) h'"
    | (resized) h' r ns' vs' where "json_object_resize_m ob n h = Inr (True, h')" "budget h = budget h' + 2"
      "length r = n - length ms" "tree_ok (TObject a ob ns' vs' r r ms)" "holds m (blocks p (TObject a ob ns' vs' r r ms) @ bs) h'"
proof -
  let ?o = "\<lparr>obj_wrapping = a, obj_names = ns, obj_values = vs, obj_count = length ms, obj_capacity = length ms + length nr\<rparr>"
  let ?a = "(a, ValueBlock \<lparr>parent = p, payload = PObject ob\<rparr>)"
  have h': "holds m ((ob, ObjectBlock ?o) # slots_block (obj_names ?o) (map Some (map fst ms) @ nr) @
      slots_block (obj_values ?o) (map Some (map member_root ms) @ vr) @ ?a # member_blocks a ms @ bs) h"
    by (rule holds_perm [OF h]) (simp add: blocks_object comp_def)
  have pre: "length (map fst ms) = obj_count ?o" "length (map member_root ms) = obj_count ?o" "obj_count ?o \<le> n"
    "obj_names ?o = 0 \<longleftrightarrow> obj_values ?o = 0" "obj_names ?o = 0 \<longrightarrow> map fst ms = [] \<and> map member_root ms = []" using ok n(1) by auto
  show thesis
  proof (cases rule: object_resize_cases [OF h' pre(1-3) n(2) pre(4,5)])
    case (1 h1)
    have "holds m (blocks p (TObject a ob ns vs nr vr ms) @ bs) h1"
      by (rule holds_perm [OF 1(4)]) (simp add: blocks_object comp_def)
    with 1(1-3) show thesis by (rule refused)
  next
    case (2 h1 ns' vs')
    let ?r = "replicate (n - length ms) None"
    have "holds m (blocks p (TObject a ob ns' vs' ?r ?r ms) @ bs) h1"
      by (rule holds_perm [OF 2(5)]) (use n(1) in \<open>simp add: blocks_object comp_def\<close>)
    moreover have "tree_ok (TObject a ob ns' vs' ?r ?r ms)" using ok 2(2,3) n by auto
    ultimately show thesis using 2(1,4) by (intro resized [of h1 ?r]) auto
  qed
qed

lemma object_at_tree:
  assumes "holds m (blocks p (TObject a ob ns vs nr vr ms) @ bs) h"
  shows "ob \<noteq> 0" "object_at ob h = Inr \<lparr>obj_wrapping = a, obj_names = ns, obj_values = vs, obj_count = length ms,
     obj_capacity = length ms + length nr\<rparr>"
proof -
  have "(ob, ObjectBlock \<lparr>obj_wrapping = a, obj_names = ns, obj_values = vs, obj_count = length ms,
     obj_capacity = length ms + length nr\<rparr>) \<in> set (blocks p (TObject a ob ns vs nr vr ms) @ bs)"
    by (simp add: blocks_object)
  from holds_at [OF assms this] show "ob \<noteq> 0" "object_at ob h = Inr \<lparr>obj_wrapping = a, obj_names = ns, obj_values = vs,
     obj_count = length ms, obj_capacity = length ms + length nr\<rparr>" by (simp_all add: at_defs)
qed

lemma member_chars: "(c, k, t) \<in> set ms \<Longrightarrow> (c, CharsBlock k) \<in> set (member_blocks a ms)"
  by (induction ms rule: member_addrs.induct) auto

lemma getn_value_tree:
  assumes h: "holds m (blocks p (TObject a ob ns vs nr vr ms) @ bs) h" and ok: "tree_ok (TObject a ob ns vs nr vr ms)"
  shows "json_object_getn_value_m ob name h =
    Inr (case map_of (map (\<lambda>(c, k, t). (k, root t)) ms) name of None \<Rightarrow> 0 | Some v \<Rightarrow> v)"
proof -
  let ?o = "\<lparr>obj_wrapping = a, obj_names = ns, obj_values = vs, obj_count = length ms, obj_capacity = length ms + length nr\<rparr>"
  have "find_value_m ?o name (length ([] :: (jaddr \<times> string \<times> 'a jtree) list)) (length ms) h =
      Inr (case map_of (map (\<lambda>(c, k, t). (k, root t)) ms) name of None \<Rightarrow> 0 | Some v \<Rightarrow> v)"
  proof (rule find_value_eq [OF h, where nr = nr and vr = vr])
    assume "length ms > 0"
    then have "ns \<noteq> 0" "vs \<noteq> 0" using ok by auto
    then show "(obj_names ?o, SlotsBlock (map Some (map fst ([] @ ms)) @ nr)) \<in> set (blocks p (TObject a ob ns vs nr vr ms) @ bs)"
      "(obj_values ?o, SlotsBlock (map Some (map member_root ([] @ ms)) @ vr)) \<in> set (blocks p (TObject a ob ns vs nr vr ms) @ bs)"
      by (simp_all add: blocks_object slots_block_def comp_def)
  next
    show "\<forall>(c, k, t) \<in> set ms. (c, CharsBlock k) \<in> set (blocks p (TObject a ob ns vs nr vr ms) @ bs) \<and> NUL \<notin> set k"
      using ok by (auto simp: blocks_object member_chars)
  qed
  with object_at_tree [OF h] show ?thesis by (simp add: json_object_getn_value_m_def)
qed

lemma root_nonzero: "tree_ok t \<Longrightarrow> root t \<noteq> 0"
  by (cases t) auto

lemma getn_value_absent:
  assumes "tree_ok (TObject a ob ns vs nr vr ms)"
  shows "(case map_of (map (\<lambda>(c, k, t). (k, root t)) ms) name of None \<Rightarrow> 0 | Some v \<Rightarrow> v) = 0 \<longleftrightarrow>
    name \<notin> (\<lambda>m. fst (snd m)) ` set ms"
proof (cases "map_of (map (\<lambda>(c, k, t). (k, root t)) ms) name")
  case None
  then have "name \<notin> fst ` set (map (\<lambda>(c, k, t). (k, root t)) ms)" by (rule iffD1 [OF map_of_eq_None_iff])
  moreover have "fst ` set (map (\<lambda>(c, k, t). (k, root t)) ms) = (\<lambda>m. fst (snd m)) ` set ms" by force
  ultimately show ?thesis using None by simp
next
  case (Some v)
  then have "(name, v) \<in> set (map (\<lambda>(c, k, t). (k, root t)) ms)" by (rule map_of_SomeD)
  then obtain c t where "(c, name, t) \<in> set ms" "v = root t" by auto
  with Some assms show ?thesis by (force dest: root_nonzero)
qed

text \<open>Making room: an object with a free slot, or a refused allocation.\<close>

lemma object_room:
  assumes h: "holds m (blocks p (TObject a ob ns vs nr vr ms) @ bs) h" and ok: "tree_ok (TObject a ob ns vs nr vr ms)"
  defines "room \<equiv> if length ms \<ge> length ms + length nr
     then json_object_resize_m ob (max ((length ms + length nr) * 2) STARTING_CAPACITY) h else Inr (True, h)"
  obtains (refused) h' where "room = Inr (False, h')" "budget h' = 0" "budget h \<le> 2"
      "holds m (blocks p (TObject a ob ns vs nr vr ms) @ bs) h'"
    | (room) h' ns' vs' x nr' y vr' where "room = Inr (True, h')" "budget h \<le> budget h' + 2"
      "tree_ok (TObject a ob ns' vs' (x # nr') (y # vr') ms)" "holds m (blocks p (TObject a ob ns' vs' (x # nr') (y # vr') ms) @ bs) h'"
proof (cases nr)
  case Nil
  let ?n = "max (length ms * 2) STARTING_CAPACITY"
  have n: "length ms < ?n" unfolding STARTING_CAPACITY_def by linarith
  then have n': "length ms \<le> ?n" "?n \<noteq> 0" by linarith+
  have r: "room = json_object_resize_m ob ?n h" by (simp add: room_def Nil)
  show thesis
  proof (cases rule: object_resize_tree [OF h ok n'])
    case (1 h1)
    then show thesis by (intro refused [of h1]) (simp_all add: r)
  next
    case (2 h1 s ns' vs')
    then obtain x s' where "s = x # s'" using n by (cases s) auto
    with 2 show thesis by (intro room [of h1 ns' vs' x s' x s']) (simp_all add: r)
  qed
next
  case (Cons x nr')
  moreover obtain y vr' where "vr = y # vr'" using ok Cons by (cases vr) auto
  ultimately show thesis using h ok by (intro room [of h ns vs x nr' y vr']) (simp_all add: room_def)
qed

text \<open>Storing a copied name and its value in the free slot.\<close>

lemma object_store:
  assumes h: "holds m ((c, CharsBlock name) # blocks p (TObject a ob ns vs (x # nr) (y # vr) ms) @ blocks q t @ bs) h"
    and ok: "tree_ok (TObject a ob ns vs (x # nr) (y # vr) ms)"
  shows "\<exists>h'. c_bind (set_slot ns (length ms) c h) (\<lambda>h.
      c_bind (json_object_get_wrapping_value ob h) (\<lambda>w.
      c_bind (set_parent (root t) w h) (\<lambda>h.
      c_bind (set_slot vs (length ms) (root t) h) (\<lambda>h.
      c_bind (object_at ob h) (\<lambda>ob'.
        Inr (True, store_block ob (ObjectBlock (ob'\<lparr>obj_count := obj_count ob' + 1\<rparr>)) h)))))) = Inr (True, h') \<and>
      budget h' = budget h \<and> holds m (blocks p (TObject a ob ns vs nr vr (ms @ [(c, name, t)])) @ bs) h'"
proof -
  let ?o = "\<lparr>obj_wrapping = a, obj_names = ns, obj_values = vs, obj_count = length ms, obj_capacity = length ms + Suc (length nr)\<rparr>"
  let ?o' = "\<lparr>obj_wrapping = a, obj_names = ns, obj_values = vs, obj_count = Suc (length ms), obj_capacity = length ms + Suc (length nr)\<rparr>"
  let ?A = "(a, ValueBlock \<lparr>parent = p, payload = PObject ob\<rparr>)" and ?C = "(c, CharsBlock name)"
  let ?N = "map Some (map fst ms) @ x # nr" and ?V = "map Some (map member_root ms) @ y # vr"
  let ?N' = "map Some (map fst ms) @ Some c # nr" and ?V' = "map Some (map member_root ms) @ Some (root t) # vr"
  have nz: "ns \<noteq> 0" "vs \<noteq> 0" using ok by auto
  have "holds m ((ns, SlotsBlock ?N) # (vs, SlotsBlock ?V) # (ob, ObjectBlock ?o) # ?A # ?C # member_blocks a ms @ blocks q t @ bs) h"
    by (rule holds_perm [OF h]) (simp add: blocks_object slots_block_def nz comp_def)
  from set_slot_eq [OF this, of "length ms" c] obtain h1 where h1: "set_slot ns (length ms) c h = Inr h1" "budget h1 = budget h"
    "holds m ((ns, SlotsBlock ?N') # (vs, SlotsBlock ?V) # (ob, ObjectBlock ?o) # ?A # ?C # member_blocks a ms @ blocks q t @ bs) h1"
    by auto
  have "holds m ((ob, ObjectBlock ?o) # (ns, SlotsBlock ?N') # (vs, SlotsBlock ?V) # ?A # ?C # member_blocks a ms @ blocks q t @ bs) h1"
    by (rule holds_perm [OF h1(3)]) simp
  from holds_head [OF this] have w: "json_object_get_wrapping_value ob h1 = Inr a"
    by (simp add: json_object_get_wrapping_value_def at_defs)
  have "holds m (blocks q t @ (ob, ObjectBlock ?o) # (ns, SlotsBlock ?N') # (vs, SlotsBlock ?V) # ?A # ?C # member_blocks a ms @ bs) h1"
    by (rule holds_perm [OF h1(3)]) (simp add: ac_simps)
  from set_parent_eq [OF this, of a] obtain h2 where h2: "set_parent (root t) a h1 = Inr h2" "budget h2 = budget h1"
    "holds m (blocks a t @ (ob, ObjectBlock ?o) # (ns, SlotsBlock ?N') # (vs, SlotsBlock ?V) # ?A # ?C # member_blocks a ms @ bs) h2"
    by blast
  have "holds m ((vs, SlotsBlock ?V) # (ob, ObjectBlock ?o) # (ns, SlotsBlock ?N') # ?A # ?C # member_blocks a ms @ blocks a t @ bs) h2"
    by (rule holds_perm [OF h2(3)]) (simp add: ac_simps)
  from set_slot_eq [OF this, of "length ms" "root t"] obtain h3 where h3: "set_slot vs (length ms) (root t) h2 = Inr h3" "budget h3 = budget h2"
    "holds m ((vs, SlotsBlock ?V') # (ob, ObjectBlock ?o) # (ns, SlotsBlock ?N') # ?A # ?C # member_blocks a ms @ blocks a t @ bs) h3"
    by auto
  have h4: "holds m ((ob, ObjectBlock ?o) # (vs, SlotsBlock ?V') # (ns, SlotsBlock ?N') # ?A # ?C # member_blocks a ms @ blocks a t @ bs) h3"
    by (rule holds_perm [OF h3(3)]) simp
  from holds_head [OF h4] have o: "object_at ob h3 = Inr ?o" by (simp add: at_defs)
  from holds_store [OF h4, of "ObjectBlock ?o'"]
  have "holds m ((ob, ObjectBlock ?o') # (vs, SlotsBlock ?V') # (ns, SlotsBlock ?N') # ?A # ?C # member_blocks a ms @ blocks a t @ bs)
    (store_block ob (ObjectBlock ?o') h3)" .
  then have "holds m (blocks p (TObject a ob ns vs nr vr (ms @ [(c, name, t)])) @ bs) (store_block ob (ObjectBlock ?o') h3)"
    by (rule holds_perm) (simp add: blocks_object slots_block_def nz comp_def)
  with h1 w h2 h3 o show ?thesis by simp
qed

lemma addn_tree:
  assumes h: "holds m (blocks p (TObject a ob ns vs nr vr ms) @ blocks q t @ bs) h" and ok: "tree_ok (TObject a ob ns vs nr vr ms)"
    "tree_ok t" "NUL \<notin> set name"
  obtains (refused) h' ns' vs' nr' vr' where "json_object_addn_m ob name (root t) h = Inr (False, h')"
      "name \<in> (\<lambda>m. fst (snd m)) ` set ms \<or> budget h' = 0" "budget h \<le> budget h' + 3"
      "tree_ok (TObject a ob ns' vs' nr' vr' ms)" "holds m (blocks p (TObject a ob ns' vs' nr' vr' ms) @ blocks q t @ bs) h'"
    | (added) h' ns' vs' nr' vr' c where "json_object_addn_m ob name (root t) h = Inr (True, h')"
      "name \<notin> (\<lambda>m. fst (snd m)) ` set ms" "budget h \<le> budget h' + 3"
      "tree_ok (TObject a ob ns' vs' nr' vr' (ms @ [(c, name, t)]))"
      "holds m (blocks p (TObject a ob ns' vs' nr' vr' (ms @ [(c, name, t)])) @ bs) h'"
proof (cases "name \<in> (\<lambda>m. fst (snd m)) ` set ms")
  case True
  then have "json_object_getn_value_m ob name h \<noteq> Inr 0"
    using getn_value_absent [OF ok(1), of name] by (simp add: getn_value_tree [OF h ok(1)])
  then have "json_object_addn_m ob name (root t) h = Inr (False, h)"
    using object_at_tree(1) [OF h] root_nonzero [OF ok(2)]
    by (simp add: json_object_addn_m_def getn_value_tree [OF h ok(1)])
  with h ok True show thesis by (intro refused [of h ns vs nr vr]) simp_all
next
  case False
  then have get: "json_object_getn_value_m ob name h = Inr 0"
    using getn_value_absent [OF ok(1), of name] by (simp add: getn_value_tree [OF h ok(1)])
  note o = object_at_tree [OF h] and t = root_nonzero [OF ok(2)]
  show thesis
  proof (cases rule: object_room [OF h ok(1)])
    case (1 h1)
    then have "json_object_addn_m ob name (root t) h = Inr (False, h1)"
      using get o t by (cases "nr = []") (simp_all add: json_object_addn_m_def)
    with 1 ok show thesis by (intro refused [of h1 ns vs nr vr]) simp_all
  next
    case (2 h1 ns1 vs1 x nr1 y vr1)
    note o1 = object_at_tree [OF 2(4)]
    let ?o1 = "\<lparr>obj_wrapping = a, obj_names = ns1, obj_values = vs1, obj_count = length ms, obj_capacity = length ms + length (x # nr1)\<rparr>"
    show thesis
    proof (cases rule: malloc_cases [OF 2(4), of "CharsBlock name"])
      case r: 1
      have nz: "ns1 \<noteq> 0" using 2(3) by auto
      have "holds m ((ns1, SlotsBlock (map Some (map fst ms) @ x # nr1)) # (a, ValueBlock \<lparr>parent = p, payload = PObject ob\<rparr>) #
          (ob, ObjectBlock ?o1) # slots_block vs1 (map Some (map member_root ms) @ y # vr1) @ member_blocks a ms @ blocks q t @ bs) h1"
        by (rule holds_perm [OF 2(4)]) (simp add: blocks_object slots_block_def nz comp_def)
      from set_slot_eq [OF this, of "length ms" 0] obtain h2 where h2: "set_slot ns1 (length ms) 0 h1 = Inr h2" "budget h2 = budget h1"
        "holds m ((ns1, SlotsBlock (map Some (map fst ms) @ Some 0 # nr1)) # (a, ValueBlock \<lparr>parent = p, payload = PObject ob\<rparr>) #
          (ob, ObjectBlock ?o1) # slots_block vs1 (map Some (map member_root ms) @ y # vr1) @ member_blocks a ms @ blocks q t @ bs) h2" by auto
      have "holds m (blocks p (TObject a ob ns1 vs1 (Some 0 # nr1) (y # vr1) ms) @ blocks q t @ bs) h2"
        by (rule holds_perm [OF h2(3)]) (simp add: blocks_object slots_block_def nz comp_def)
      moreover have "json_object_addn_m ob name (root t) h = Inr (False, h2)"
        using get o o1 t 2(1) r(1) h2(1) by (cases "nr = []") (simp_all add: json_object_addn_m_def parson_strndup_def)
      ultimately show thesis
        using 2 r(2) h2(2) by (intro refused [of h2 ns1 vs1 "Some 0 # nr1" "y # vr1"]) auto
    next
      case g: (2 c h2)
      have "holds m ((c, CharsBlock name) # blocks p (TObject a ob ns1 vs1 (x # nr1) (y # vr1) ms) @ blocks q t @ bs) h2"
        using g(3) by simp
      from object_store [OF this 2(3)] obtain h3 where h3: "c_bind (set_slot ns1 (length ms) c h2) (\<lambda>h.
      c_bind (json_object_get_wrapping_value ob h) (\<lambda>w.
      c_bind (set_parent (root t) w h) (\<lambda>h.
      c_bind (set_slot vs1 (length ms) (root t) h) (\<lambda>h.
      c_bind (object_at ob h) (\<lambda>ob'.
        Inr (True, store_block ob (ObjectBlock (ob'\<lparr>obj_count := obj_count ob' + 1\<rparr>)) h)))))) = Inr (True, h3)"
        "budget h3 = budget h2" "holds m (blocks p (TObject a ob ns1 vs1 nr1 vr1 (ms @ [(c, name, t)])) @ bs) h3" by blast
      have "json_object_addn_m ob name (root t) h = Inr (True, h3)"
        using get o o1 t 2(1) g(1,2) h3(1) by (cases "nr = []") (simp_all add: json_object_addn_m_def parson_strndup_def)
      moreover have "tree_ok (TObject a ob ns1 vs1 nr1 vr1 (ms @ [(c, name, t)]))"
        using 2(3) ok(2,3) g(2) False by auto
      ultimately show thesis
        using False 2(2) g(4) h3(2,3) by (intro added [of h3 ns1 vs1 nr1 vr1 c]) auto
    qed
  qed
qed

lemma array_at_tree:
  assumes "holds m (blocks p (TArray a ar is r ts) @ bs) h"
  shows "ar \<noteq> 0" "array_at ar h = Inr \<lparr>arr_wrapping = a, arr_items = is, arr_count = length ts, arr_capacity = length ts + length r\<rparr>"
proof -
  have "(ar, ArrayBlock \<lparr>arr_wrapping = a, arr_items = is, arr_count = length ts, arr_capacity = length ts + length r\<rparr>)
    \<in> set (blocks p (TArray a ar is r ts) @ bs)"
    by (simp add: blocks_array)
  from holds_at [OF assms this] show "ar \<noteq> 0"
    "array_at ar h = Inr \<lparr>arr_wrapping = a, arr_items = is, arr_count = length ts, arr_capacity = length ts + length r\<rparr>"
    by (simp_all add: at_defs)
qed

lemma array_resize_tree:
  assumes h: "holds m (blocks p (TArray a ar is r ts) @ bs) h" and ok: "tree_ok (TArray a ar is r ts)"
    and n: "length ts \<le> n" "n \<noteq> 0"
  obtains (refused) "json_array_resize_m ar n h = Inr (False, h)" "budget h = 0"
    | (resized) h' is' where "json_array_resize_m ar n h = Inr (True, h')" "budget h = budget h' + 1"
      "tree_ok (TArray a ar is' (replicate (n - length ts) None) ts)"
      "holds m (blocks p (TArray a ar is' (replicate (n - length ts) None) ts) @ bs) h'"
proof -
  let ?o = "\<lparr>arr_wrapping = a, arr_items = is, arr_count = length ts, arr_capacity = length ts + length r\<rparr>"
  let ?a = "(a, ValueBlock \<lparr>parent = p, payload = PArray ar\<rparr>)"
  let ?E = "SlotsBlock (replicate n None)" and ?S = "slots_block is (map Some (map root ts) @ r)"
  let ?R = "replicate (n - length ts) None"
  show thesis
  proof (cases rule: malloc_cases [OF h, of ?E])
    case 1
    with n(2) show thesis by (intro refused) (simp_all add: json_array_resize_m_def)
  next
    case (2 its h1)
    have o: "array_at ar h1 = Inr ?o"
    proof -
      have "holds m (blocks p (TArray a ar is r ts) @ (its, ?E) # bs) h1"
        by (rule holds_perm [OF 2(3)]) simp
      then show ?thesis by (rule array_at_tree)
    qed
    let ?copy = "if is \<noteq> 0 \<and> length ts > 0 then copy_block its is (length ts) h1 else Inr h1"
    have h1: "holds m ((its, ?E) # ?S @ (ar, ArrayBlock ?o) # ?a # item_blocks a ts @ bs) h1"
      by (rule holds_perm [OF 2(3)]) (simp add: blocks_array comp_def)
    have "\<exists>h2. ?copy = Inr h2 \<and> budget h2 = budget h1 \<and>
      holds m ((its, SlotsBlock (map Some (map root ts) @ ?R)) # ?S @ (ar, ArrayBlock ?o) # ?a # item_blocks a ts @ bs) h2"
    proof (cases "is \<noteq> 0 \<and> length ts > 0")
      case True
      with copy_block_eq [OF h1, of "is" "map root ts" r] n(1) show ?thesis by (auto simp: slots_block_def)
    next
      case False
      then have "ts = []" using ok by auto
      with False h1 show ?thesis by simp
    qed
    then obtain h2 where h2: "?copy = Inr h2" "budget h2 = budget h1"
      "holds m ((its, SlotsBlock (map Some (map root ts) @ ?R)) # ?S @ (ar, ArrayBlock ?o) # ?a # item_blocks a ts @ bs) h2" by blast
    have "holds m (?S @ (ar, ArrayBlock ?o) # (its, SlotsBlock (map Some (map root ts) @ ?R)) # ?a # item_blocks a ts @ bs) h2"
      by (rule holds_perm [OF h2(3)]) simp
    from free_slots [OF this] obtain h3 where h3: "parson_free is h2 = Inr h3" "budget h3 = budget h2"
      "holds m ((ar, ArrayBlock ?o) # (its, SlotsBlock (map Some (map root ts) @ ?R)) # ?a # item_blocks a ts @ bs) h3" by blast
    let ?O = "ArrayBlock (?o\<lparr>arr_items := its, arr_capacity := n\<rparr>)"
    have "holds m (blocks p (TArray a ar its ?R ts) @ bs) (store_block ar ?O h3)"
      by (rule holds_perm [OF holds_store [OF h3(3), of ?O]]) (use 2(2) n(1) in \<open>simp add: blocks_array slots_block_def comp_def\<close>)
    moreover have "json_array_resize_m ar n h = Inr (True, store_block ar ?O h3)"
      using 2(1,2) n(2) o h2(1) h3(1) by (auto simp: json_array_resize_m_def)
    moreover have "tree_ok (TArray a ar its ?R ts)" using ok 2(2) n by auto
    ultimately show thesis using 2(4) h2(2) h3(2) by (intro resized [of "store_block ar ?O h3" its]) auto
  qed
qed

lemma array_room:
  assumes h: "holds m (blocks p (TArray a ar is r ts) @ bs) h" and ok: "tree_ok (TArray a ar is r ts)"
  defines "room \<equiv> if length ts \<ge> length ts + length r
     then json_array_resize_m ar (max ((length ts + length r) * 2) STARTING_CAPACITY) h else Inr (True, h)"
  obtains (refused) "room = Inr (False, h)" "budget h = 0"
    | (room) h' is' x r' where "room = Inr (True, h')" "budget h \<le> budget h' + 1"
      "tree_ok (TArray a ar is' (x # r') ts)" "holds m (blocks p (TArray a ar is' (x # r') ts) @ bs) h'"
proof (cases r)
  case Nil
  let ?n = "max (length ts * 2) STARTING_CAPACITY"
  have n: "length ts < ?n" unfolding STARTING_CAPACITY_def by linarith
  then have n': "length ts \<le> ?n" "?n \<noteq> 0" by linarith+
  have r: "room = json_array_resize_m ar ?n h" by (simp add: room_def Nil)
  show thesis
  proof (cases rule: array_resize_tree [OF h ok n'])
    case 1
    then show thesis by (intro refused) (simp_all add: r)
  next
    case (2 h1 its)
    obtain j where "?n - length ts = Suc j" using n by (metis Suc_diff_Suc)
    then have "replicate (?n - length ts) (None :: jaddr option) = None # replicate j None" by simp
    with 2 show thesis by (intro room [of h1 its None "replicate j None"]) (simp_all add: r)
  qed
next
  case (Cons x r')
  then show thesis using h ok by (intro room [of h "is" x r']) (simp_all add: room_def)
qed

lemma array_add_tree:
  assumes h: "holds m (blocks p (TArray a ar is r ts) @ blocks q t @ bs) h" and ok: "tree_ok (TArray a ar is r ts)" "tree_ok t"
  obtains (refused) "json_array_add_m ar (root t) h = Inr (False, h)" "budget h = 0"
    | (added) h' is' r' where "json_array_add_m ar (root t) h = Inr (True, h')" "budget h \<le> budget h' + 1"
      "tree_ok (TArray a ar is' r' (ts @ [t]))" "holds m (blocks p (TArray a ar is' r' (ts @ [t])) @ bs) h'"
proof -
  note o = array_at_tree [OF h]
  show thesis
  proof (cases rule: array_room [OF h ok(1)])
    case 1
    then show thesis using o by (intro refused; cases "r = []") (simp_all add: json_array_add_m_def)
  next
    case (2 h1 its x r1)
    let ?o = "\<lparr>arr_wrapping = a, arr_items = its, arr_count = length ts, arr_capacity = length ts + Suc (length r1)\<rparr>"
    let ?o' = "\<lparr>arr_wrapping = a, arr_items = its, arr_count = Suc (length ts), arr_capacity = length ts + Suc (length r1)\<rparr>"
    let ?a = "(a, ValueBlock \<lparr>parent = p, payload = PArray ar\<rparr>)"
    let ?S = "map Some (map root ts) @ x # r1" and ?S' = "map Some (map root ts) @ Some (root t) # r1"
    have nz: "its \<noteq> 0" using 2(3) by auto
    have w: "json_array_get_wrapping_value ar h1 = Inr a"
      using array_at_tree [OF 2(4)] by (simp add: json_array_get_wrapping_value_def)
    have "holds m (blocks q t @ (ar, ArrayBlock ?o) # (its, SlotsBlock ?S) # ?a # item_blocks a ts @ bs) h1"
      by (rule holds_perm [OF 2(4)]) (simp add: blocks_array slots_block_def nz comp_def ac_simps)
    from set_parent_eq [OF this, of a] obtain h2 where h2: "set_parent (root t) a h1 = Inr h2" "budget h2 = budget h1"
      "holds m (blocks a t @ (ar, ArrayBlock ?o) # (its, SlotsBlock ?S) # ?a # item_blocks a ts @ bs) h2" by blast
    have "holds m ((ar, ArrayBlock ?o) # (its, SlotsBlock ?S) # ?a # item_blocks a ts @ blocks a t @ bs) h2"
      by (rule holds_perm [OF h2(3)]) (simp add: ac_simps)
    from holds_head [OF this] have o2: "array_at ar h2 = Inr ?o" by (simp add: at_defs)
    have "holds m ((its, SlotsBlock ?S) # (ar, ArrayBlock ?o) # ?a # item_blocks a ts @ blocks a t @ bs) h2"
      by (rule holds_perm [OF h2(3)]) (simp add: ac_simps)
    from set_slot_eq [OF this, of "length ts" "root t"] obtain h3 where h3: "set_slot its (length ts) (root t) h2 = Inr h3"
      "budget h3 = budget h2" "holds m ((its, SlotsBlock ?S') # (ar, ArrayBlock ?o) # ?a # item_blocks a ts @ blocks a t @ bs) h3" by auto
    have h4: "holds m ((ar, ArrayBlock ?o) # (its, SlotsBlock ?S') # ?a # item_blocks a ts @ blocks a t @ bs) h3"
      by (rule holds_perm [OF h3(3)]) simp
    have "holds m (blocks p (TArray a ar its r1 (ts @ [t])) @ bs) (store_block ar (ArrayBlock ?o') h3)"
      by (rule holds_perm [OF holds_store [OF h4, of "ArrayBlock ?o'"]]) (simp add: blocks_array slots_block_def nz comp_def ac_simps)
    moreover have "json_array_add_m ar (root t) h = Inr (True, store_block ar (ArrayBlock ?o') h3)"
      using o 2(1) w h2(1) o2 h3(1) by (cases "r = []") (simp_all add: json_array_add_m_def)
    moreover have "tree_ok (TArray a ar its r1 (ts @ [t]))" using 2(3) ok(2) by auto
    ultimately show thesis
      using 2(2) h2(2) h3(2) by (intro added [of "store_block ar (ArrayBlock ?o') h3" its r1]) auto
  qed
qed

end
