(* ===== verification/JsonHeapParse.thy ===== *)
theory JsonHeapParse
  imports JsonHeapGrow JsonRoundtrip
begin

text \<open>
  The parser of \<^verbatim>\<open>Tema_3/parson.c\<close> on the heap, where any allocation may fail: it refines the parser of values of
  theory \<open>Json\<close>, and what it allocated on the way is either the value it returns or freed again.
\<close>

section \<open>Strings\<close>

text \<open>
  The output buffer is as long as the quoted text and takes the processed characters, which are then
  copied to a block of their own size. The result has the length that is stored through \<open>output_len\<close>.
\<close>

definition process_string_m :: "string \<Rightarrow> nat \<Rightarrow> 'n jheap \<Rightarrow> (jaddr \<times> nat \<times> 'n jheap) c_result" where
  "process_string_m input input_len h =
     (let (output, h) = parson_malloc (CharsBlock []) h
      in if output = 0 then Inr (0, 0, h)
         else case process_string input input_len of
           None \<Rightarrow> c_bind (parson_free output h) (\<lambda>h. Inr (0, 0, h))
         | Some out \<Rightarrow>
             let h = store_block output (CharsBlock out) h; (resized_output, h) = parson_malloc (CharsBlock out) h
             in if resized_output = 0 then c_bind (parson_free output h) (\<lambda>h. Inr (0, 0, h))
                else c_bind (parson_free output h) (\<lambda>h. Inr (resized_output, length out, h)))"

definition get_quoted_string_m :: "string \<Rightarrow> 'n jheap \<Rightarrow> (jaddr \<times> nat \<times> string \<times> 'n jheap) c_result" where
  "get_quoted_string_m s h =
     (case skip_quotes s of None \<Rightarrow> Inr (0, 0, s, h)
      | Some r \<Rightarrow> c_bind (process_string_m (drop 1 s) (length s - length r - 2) h) (\<lambda>(a, len, h). Inr (a, len, r, h)))"

section \<open>Values\<close>

text \<open>Where the value is null, no caller uses the position.\<close>

type_synonym 'n heap_parser = "string \<Rightarrow> nat \<Rightarrow> 'n jheap \<Rightarrow> (jaddr \<times> string \<times> 'n jheap) c_result"

definition parse_string_value_m :: "string \<Rightarrow> 'n jheap \<Rightarrow> (jaddr \<times> string \<times> 'n jheap) c_result" where
  "parse_string_value_m s h =
     c_bind (get_quoted_string_m s h) (\<lambda>(new_string, len, s, h).
       if new_string = 0 then Inr (0, s, h)
       else let (v, h) = json_value_init_string_no_copy new_string len h
         in if v = 0 then c_bind (parson_free new_string h) (\<lambda>h. Inr (0, s, h)) else Inr (v, s, h))"

definition parse_boolean_value_m :: "string \<Rightarrow> 'n jheap \<Rightarrow> jaddr \<times> string \<times> 'n jheap" where
  "parse_boolean_value_m s h =
     (if starts_with ''true'' s then let (v, h) = json_value_init_boolean_m 1 h in (v, drop 4 s, h)
      else if starts_with ''false'' s then let (v, h) = json_value_init_boolean_m 0 h in (v, drop 5 s, h)
      else (0, s, h))"

definition parse_number_value_m :: "'n numlib \<Rightarrow> string \<Rightarrow> 'n jheap \<Rightarrow> jaddr \<times> string \<times> 'n jheap" where
  "parse_number_value_m L s h =
     (let n = strtod_len s; tok = take n s
      in if num_errno L tok \<or> \<not> is_decimal s n then (0, s, h)
         else let (v, h) = json_value_init_number_m L (num_value L tok) h in (v, drop n s, h))"

definition parse_null_value_m :: "string \<Rightarrow> 'n jheap \<Rightarrow> jaddr \<times> string \<times> 'n jheap" where
  "parse_null_value_m s h =
     (if starts_with ''null'' s then let (v, h) = json_value_init_null_m h in (v, drop 4 s, h) else (0, s, h))"

definition json_value_get_object_m :: "jaddr \<Rightarrow> 'n jheap \<Rightarrow> jaddr c_result" where
  "json_value_get_object_m a h =
     (if a = 0 then Inr 0 else c_bind (value_at a h) (\<lambda>v. Inr (case payload v of PObject ob \<Rightarrow> ob | _ \<Rightarrow> 0)))"

definition json_value_get_array_m :: "jaddr \<Rightarrow> 'n jheap \<Rightarrow> jaddr c_result" where
  "json_value_get_array_m a h =
     (if a = 0 then Inr 0 else c_bind (value_at a h) (\<lambda>v. Inr (case payload v of PArray ar \<Rightarrow> ar | _ \<Rightarrow> 0)))"

definition json_object_get_count_m :: "jaddr \<Rightarrow> 'n jheap \<Rightarrow> nat c_result" where
  "json_object_get_count_m a h = (if a = 0 then Inr 0 else c_bind (object_at a h) (\<lambda>ob. Inr (obj_count ob)))"

definition json_array_get_count_m :: "jaddr \<Rightarrow> 'n jheap \<Rightarrow> nat c_result" where
  "json_array_get_count_m a h = (if a = 0 then Inr 0 else c_bind (array_at a h) (\<lambda>ar. Inr (arr_count ar)))"

definition parse_failed :: "jaddr \<Rightarrow> 'n jheap \<Rightarrow> (jaddr \<times> string \<times> 'n jheap) c_result" where
  "parse_failed output_value h = c_bind (json_value_free output_value h) (\<lambda>h. Inr (0, [], h))"

text \<open>The end of both loops: the closing bracket, and the slots trimmed to the count.\<close>

definition parse_object_end :: "jaddr \<Rightarrow> jaddr \<Rightarrow> string \<Rightarrow> 'n jheap \<Rightarrow> (jaddr \<times> string \<times> 'n jheap) c_result" where
  "parse_object_end a ob s h =
     (let s = skip_whitespaces s
      in if peek s \<noteq> CHR ''}'' then parse_failed a h
         else c_bind (json_object_get_count_m ob h) (\<lambda>n.
              c_bind (json_object_resize_m ob n h) (\<lambda>(ok, h). if ok then Inr (a, drop 1 s, h) else parse_failed a h)))"

definition parse_array_end :: "jaddr \<Rightarrow> jaddr \<Rightarrow> string \<Rightarrow> 'n jheap \<Rightarrow> (jaddr \<times> string \<times> 'n jheap) c_result" where
  "parse_array_end a ar s h =
     (let s = skip_whitespaces s
      in if peek s \<noteq> CHR '']'' then parse_failed a h
         else c_bind (json_array_get_count_m ar h) (\<lambda>n.
              c_bind (json_array_resize_m ar n h) (\<lambda>(ok, h). if ok then Inr (a, drop 1 s, h) else parse_failed a h)))"

text \<open>A round of the loop of \<open>parse_object_value\<close>: a name, a colon, a value; \<open>False\<close> when the member could not be added.\<close>

definition parse_member_m :: "'n heap_parser \<Rightarrow> jaddr \<Rightarrow> string \<Rightarrow> nat \<Rightarrow> 'n jheap \<Rightarrow> (bool \<times> string \<times> 'n jheap) c_result" where
  "parse_member_m pv ob s nesting h =
     c_bind (get_quoted_string_m s h) (\<lambda>(new_key, key_len, s, h).
       if new_key = 0 then Inr (False, s, h)
       else c_bind (chars_at new_key h) (\<lambda>key.
         if key_len \<noteq> length (c_chars key) then c_bind (parson_free new_key h) (\<lambda>h. Inr (False, s, h))
         else let s = skip_whitespaces s
           in if peek s \<noteq> CHR '':'' then c_bind (parson_free new_key h) (\<lambda>h. Inr (False, s, h))
              else c_bind (pv (drop 1 s) nesting h) (\<lambda>(new_value, s, h).
                if new_value = 0 then c_bind (parson_free new_key h) (\<lambda>h. Inr (False, s, h))
                else c_bind (json_object_add_m ob (Some key) new_value h) (\<lambda>(ok, h).
                  if \<not> ok then c_bind (parson_free new_key h) (\<lambda>h.
                               c_bind (json_value_free new_value h) (\<lambda>h. Inr (False, s, h)))
                  else c_bind (parson_free new_key h) (\<lambda>h. Inr (True, s, h))))))"

fun parse_members_m :: "'n heap_parser \<Rightarrow> nat \<Rightarrow> jaddr \<Rightarrow> jaddr \<Rightarrow> string \<Rightarrow> nat \<Rightarrow> 'n jheap \<Rightarrow> (jaddr \<times> string \<times> 'n jheap) c_result" where
  "parse_members_m pv 0 a ob s nesting h = Inl OutOfFuel"
| "parse_members_m pv (Suc f) a ob s nesting h =
     (if s = [] then parse_object_end a ob s h
      else c_bind (parse_member_m pv ob s nesting h) (\<lambda>(ok, s, h).
        if \<not> ok then parse_failed a h
        else let s = skip_whitespaces s
          in if peek s \<noteq> CHR '','' then parse_object_end a ob s h
             else parse_members_m pv f a ob (skip_whitespaces (drop 1 s)) nesting h))"

definition parse_object_value_m :: "'n heap_parser \<Rightarrow> nat \<Rightarrow> 'n heap_parser" where
  "parse_object_value_m pv f s nesting h =
     c_bind (json_value_init_object_m h) (\<lambda>(a, h).
       if a = 0 then Inr (0, s, h)
       else if peek s \<noteq> CHR ''{'' then parse_failed a h
       else c_bind (json_value_get_object_m a h) (\<lambda>ob.
         let s = skip_whitespaces (drop 1 s)
         in if peek s = CHR ''}'' then Inr (a, drop 1 s, h) else parse_members_m pv f a ob s nesting h))"

fun parse_items_m :: "'n heap_parser \<Rightarrow> nat \<Rightarrow> jaddr \<Rightarrow> jaddr \<Rightarrow> string \<Rightarrow> nat \<Rightarrow> 'n jheap \<Rightarrow> (jaddr \<times> string \<times> 'n jheap) c_result" where
  "parse_items_m pv 0 a ar s nesting h = Inl OutOfFuel"
| "parse_items_m pv (Suc f) a ar s nesting h =
     (if s = [] then parse_array_end a ar s h
      else c_bind (pv s nesting h) (\<lambda>(new_array_value, s, h).
        if new_array_value = 0 then parse_failed a h
        else c_bind (json_array_add_m ar new_array_value h) (\<lambda>(ok, h).
          if \<not> ok then c_bind (json_value_free new_array_value h) (parse_failed a)
          else let s = skip_whitespaces s
            in if peek s \<noteq> CHR '','' then parse_array_end a ar s h
               else parse_items_m pv f a ar (skip_whitespaces (drop 1 s)) nesting h)))"

definition parse_array_value_m :: "'n heap_parser \<Rightarrow> nat \<Rightarrow> 'n heap_parser" where
  "parse_array_value_m pv f s nesting h =
     c_bind (json_value_init_array_m h) (\<lambda>(a, h).
       if a = 0 then Inr (0, s, h)
       else if peek s \<noteq> CHR ''['' then parse_failed a h
       else c_bind (json_value_get_array_m a h) (\<lambda>ar.
         let s = skip_whitespaces (drop 1 s)
         in if peek s = CHR '']'' then Inr (a, drop 1 s, h) else parse_items_m pv f a ar s nesting h))"

fun parse_value_m :: "'n numlib \<Rightarrow> nat \<Rightarrow> 'n heap_parser" where
  "parse_value_m L 0 s nesting h = Inl OutOfFuel"
| "parse_value_m L (Suc f) s nesting h =
     (if nesting > MAX_NESTING then Inr (0, s, h)
      else let s = skip_whitespaces s; c = peek s
        in if c = CHR ''{'' then parse_object_value_m (parse_value_m L f) f s (nesting + 1) h
           else if c = CHR ''['' then parse_array_value_m (parse_value_m L f) f s (nesting + 1) h
           else if c = DQUOTE then parse_string_value_m s h
           else if c = CHR ''f'' \<or> c = CHR ''t'' then Inr (parse_boolean_value_m s h)
           else if c = CHR ''-'' \<or> isdigit c then Inr (parse_number_value_m L s h)
           else if c = CHR ''n'' then Inr (parse_null_value_m s h)
           else Inr (0, s, h))"

definition json_parse_string_m :: "'n numlib \<Rightarrow> string option \<Rightarrow> 'n jheap \<Rightarrow> (jaddr \<times> 'n jheap) c_result" where
  "json_parse_string_m L str h =
     (case str of None \<Rightarrow> Inr (0, h)
      | Some s \<Rightarrow>
          let s = (if char_at s 0 = CHR 0xEF \<and> char_at s 1 = CHR 0xBB \<and> char_at s 2 = CHR 0xBF then drop 3 s else s)
          in c_bind (parse_value_m L (fuel_for s) s 0 h) (\<lambda>(a, s, h). Inr (a, h)))"

section \<open>Strings, numbers and constants\<close>

text \<open>
  \<open>result_of\<close> is what a parser may return at \<open>s\<close> when the parser of values gives \<open>res\<close>: null, with the
  heap holding what it held, or the root of a tree of that value. \<open>j\<close> and \<open>k\<close> bound the allocations,
  beside four per character.
\<close>

definition returns_null :: "(jaddr \<Rightarrow> 'n block option) \<Rightarrow> (jaddr \<times> 'n block) list \<Rightarrow> bool \<Rightarrow> 'n jheap \<Rightarrow> nat \<Rightarrow> 'n jheap \<Rightarrow> bool" where
  "returns_null m bs failed h k h' \<longleftrightarrow> holds m bs h' \<and> (failed \<or> budget h' = 0) \<and> budget h \<le> budget h' + k"

definition returns_tree :: "(jaddr \<Rightarrow> 'n block option) \<Rightarrow> (jaddr \<times> 'n block) list \<Rightarrow> 'n json_value parsed \<Rightarrow> 'n jheap \<Rightarrow> nat \<Rightarrow>
    jaddr \<Rightarrow> string \<Rightarrow> 'n jheap \<Rightarrow> bool" where
  "returns_tree m bs res h k a s' h' \<longleftrightarrow>
     (\<exists>t. a = root t \<and> tree_ok t \<and> holds m (blocks 0 t @ bs) h' \<and> res = Parsed (value_of t) s' \<and>
      budget h + 4 * length s' \<le> budget h' + k)"

definition result_of :: "(jaddr \<Rightarrow> 'n block option) \<Rightarrow> (jaddr \<times> 'n block) list \<Rightarrow> 'n json_value parsed \<Rightarrow> string \<Rightarrow> 'n jheap \<Rightarrow>
    nat \<Rightarrow> nat \<Rightarrow> jaddr \<times> string \<times> 'n jheap \<Rightarrow> bool" where
  "result_of m bs res s h j k = (\<lambda>(a, s', h').
     a = 0 \<and> returns_null m bs (res = Failed) h (4 * length s + j) h' \<or>
     returns_tree m bs res h (4 * length s + k) a s' h')"

definition simulates :: "'n heap_parser \<Rightarrow> 'n value_parser \<Rightarrow> bool" where
  "simulates pvm pv \<longleftrightarrow> (\<forall>m bs s n h. holds m bs h \<longrightarrow> pv s n \<noteq> NoFuel \<longrightarrow>
     (\<exists>r. pvm s n h = Inr r \<and> result_of m bs (pv s n) s h 1 1 r))"

lemma process_string_m_cases:
  assumes "holds m bs h"
  obtains (none) h' where "process_string_m s n h = Inr (0, 0, h')" "returns_null m bs (process_string s n = None) h 2 h'"
    | (some) a out h' where "process_string_m s n h = Inr (a, length out, h')" "a \<noteq> 0" "process_string s n = Some out"
      "holds m ((a, CharsBlock out) # bs) h'" "budget h = budget h' + 2"
proof (cases rule: malloc_cases [OF assms, of "CharsBlock []"])
  case 1
  with assms show thesis by (intro none [of h]) (simp_all add: process_string_m_def returns_null_def)
next
  case (2 o1 h1)
  note o1 = 2
  show thesis
  proof (cases "process_string s n")
    case None
    from free_block [OF o1(3)] obtain h2 where "parson_free o1 h1 = Inr h2" "holds m bs h2" "budget h2 = budget h1" by blast
    with None o1 show thesis by (intro none [of h2]) (simp_all add: process_string_m_def returns_null_def)
  next
    case (Some out)
    let ?h = "store_block o1 (CharsBlock out) h1"
    have h: "holds m ((o1, CharsBlock out) # bs) ?h" using o1(3) by (rule holds_store)
    show thesis
    proof (cases rule: malloc_cases [OF h, of "CharsBlock out"])
      case 1
      from free_block [OF h] obtain h2 where "parson_free o1 ?h = Inr h2" "holds m bs h2" "budget h2 = budget ?h" by blast
      with 1 Some o1 show thesis by (intro none [of h2]) (simp_all add: process_string_m_def returns_null_def)
    next
      case (2 a h2)
      have "holds m ((o1, CharsBlock out) # (a, CharsBlock out) # bs) h2" by (rule holds_perm [OF 2(3)]) simp
      from free_block [OF this] obtain h3 where "parson_free o1 h2 = Inr h3" "holds m ((a, CharsBlock out) # bs) h3"
        "budget h3 = budget h2" by blast
      with 2 Some o1 show thesis by (intro some [of a out h3]) (simp_all add: process_string_m_def)
    qed
  qed
qed

lemma get_quoted_m_cases:
  assumes "holds m bs h"
  obtains (none) len s' h' where "get_quoted_string_m s h = Inr (0, len, s', h')"
      "returns_null m bs (get_quoted_string s = None) h (length s) h'"
    | (some) a out r h' where "get_quoted_string_m s h = Inr (a, length out, r, h')" "a \<noteq> 0" "get_quoted_string s = Some (out, r)"
      "holds m ((a, CharsBlock out) # bs) h'" "budget h = budget h' + 2" "length r + 2 \<le> length s"
proof (cases "skip_quotes s")
  case None
  with assms show thesis
    by (intro none [of 0 s h]) (simp_all add: get_quoted_string_m_def get_quoted_string_def returns_null_def)
next
  case (Some r)
  have len: "2 + length r \<le> length s"
    using Some by (cases s) (auto simp: skip_quotes_def dest!: skip_body_length split: if_splits)
  show thesis
  proof (cases rule: process_string_m_cases [OF assms, of "drop 1 s" "length s - length r - 2"])
    case (1 h')
    with Some len show thesis
      by (intro none [of 0 r h']) (auto simp: get_quoted_string_m_def get_quoted_string_def returns_null_def)
  next
    case (2 a out h')
    with Some len show thesis
      by (intro some [of a out r h']) (simp_all add: get_quoted_string_m_def get_quoted_string_def)
  qed
qed

lemma result_null: "returns_null m bs (res = Failed) h (4 * length s + j) h' \<Longrightarrow> result_of m bs res s h j k (0, s', h')"
  by (simp add: result_of_def)

lemma result_tree: "returns_tree m bs res h (4 * length s + k) a s' h' \<Longrightarrow> result_of m bs res s h j k (a, s', h')"
  by (simp add: result_of_def)

lemma result_builds:
  assumes "builds m bs h 1 a h' v" "length s' \<le> length s"
  shows "result_of m bs (Parsed v s') s h 1 1 (a, s', h')"
  using assms unfolding builds_def result_of_def returns_null_def returns_tree_def by auto

lemma string_value_result:
  assumes "holds m bs h"
  shows "\<exists>r. parse_string_value_m s h = Inr r \<and> result_of m bs (parse_string_value s) s h 1 1 r"
proof (cases rule: get_quoted_m_cases [OF assms, of s])
  case (1 len s' h')
  then have "result_of m bs (parse_string_value s) s h 1 1 (0, s', h')"
    by (intro result_null) (auto simp: parse_string_value_def returns_null_def)
  with 1 show ?thesis by (simp add: parse_string_value_m_def)
next
  case (2 c out r h1)
  note q = 2
  show ?thesis
  proof (cases rule: malloc_cases [OF q(4), of "ValueBlock \<lparr>parent = 0, payload = PString c (length out)\<rparr>"])
    case 1
    from free_block [OF q(4)] obtain h2 where f: "parson_free c h1 = Inr h2" "holds m bs h2" "budget h2 = budget h1" by blast
    then have "result_of m bs (parse_string_value s) s h 1 1 (0, r, h2)"
      using q 1 by (intro result_null) (auto simp: parse_string_value_def returns_null_def)
    with q 1 f show ?thesis by (simp add: parse_string_value_m_def json_value_init_string_no_copy_def new_value_def)
  next
    case (2 v h2)
    then have "returns_tree m bs (parse_string_value s) h (4 * length s + 1) v r h2"
      unfolding returns_tree_def using q by (intro exI [of _ "TString v c out"]) (auto simp: parse_string_value_def)
    then have "result_of m bs (parse_string_value s) s h 1 1 (v, r, h2)" by (rule result_tree)
    with q 2 show ?thesis by (simp add: parse_string_value_m_def json_value_init_string_no_copy_def new_value_def)
  qed
qed

lemma failed_result: "holds m bs h \<Longrightarrow> result_of m bs Failed s h 1 1 (0, s', h)"
  by (simp add: result_of_def returns_null_def)

lemma boolean_value_result:
  assumes "holds m bs h"
  shows "result_of m bs (parse_boolean_value s) s h 1 1 (parse_boolean_value_m s h)"
proof -
  obtain v h1 where t: "json_value_init_boolean_m 1 h = (v, h1)" by fastforce
  obtain w h2 where f: "json_value_init_boolean_m 0 h = (w, h2)" by fastforce
  have "builds m bs h 1 v h1 (VBoolean True)" "builds m bs h 1 w h2 (VBoolean False)"
    using boolean_builds [OF assms t] boolean_builds [OF assms f] by simp_all
  then show ?thesis
    using failed_result [OF assms] by (auto simp: parse_boolean_value_def parse_boolean_value_m_def t f intro: result_builds simp del: One_nat_def)
qed

lemma null_value_result:
  assumes "holds m bs h"
  shows "result_of m bs (parse_null_value s) s h 1 1 (parse_null_value_m s h)"
proof -
  obtain v h1 where n: "json_value_init_null_m h = (v, h1)" by fastforce
  show ?thesis
    using failed_result [OF assms] null_builds [OF assms n]
    by (auto simp: parse_null_value_def parse_null_value_m_def n intro: result_builds simp del: One_nat_def)
qed

lemma number_value_result:
  assumes "holds m bs h"
  shows "result_of m bs (parse_number_value L s) s h 1 1 (parse_number_value_m L s h)"
proof -
  let ?x = "num_value L (take (strtod_len s) s)"
  obtain v h1 where n: "json_value_init_number_m L ?x h = (v, h1)" by fastforce
  show ?thesis
  proof (cases "num_invalid L ?x")
    case True
    with n have "v = 0" "h1 = h" by (simp_all add: json_value_init_number_m_def)
    with True n failed_result [OF assms] show ?thesis
      by (simp add: parse_number_value_def parse_number_value_m_def json_value_init_number_def Let_def)
  next
    case False
    from number_builds [OF assms False n] have "result_of m bs (Parsed (VNumber ?x) (drop (strtod_len s) s)) s h 1 1 (v, drop (strtod_len s) s, h1)"
      by (rule result_builds) simp
    with False n failed_result [OF assms] show ?thesis
      by (simp add: parse_number_value_def parse_number_value_m_def json_value_init_number_def Let_def)
  qed
qed

section \<open>Objects\<close>

lemma parse_failed_eq:
  assumes "holds m (blocks p t @ bs) h" "tree_ok t"
  shows "\<exists>h'. parse_failed (root t) h = Inr (0, [], h') \<and> holds m bs h' \<and> budget h' = budget h"
  using free_tree [OF assms] by (auto simp: parse_failed_def)

lemma object_end_result:
  assumes h: "holds m (blocks 0 (TObject a ob ns vs nr vr ms) @ bs) h" and ok: "tree_ok (TObject a ob ns vs nr vr ms)"
    and ne: "s \<noteq> [] \<Longrightarrow> ms \<noteq> []"
  shows "\<exists>r. parse_object_end a ob s h = Inr r \<and>
    result_of m bs (parse_end CHR ''}'' (value_of (TObject a ob ns vs nr vr ms)) s) s h 0 0 r"
proof (cases "peek (skip_whitespaces s) = CHR ''}''")
  case False
  from parse_failed_eq [OF h ok] obtain h1 where h1: "parse_failed a h = Inr (0, [], h1)" "holds m bs h1" "budget h1 = budget h" by auto
  with False show ?thesis
    by (auto simp: parse_object_end_def parse_end_def Let_def returns_null_def intro: result_null)
next
  case True
  have s: "s \<noteq> []" using True by (auto simp: skip_whitespaces_def)
  with ne have n: "length ms \<le> length ms" "length ms \<noteq> 0" by simp_all
  have s1: "length (drop 1 (skip_whitespaces s)) < length s"
    using skip_whitespaces_length [of s] True by (cases "skip_whitespaces s") auto
  note o = object_at_tree [OF h]
  have c: "json_object_get_count_m ob h = Inr (length ms)" using o by (simp add: json_object_get_count_m_def)
  show ?thesis
  proof (cases rule: object_resize_tree [OF h ok n])
    case (1 h1)
    from parse_failed_eq [OF 1(4) ok] obtain h2 where h2: "parse_failed a h1 = Inr (0, [], h2)" "holds m bs h2" "budget h2 = budget h1" by auto
    have "result_of m bs (parse_end CHR ''}'' (value_of (TObject a ob ns vs nr vr ms)) s) s h 0 0 (0, [], h2)"
      using 1 h2 s1 by (intro result_null) (auto simp: returns_null_def)
    with True c 1 h2 show ?thesis by (simp add: parse_object_end_def Let_def)
  next
    case (2 h1 r ns' vs')
    have "returns_tree m bs (parse_end CHR ''}'' (value_of (TObject a ob ns vs nr vr ms)) s) h (4 * length s) a
        (drop 1 (skip_whitespaces s)) h1"
      unfolding returns_tree_def using 2 True s1
      by (intro exI [of _ "TObject a ob ns' vs' r r ms"]) (auto simp: parse_end_def)
    then have "result_of m bs (parse_end CHR ''}'' (value_of (TObject a ob ns vs nr vr ms)) s) s h 0 0
        (a, drop 1 (skip_whitespaces s), h1)" by (intro result_tree) simp
    with True c 2 show ?thesis by (simp add: parse_object_end_def Let_def)
  qed
qed

text \<open>The parser of values one round at a time.\<close>

definition parse_member :: "'n value_parser \<Rightarrow> (string \<times> 'n json_value) list \<Rightarrow> string \<Rightarrow> nat \<Rightarrow> (string \<times> 'n json_value) list parsed" where
  "parse_member pv ms s nesting =
     (case get_quoted_string s of None \<Rightarrow> Failed
      | Some (key, s) \<Rightarrow>
          if NUL \<in> set key then Failed
          else let s = skip_whitespaces s
            in if peek s \<noteq> CHR '':'' then Failed
               else case pv (drop 1 s) nesting of NoFuel \<Rightarrow> NoFuel | Failed \<Rightarrow> Failed
                 | Parsed v s \<Rightarrow> (case add_member ms key v of None \<Rightarrow> Failed | Some ms \<Rightarrow> Parsed ms s))"

lemma parse_members_Suc:
  "parse_members pv (Suc f) ms s nesting =
     (if s = [] then parse_end CHR ''}'' (VObject ms) s
      else case parse_member pv ms s nesting of NoFuel \<Rightarrow> NoFuel | Failed \<Rightarrow> Failed
        | Parsed ms s \<Rightarrow> let s = skip_whitespaces s
            in if peek s \<noteq> CHR '','' then parse_end CHR ''}'' (VObject ms) s
               else parse_members pv f ms (skip_whitespaces (drop 1 s)) nesting)"
  by (simp add: parse_member_def Let_def split: option.split parsed.split)

text \<open>\<open>members_of\<close>: the members a tree of an object stands for.\<close>

definition members_of :: "(jaddr \<times> string \<times> 'n jtree) list \<Rightarrow> (string \<times> 'n json_value) list" where
  "members_of ms = map (\<lambda>(c, k, t). (k, value_of t)) ms"

lemma add_member_of:
  "add_member (members_of ms) k (value_of t) =
     (if k \<in> (\<lambda>m. fst (snd m)) ` set ms then None else Some (members_of (ms @ [(c, k, t)])))"
proof -
  have "fst ` set (members_of ms) = (\<lambda>m. fst (snd m)) ` set ms" by (force simp: members_of_def)
  then show ?thesis by (simp add: add_member_def members_of_def)
qed

lemma simulatesD:
  "simulates pvm pv \<Longrightarrow> holds m bs h \<Longrightarrow> pv s n \<noteq> NoFuel \<Longrightarrow> \<exists>r. pvm s n h = Inr r \<and> result_of m bs (pv s n) s h 1 1 r"
  unfolding simulates_def by blast

lemma value_cases:
  assumes "simulates pvm pv" "holds m bs h" "pv s n \<noteq> NoFuel"
  obtains (null) s' h' where "pvm s n h = Inr (0, s', h')" "holds m bs h'" "pv s n = Failed \<or> budget h' = 0"
      "budget h \<le> budget h' + 4 * length s + 1"
    | (tree) t s' h' where "pvm s n h = Inr (root t, s', h')" "tree_ok t" "holds m (blocks 0 t @ bs) h'"
      "pv s n = Parsed (value_of t) s'" "budget h + 4 * length s' \<le> budget h' + 4 * length s + 1"
  using simulatesD [OF assms] unfolding result_of_def returns_null_def returns_tree_def by auto

lemma member_result:
  assumes sim: "simulates pvm pv" and con: "consumes pv"
    and h: "holds m (blocks 0 (TObject a ob ns vs nr vr ms) @ bs) h" and ok: "tree_ok (TObject a ob ns vs nr vr ms)"
    and fuel: "parse_member pv (members_of ms) s n \<noteq> NoFuel"
  obtains (failed) s' h' ns' vs' nr' vr' where "parse_member_m pvm ob s n h = Inr (False, s', h')"
      "tree_ok (TObject a ob ns' vs' nr' vr' ms)" "holds m (blocks 0 (TObject a ob ns' vs' nr' vr' ms) @ bs) h'"
      "parse_member pv (members_of ms) s n = Failed \<or> budget h' = 0" "budget h \<le> budget h' + 4 * length s"
    | (added) s' h' ns' vs' nr' vr' ms' where "parse_member_m pvm ob s n h = Inr (True, s', h')" "ms' \<noteq> []"
      "tree_ok (TObject a ob ns' vs' nr' vr' ms')" "holds m (blocks 0 (TObject a ob ns' vs' nr' vr' ms') @ bs) h'"
      "parse_member pv (members_of ms) s n = Parsed (members_of ms') s'" "length s' \<le> length s"
      "budget h + 4 * length s' \<le> budget h' + 4 * length s"
proof (cases rule: get_quoted_m_cases [OF h, of s])
  case (1 len s1 h1)
  then show thesis
    using ok by (intro failed [of s1 h1 ns vs nr vr]) (auto simp: parse_member_m_def parse_member_def returns_null_def)
next
  case (2 kc key r h1)
  note q = 2
  have kc: "chars_at kc h1 = Inr key" using holds_head [OF q(4)] by (simp add: at_defs)
  have r: "length r + 2 \<le> length s" by (rule q(6))
  from free_block [OF q(4)] obtain h2 where drop: "parson_free kc h1 = Inr h2"
    "holds m (blocks 0 (TObject a ob ns vs nr vr ms) @ bs) h2" "budget h2 = budget h1" by blast
  let ?r = "skip_whitespaces r"
  show thesis
  proof (cases "NUL \<in> set key \<or> peek ?r \<noteq> CHR '':''")
    case True
    have eq: "length key = length (c_chars key) \<longleftrightarrow> NUL \<notin> set key" using c_chars_length [of key] by metis
    obtain s' where m: "parse_member_m pvm ob s n h = Inr (False, s', h2)"
    proof (cases "NUL \<in> set key")
      case True
      then have "parse_member_m pvm ob s n h = Inr (False, r, h2)" by (simp add: parse_member_m_def q(1,2) kc eq drop(1))
      then show thesis by (rule that)
    next
      case False
      with True have "peek ?r \<noteq> CHR '':''" by simp
      then have "parse_member_m pvm ob s n h = Inr (False, ?r, h2)"
        using False by (simp add: parse_member_m_def q(1,2) kc drop(1))
      then show thesis by (rule that)
    qed
    moreover have "parse_member pv (members_of ms) s n = Failed" using True q by (auto simp: parse_member_def)
    moreover have "budget h \<le> budget h2 + 4 * length s" using drop(3) q(5) r by linarith
    ultimately show thesis using failed [OF m ok drop(2)] by simp
  next
    case False
    then have key: "NUL \<notin> set key" and colon: "peek ?r = CHR '':''" by auto
    have s2: "length (drop 1 ?r) < length r"
      using skip_whitespaces_length [of r] colon by (cases ?r) auto
    have pm: "parse_member_m pvm ob s n h =
        c_bind (pvm (drop 1 ?r) n h1) (\<lambda>(new_value, s, h).
                if new_value = 0 then c_bind (parson_free kc h) (\<lambda>h. Inr (False, s, h))
                else c_bind (json_object_add_m ob (Some key) new_value h) (\<lambda>(ok, h).
                  if \<not> ok then c_bind (parson_free kc h) (\<lambda>h.
                               c_bind (json_value_free new_value h) (\<lambda>h. Inr (False, s, h)))
                  else c_bind (parson_free kc h) (\<lambda>h. Inr (True, s, h))))"
      using q kc key colon by (simp add: parse_member_m_def)
    have pp: "parse_member pv (members_of ms) s n = (case pv (drop 1 ?r) n of NoFuel \<Rightarrow> NoFuel | Failed \<Rightarrow> Failed
        | Parsed v s \<Rightarrow> (case add_member (members_of ms) key v of None \<Rightarrow> Failed | Some ms \<Rightarrow> Parsed ms s))"
      using q key colon by (simp add: parse_member_def)
    have nf: "pv (drop 1 ?r) n \<noteq> NoFuel" using fuel pp by auto
    show thesis
    proof (cases rule: value_cases [OF sim q(4) nf])
      case (1 s' h3)
      from free_block [OF 1(2)] obtain h4 where "parson_free kc h3 = Inr h4"
        "holds m (blocks 0 (TObject a ob ns vs nr vr ms) @ bs) h4" "budget h4 = budget h3" by blast
      then show thesis
        using 1 ok q(5) r s2 by (intro failed [of s' h4 ns vs nr vr]) (auto simp: pm pp)
    next
      case (2 t s' h3)
      note v = 2
      have con': "length s' \<le> length (drop 1 ?r)" using con v(4) by (rule consumesD)
      have h3: "holds m (blocks 0 (TObject a ob ns vs nr vr ms) @ blocks 0 t @ (kc, CharsBlock key) # bs) h3"
        by (rule holds_perm [OF v(3)]) (simp add: ac_simps)
      show thesis
      proof (cases rule: addn_tree [OF h3 ok v(2) key])
        case (1 h4 ns' vs' nr' vr')
        have "holds m ((kc, CharsBlock key) # blocks 0 t @ blocks 0 (TObject a ob ns' vs' nr' vr' ms) @ bs) h4"
          by (rule holds_perm [OF 1(5)]) (simp add: ac_simps)
        from free_block [OF this] obtain h5 where h5: "parson_free kc h4 = Inr h5" "budget h5 = budget h4"
          "holds m (blocks 0 t @ blocks 0 (TObject a ob ns' vs' nr' vr' ms) @ bs) h5" by blast
        from free_tree [OF h5(3) v(2)] obtain h6 where h6: "json_value_free (root t) h5 = Inr h6"
          "holds m (blocks 0 (TObject a ob ns' vs' nr' vr' ms) @ bs) h6" "budget h6 = budget h5" by blast
        have "parse_member_m pvm ob s n h = Inr (False, s', h6)"
          using v(1) root_nonzero [OF v(2)] 1(1) h5(1) h6(1) by (simp add: pm json_object_add_m_def)
        moreover have "parse_member pv (members_of ms) s n = Failed \<or> budget h6 = 0"
          using 1(2) v(4) h5(2) h6(3) add_member_of [of ms key t 0] by (auto simp: pp)
        ultimately show thesis
          using 1(3,4) h5(2) h6(2,3) v(5) con' q(5) r s2 by (intro failed [of s' h6 ns' vs' nr' vr']) auto
      next
        case (2 h4 ns' vs' nr' vr' c)
        have "holds m ((kc, CharsBlock key) # blocks 0 (TObject a ob ns' vs' nr' vr' (ms @ [(c, key, t)])) @ bs) h4"
          by (rule holds_perm [OF 2(5)]) simp
        from free_block [OF this] obtain h5 where h5: "parson_free kc h4 = Inr h5" "budget h5 = budget h4"
          "holds m (blocks 0 (TObject a ob ns' vs' nr' vr' (ms @ [(c, key, t)])) @ bs) h5" by blast
        have "parse_member_m pvm ob s n h = Inr (True, s', h5)"
          using v(1) root_nonzero [OF v(2)] 2(1) h5(1) by (simp add: pm json_object_add_m_def)
        moreover have "parse_member pv (members_of ms) s n = Parsed (members_of (ms @ [(c, key, t)])) s'"
          using 2(2) v(4) by (simp add: pp add_member_of [where c = c])
        ultimately show thesis
          using 2(3,4) h5(2,3) v(5) con' q(5) r s2
          by (intro added [of s' h5 "ms @ [(c, key, t)]" ns' vs' nr' vr']) auto
      qed
    qed
  qed
qed

lemma result_mono:
  "result_of m bs res s1 h1 j1 k1 r \<Longrightarrow> budget h + 4 * length s1 + j1 \<le> budget h1 + 4 * length s + j2 \<Longrightarrow>
   budget h + 4 * length s1 + k1 \<le> budget h1 + 4 * length s + k2 \<Longrightarrow> result_of m bs res s h j2 k2 r"
  by (auto simp: result_of_def returns_null_def returns_tree_def)

text \<open>A parser that fails after it has allocated frees the value it was building.\<close>

lemma failed_eq:
  assumes "holds m (blocks 0 t @ bs) h" "tree_ok t" "res = Failed \<or> budget h = 0" "budget h0 \<le> budget h + 4 * length s + j"
  shows "\<exists>r. parse_failed (root t) h = Inr r \<and> result_of m bs res s h0 j k r"
  using parse_failed_eq [OF assms(1,2)] assms(3,4) by (auto simp: result_of_def returns_null_def)

lemma value_of_object: "value_of (TObject a ob ns vs nr vr ms) = VObject (members_of ms)"
  by (simp add: members_of_def)

lemma members_result:
  assumes sim: "simulates pvm pv" and con: "consumes pv"
  shows "holds m (blocks 0 (TObject a ob ns vs nr vr ms) @ bs) h \<Longrightarrow> tree_ok (TObject a ob ns vs nr vr ms) \<Longrightarrow>
    parse_members pv f (members_of ms) s n \<noteq> NoFuel \<Longrightarrow>
    \<exists>r. parse_members_m pvm f a ob s n h = Inr r \<and> result_of m bs (parse_members pv f (members_of ms) s n) s h 2 0 r"
proof (induction f arbitrary: ns vs nr vr ms s h)
  case (Suc f)
  note h = Suc.prems(1) and ok = Suc.prems(2)
  show ?case
  proof (cases "s = []")
    case True
    then have "s \<noteq> [] \<Longrightarrow> ms \<noteq> []" by simp
    from object_end_result [OF h ok this, unfolded value_of_object] obtain r where "parse_object_end a ob s h = Inr r"
      "result_of m bs (parse_end CHR ''}'' (VObject (members_of ms)) s) s h 0 0 r" by blast
    with True show ?thesis by (auto elim: result_mono)
  next
    case False
    have p: "parse_members pv (Suc f) (members_of ms) s n = (case parse_member pv (members_of ms) s n of
        NoFuel \<Rightarrow> NoFuel | Failed \<Rightarrow> Failed
      | Parsed ms s \<Rightarrow> let s = skip_whitespaces s
            in if peek s \<noteq> CHR '','' then parse_end CHR ''}'' (VObject ms) s
               else parse_members pv f ms (skip_whitespaces (drop 1 s)) n)"
      using False by (simp only: parse_members_Suc if_False)
    have nf: "parse_member pv (members_of ms) s n \<noteq> NoFuel" using Suc.prems(3) p by auto
    show ?thesis
    proof (cases rule: member_result [OF sim con h ok nf])
      case (1 s' h1 ns' vs' nr' vr')
      have "parse_members pv (Suc f) (members_of ms) s n = Failed \<or> budget h1 = 0" using 1(4) p by auto
      moreover have "budget h \<le> budget h1 + 4 * length s + 2" using 1(5) by simp
      ultimately obtain r where "parse_failed a h1 = Inr r"
        "result_of m bs (parse_members pv (Suc f) (members_of ms) s n) s h 2 0 r"
        using failed_eq [OF 1(3,2)] by (metis root.simps(5))
      with False 1(1) show ?thesis by simp
    next
      case (2 s' h1 ns' vs' nr' vr' ms')
      let ?s = "skip_whitespaces s'"
      show ?thesis
      proof (cases "peek ?s = CHR '',''")
        case True
        let ?t = "skip_whitespaces (drop 1 ?s)"
        have p': "parse_members pv (Suc f) (members_of ms) s n = parse_members pv f (members_of ms') ?t n"
          using True 2(5) p by simp
        have "parse_members pv f (members_of ms') ?t n \<noteq> NoFuel" using Suc.prems(3) p' by simp
        from Suc.IH [OF 2(4,3) this] obtain r where r: "parse_members_m pvm f a ob ?t n h1 = Inr r"
          "result_of m bs (parse_members pv f (members_of ms') ?t n) ?t h1 2 0 r" by blast
        have "length ?t < length s'" using True by (intro skip_drop_less [of s' "CHR '',''"]) simp_all
        with 2(7) have "budget h + 4 * length ?t + 2 \<le> budget h1 + 4 * length s + 2"
          "budget h + 4 * length ?t + 0 \<le> budget h1 + 4 * length s + 0" by linarith+
        with r(2) have "result_of m bs (parse_members pv (Suc f) (members_of ms) s n) s h 2 0 r"
          unfolding p' by (rule result_mono)
        with r(1) True False 2(1) show ?thesis by simp
      next
        case sep: False
        have ne: "ms' \<noteq> []" by (rule 2(2))
        from object_end_result [OF 2(4,3) ne, of ?s, unfolded value_of_object] obtain r where r: "parse_object_end a ob ?s h1 = Inr r"
          "result_of m bs (parse_end CHR ''}'' (VObject (members_of ms')) ?s) ?s h1 0 0 r" by blast
        have p': "parse_members pv (Suc f) (members_of ms) s n = parse_end CHR ''}'' (VObject (members_of ms')) ?s"
          using sep 2(5) p by simp
        have "budget h + 4 * length ?s + 0 \<le> budget h1 + 4 * length s + 2"
          "budget h + 4 * length ?s + 0 \<le> budget h1 + 4 * length s + 0"
          using 2(7) skip_whitespaces_length [of s'] by linarith+
        with r(2) have "result_of m bs (parse_members pv (Suc f) (members_of ms) s n) s h 2 0 r"
          unfolding p' by (rule result_mono)
        with r(1) sep False 2(1) show ?thesis by simp
      qed
    qed
  qed
qed simp

lemma object_value_result:
  assumes sim: "simulates pvm pv" and con: "consumes pv" and h: "holds m bs h"
    and nf: "parse_object_value pv f s n \<noteq> NoFuel" and s: "s \<noteq> []"
  shows "\<exists>r. parse_object_value_m pvm f s n h = Inr r \<and> result_of m bs (parse_object_value pv f s n) s h 1 1 r"
proof -
  obtain a h1 where i: "json_value_init_object_m h = Inr (a, h1)" "budget h \<le> budget h1 + 2"
    "a = 0 \<and> holds m bs h1 \<and> budget h1 = 0 \<or>
     (\<exists>ob. a \<noteq> 0 \<and> ob \<noteq> 0 \<and> holds m (blocks 0 (TObject a ob 0 0 [] [] []) @ bs) h1)"
    using object_builds [OF h] by blast
  have len: "1 \<le> length s" using s by (cases s) auto
  from i(3) show ?thesis
  proof
    assume "a = 0 \<and> holds m bs h1 \<and> budget h1 = 0"
    with i len show ?thesis by (simp add: parse_object_value_m_def result_of_def returns_null_def)
  next
    assume "\<exists>ob. a \<noteq> 0 \<and> ob \<noteq> 0 \<and> holds m (blocks 0 (TObject a ob 0 0 [] [] []) @ bs) h1"
    then obtain ob where a: "a \<noteq> 0" "ob \<noteq> 0" and h1: "holds m (blocks 0 (TObject a ob 0 0 [] [] []) @ bs) h1" by blast
    have ok: "tree_ok (TObject a ob 0 0 [] [] [])" using a by simp
    have ob: "json_value_get_object_m a h1 = Inr ob"
    proof -
      have "mem h1 a = Some (ValueBlock \<lparr>parent = 0, payload = PObject ob\<rparr>)"
        by (rule holds_at(2) [OF h1]) (simp add: blocks_object)
      with a show ?thesis by (simp add: json_value_get_object_m_def at_defs)
    qed
    let ?s = "skip_whitespaces (drop 1 s)"
    have t: "length ?s + 1 \<le> length s" using skip_whitespaces_length [of "drop 1 s"] len by simp
    consider "peek s \<noteq> CHR ''{''" | "peek s = CHR ''{''" "peek ?s = CHR ''}''" | "peek s = CHR ''{''" "peek ?s \<noteq> CHR ''}''" by blast
    then show ?thesis
    proof cases
      case 1
      then have "parse_object_value pv f s n = Failed \<or> budget h1 = 0" by (simp add: parse_object_value_def)
      moreover have "budget h \<le> budget h1 + 4 * length s + 1" using i(2) len by linarith
      ultimately obtain r where "parse_failed a h1 = Inr r" "result_of m bs (parse_object_value pv f s n) s h 1 1 r"
        using failed_eq [OF h1 ok] by (metis root.simps(5))
      with 1 i(1) a show ?thesis by (simp add: parse_object_value_m_def)
    next
      case 2
      then have "returns_tree m bs (parse_object_value pv f s n) h (4 * length s + 1) a (drop 1 ?s) h1"
        unfolding returns_tree_def using h1 ok i(2) t
        by (intro exI [of _ "TObject a ob 0 0 [] [] []"]) (auto simp: parse_object_value_def)
      then have "result_of m bs (parse_object_value pv f s n) s h 1 1 (a, drop 1 ?s, h1)" by (rule result_tree)
      with 2 i(1) a ob show ?thesis by (simp add: parse_object_value_m_def)
    next
      case 3
      then have p: "parse_object_value pv f s n = parse_members pv f (members_of []) ?s n"
        by (simp add: parse_object_value_def members_of_def)
      have "parse_members pv f (members_of []) ?s n \<noteq> NoFuel" using nf p by simp
      from members_result [OF sim con h1 ok this] obtain r where r: "parse_members_m pvm f a ob ?s n h1 = Inr r"
        "result_of m bs (parse_members pv f (members_of []) ?s n) ?s h1 2 0 r" by blast
      have "budget h + 4 * length ?s + 2 \<le> budget h1 + 4 * length s + 1"
        "budget h + 4 * length ?s + 0 \<le> budget h1 + 4 * length s + 1" using i(2) t by linarith+
      with r(2) have "result_of m bs (parse_object_value pv f s n) s h 1 1 r" unfolding p by (rule result_mono)
      with 3 r(1) i(1) a ob show ?thesis by (simp add: parse_object_value_m_def)
    qed
  qed
qed

section \<open>Arrays\<close>

lemma array_end_result:
  assumes h: "holds m (blocks 0 (TArray a ar its r0 ts) @ bs) h" and ok: "tree_ok (TArray a ar its r0 ts)"
    and ne: "s \<noteq> [] \<Longrightarrow> ts \<noteq> []"
  shows "\<exists>r. parse_array_end a ar s h = Inr r \<and>
    result_of m bs (parse_end CHR '']'' (VArray (map value_of ts)) s) s h 0 0 r"
proof (cases "peek (skip_whitespaces s) = CHR '']''")
  case False
  then have "parse_end CHR '']'' (VArray (map value_of ts)) s = Failed \<or> budget h = 0" by (simp add: parse_end_def Let_def)
  moreover have "budget h \<le> budget h + 4 * length s + 0" by simp
  ultimately obtain r where "parse_failed a h = Inr r"
    "result_of m bs (parse_end CHR '']'' (VArray (map value_of ts)) s) s h 0 0 r"
    using failed_eq [OF h ok] by (metis root.simps(6))
  with False show ?thesis by (simp add: parse_array_end_def Let_def)
next
  case True
  have s: "s \<noteq> []" using True by (auto simp: skip_whitespaces_def)
  with ne have n: "length ts \<le> length ts" "length ts \<noteq> 0" by simp_all
  have s1: "length (drop 1 (skip_whitespaces s)) < length s"
    using skip_whitespaces_length [of s] True by (cases "skip_whitespaces s") auto
  have c: "json_array_get_count_m ar h = Inr (length ts)"
    using array_at_tree [OF h] by (simp add: json_array_get_count_m_def)
  let ?p = "parse_end CHR '']'' (VArray (map value_of ts)) s"
  show ?thesis
  proof (cases rule: array_resize_tree [OF h ok n])
    case 1
    have "budget h \<le> budget h + 4 * length s + 0" by simp
    with 1(2) obtain r where "parse_failed a h = Inr r" "result_of m bs ?p s h 0 0 r"
      using failed_eq [OF h ok] by (metis root.simps(6))
    with True c 1 show ?thesis by (simp add: parse_array_end_def Let_def)
  next
    case (2 h1 its')
    have "returns_tree m bs ?p h (4 * length s) a (drop 1 (skip_whitespaces s)) h1"
      unfolding returns_tree_def using 2 True s1
      by (intro exI [of _ "TArray a ar its' (replicate (length ts - length ts) None) ts"]) (auto simp: parse_end_def)
    then have "result_of m bs ?p s h 0 0 (a, drop 1 (skip_whitespaces s), h1)" by (intro result_tree) simp
    with True c 2 show ?thesis by (simp add: parse_array_end_def Let_def)
  qed
qed

lemma parse_items_Suc:
  "s \<noteq> [] \<Longrightarrow> parse_items pv (Suc f) xs s n = (case pv s n of NoFuel \<Rightarrow> NoFuel | Failed \<Rightarrow> Failed
      | Parsed v s \<Rightarrow> let s = skip_whitespaces s
          in if peek s \<noteq> CHR '','' then parse_end CHR '']'' (VArray (xs @ [v])) s
             else parse_items pv f (xs @ [v]) (skip_whitespaces (drop 1 s)) n)"
  by simp

lemma items_result:
  assumes sim: "simulates pvm pv" and con: "consumes pv"
  shows "holds m (blocks 0 (TArray a ar its r0 ts) @ bs) h \<Longrightarrow> tree_ok (TArray a ar its r0 ts) \<Longrightarrow>
    parse_items pv f (map value_of ts) s n \<noteq> NoFuel \<Longrightarrow>
    \<exists>r. parse_items_m pvm f a ar s n h = Inr r \<and> result_of m bs (parse_items pv f (map value_of ts) s n) s h 2 2 r"
proof (induction f arbitrary: its r0 ts s h)
  case (Suc f)
  note h = Suc.prems(1) and ok = Suc.prems(2)
  let ?p = "parse_items pv (Suc f) (map value_of ts) s n"
  show ?case
  proof (cases "s = []")
    case True
    then have "s \<noteq> [] \<Longrightarrow> ts \<noteq> []" by simp
    from array_end_result [OF h ok this] obtain r where "parse_array_end a ar s h = Inr r"
      "result_of m bs (parse_end CHR '']'' (VArray (map value_of ts)) s) s h 0 0 r" by blast
    with True show ?thesis by (auto elim: result_mono)
  next
    case False
    note p = parse_items_Suc [OF False, of pv f "map value_of ts" n]
    have nf: "pv s n \<noteq> NoFuel" using Suc.prems(3) p by auto
    show ?thesis
    proof (cases rule: value_cases [OF sim h nf])
      case (1 s' h1)
      then have "?p = Failed \<or> budget h1 = 0" using p by auto
      moreover have "budget h \<le> budget h1 + 4 * length s + 2" using 1(4) by simp
      ultimately obtain r where "parse_failed a h1 = Inr r" "result_of m bs ?p s h 2 2 r"
        using failed_eq [OF 1(2) ok] by (metis root.simps(6))
      with False 1(1) show ?thesis by simp
    next
      case (2 t s' h1)
      note v = 2
      have t: "root t \<noteq> 0" using v(2) by (rule root_nonzero)
      have con': "length s' \<le> length s" using con v(4) by (rule consumesD)
      have len: "1 \<le> length s" using False by (cases s) auto
      have h1: "holds m (blocks 0 (TArray a ar its r0 ts) @ blocks 0 t @ bs) h1"
        by (rule holds_perm [OF v(3)]) (simp add: ac_simps)
      show ?thesis
      proof (cases rule: array_add_tree [OF h1 ok v(2)])
        case 1
        from free_tree [OF v(3,2)] obtain h2 where h2: "json_value_free (root t) h1 = Inr h2"
          "holds m (blocks 0 (TArray a ar its r0 ts) @ bs) h2" "budget h2 = budget h1" by blast
        have "?p = Failed \<or> budget h2 = 0" using 1(2) h2(3) by simp
        moreover have "budget h \<le> budget h2 + 4 * length s + 2" using v(5) h2(3) by linarith
        ultimately obtain r where "parse_failed a h2 = Inr r" "result_of m bs ?p s h 2 2 r"
          using failed_eq [OF h2(2) ok] by (metis root.simps(6))
        with False v(1) t 1(1) h2(1) show ?thesis by simp
      next
        case (2 h2 its' r')
        let ?s = "skip_whitespaces s'"
        have s: "length ?s \<le> length s'" by (rule skip_whitespaces_length)
        have val: "map value_of ts @ [value_of t] = map value_of (ts @ [t])" by simp
        show ?thesis
        proof (cases "peek ?s = CHR '',''")
          case True
          let ?t = "skip_whitespaces (drop 1 ?s)"
          have p': "?p = parse_items pv f (map value_of (ts @ [t])) ?t n"
            unfolding p using True v(4) by simp
          have "parse_items pv f (map value_of (ts @ [t])) ?t n \<noteq> NoFuel" using Suc.prems(3) unfolding p' .
          from Suc.IH [OF 2(4,3) this] obtain r where r: "parse_items_m pvm f a ar ?t n h2 = Inr r"
            "result_of m bs (parse_items pv f (map value_of (ts @ [t])) ?t n) ?t h2 2 2 r" by blast
          have "length ?t < length s'" using True by (intro skip_drop_less [of s' "CHR '',''"]) simp_all
          with 2(2) v(5) have "budget h + 4 * length ?t + 2 \<le> budget h2 + 4 * length s + 2"
            "budget h + 4 * length ?t + 2 \<le> budget h2 + 4 * length s + 2" by linarith+
          with r(2) have "result_of m bs ?p s h 2 2 r" unfolding p' by (rule result_mono)
          with r(1) True False v(1) t 2(1) show ?thesis by simp
        next
          case sep: False
          have ne: "ts @ [t] \<noteq> []" by simp
          have p': "?p = parse_end CHR '']'' (VArray (map value_of (ts @ [t]))) ?s"
            unfolding p using sep v(4) by simp
          from array_end_result [OF 2(4,3) ne, of ?s] obtain r where r: "parse_array_end a ar ?s h2 = Inr r"
            "result_of m bs (parse_end CHR '']'' (VArray (map value_of (ts @ [t]))) ?s) ?s h2 0 0 r" by blast
          have "budget h + 4 * length ?s + 0 \<le> budget h2 + 4 * length s + 2"
            "budget h + 4 * length ?s + 0 \<le> budget h2 + 4 * length s + 2" using 2(2) v(5) s by linarith+
          with r(2) have "result_of m bs ?p s h 2 2 r" unfolding p' by (rule result_mono)
          with r(1) sep False v(1) t 2(1) show ?thesis by simp
        qed
      qed
    qed
  qed
qed simp

lemma array_value_result:
  assumes sim: "simulates pvm pv" and con: "consumes pv" and h: "holds m bs h"
    and nf: "parse_array_value pv f s n \<noteq> NoFuel" and s: "s \<noteq> []"
  shows "\<exists>r. parse_array_value_m pvm f s n h = Inr r \<and> result_of m bs (parse_array_value pv f s n) s h 1 1 r"
proof -
  obtain a h1 where i: "json_value_init_array_m h = Inr (a, h1)" "budget h \<le> budget h1 + 2"
    "a = 0 \<and> holds m bs h1 \<and> budget h1 = 0 \<or>
     (\<exists>ar. a \<noteq> 0 \<and> ar \<noteq> 0 \<and> holds m (blocks 0 (TArray a ar 0 [] []) @ bs) h1)"
    using array_builds [OF h] by blast
  have len: "1 \<le> length s" using s by (cases s) auto
  let ?p = "parse_array_value pv f s n"
  from i(3) show ?thesis
  proof
    assume "a = 0 \<and> holds m bs h1 \<and> budget h1 = 0"
    with i len show ?thesis by (simp add: parse_array_value_m_def result_of_def returns_null_def)
  next
    assume "\<exists>ar. a \<noteq> 0 \<and> ar \<noteq> 0 \<and> holds m (blocks 0 (TArray a ar 0 [] []) @ bs) h1"
    then obtain ar where a: "a \<noteq> 0" "ar \<noteq> 0" and h1: "holds m (blocks 0 (TArray a ar 0 [] []) @ bs) h1" by blast
    have ok: "tree_ok (TArray a ar 0 [] [])" using a by simp
    have ar: "json_value_get_array_m a h1 = Inr ar"
    proof -
      have "mem h1 a = Some (ValueBlock \<lparr>parent = 0, payload = PArray ar\<rparr>)"
        by (rule holds_at(2) [OF h1]) (simp add: blocks_array)
      with a show ?thesis by (simp add: json_value_get_array_m_def at_defs)
    qed
    let ?s = "skip_whitespaces (drop 1 s)"
    have t: "length ?s + 1 \<le> length s" using skip_whitespaces_length [of "drop 1 s"] len by simp
    consider "peek s \<noteq> CHR ''[''" | "peek s = CHR ''[''" "peek ?s = CHR '']''" | "peek s = CHR ''[''" "peek ?s \<noteq> CHR '']''" by blast
    then show ?thesis
    proof cases
      case 1
      then have "?p = Failed \<or> budget h1 = 0" by (simp add: parse_array_value_def)
      moreover have "budget h \<le> budget h1 + 4 * length s + 1" using i(2) len by linarith
      ultimately obtain r where "parse_failed a h1 = Inr r" "result_of m bs ?p s h 1 1 r"
        using failed_eq [OF h1 ok] by (metis root.simps(6))
      with 1 i(1) a show ?thesis by (simp add: parse_array_value_m_def)
    next
      case 2
      then have "returns_tree m bs ?p h (4 * length s + 1) a (drop 1 ?s) h1"
        unfolding returns_tree_def using h1 ok i(2) t
        by (intro exI [of _ "TArray a ar 0 [] []"]) (auto simp: parse_array_value_def)
      then have "result_of m bs ?p s h 1 1 (a, drop 1 ?s, h1)" by (rule result_tree)
      with 2 i(1) a ar show ?thesis by (simp add: parse_array_value_m_def)
    next
      case 3
      then have p: "?p = parse_items pv f (map value_of []) ?s n" by (simp add: parse_array_value_def)
      have "parse_items pv f (map value_of []) ?s n \<noteq> NoFuel" using nf p by simp
      from items_result [OF sim con h1 ok this] obtain r where r: "parse_items_m pvm f a ar ?s n h1 = Inr r"
        "result_of m bs (parse_items pv f (map value_of []) ?s n) ?s h1 2 2 r" by blast
      have "budget h + 4 * length ?s + 2 \<le> budget h1 + 4 * length s + 1"
        "budget h + 4 * length ?s + 2 \<le> budget h1 + 4 * length s + 1" using i(2) t by linarith+
      with r(2) have "result_of m bs ?p s h 1 1 r" unfolding p by (rule result_mono)
      with 3 r(1) i(1) a ar show ?thesis by (simp add: parse_array_value_m_def)
    qed
  qed
qed

section \<open>Values\<close>

lemma parse_value_simulates: "simulates (parse_value_m L f) (parse_value L f)"
proof (induction f)
  case 0
  then show ?case by (simp add: simulates_def)
next
  case (Suc f)
  show ?case
    unfolding simulates_def
  proof (intro allI impI)
    fix m :: "jaddr \<Rightarrow> 'a block option" and bs s n h
    assume h: "holds m bs h" and nf: "parse_value L (Suc f) s n \<noteq> NoFuel"
    let ?s = "skip_whitespaces s"
    have s: "length ?s \<le> length s" by (rule skip_whitespaces_length)
    have lift: "result_of m bs res s h 1 1 r" if "result_of m bs res ?s h 1 1 r" for res r
      using that by (rule result_mono) (use s in simp_all)
    have con: "consumes (parse_value L f)" by (rule parse_value_consumes)
    have ne: "?s \<noteq> []" if "peek ?s = c" "c \<noteq> NUL" for c using that by (rule peek_nonempty)
    consider "n > MAX_NESTING" | "n \<le> MAX_NESTING" "peek ?s = CHR ''{''" | "n \<le> MAX_NESTING" "peek ?s = CHR ''[''"
      | "n \<le> MAX_NESTING" "peek ?s \<noteq> CHR ''{''" "peek ?s \<noteq> CHR ''[''" by linarith
    then show "\<exists>r. parse_value_m L (Suc f) s n h = Inr r \<and> result_of m bs (parse_value L (Suc f) s n) s h 1 1 r"
    proof cases
      case 1
      with failed_result [OF h] show ?thesis by auto
    next
      case 2
      with nf have "parse_object_value (parse_value L f) f ?s (n + 1) \<noteq> NoFuel" by simp
      from object_value_result [OF Suc con h this] ne [OF 2(2)] lift 2 show ?thesis by auto
    next
      case 3
      with nf have "parse_array_value (parse_value L f) f ?s (n + 1) \<noteq> NoFuel" by simp
      from array_value_result [OF Suc con h this] ne [OF 3(2)] lift 3 show ?thesis by auto
    next
      case 4
      have "\<exists>r. parse_value_m L (Suc f) s n h = Inr r \<and> result_of m bs (parse_value L (Suc f) s n) ?s h 1 1 r"
        using 4 string_value_result [OF h, of ?s] boolean_value_result [OF h, of ?s] number_value_result [OF h, of L ?s]
          null_value_result [OF h, of ?s] failed_result [OF h, of ?s ?s]
        by (simp add: Let_def del: split_paired_Ex)
      with lift show ?thesis by blast
    qed
  qed
qed

lemma json_parse_string_result:
  assumes "heap_ok h"
  shows "\<exists>a h'. json_parse_string_m L str h = Inr (a, h') \<and>
    (a = 0 \<and> heap_ok h' \<and> mem h' = mem h \<and> (json_parse_string L str = Failed \<or> budget h' = 0) \<or>
     (\<exists>t s'. a = root t \<and> tree_ok t \<and> holds (mem h) (blocks 0 t) h' \<and> json_parse_string L str = Parsed (value_of t) s')) \<and>
    budget h \<le> budget h' + 4 * (case str of None \<Rightarrow> 0 | Some s \<Rightarrow> length s) + 1"
proof (cases str)
  case None
  with assms show ?thesis by (simp add: json_parse_string_m_def json_parse_string_def)
next
  case (Some s)
  define s0 where "s0 = (if char_at s 0 = CHR 0xEF \<and> char_at s 1 = CHR 0xBB \<and> char_at s 2 = CHR 0xBF then drop 3 s else s)"
  let ?p = "parse_value L (fuel_for s0) s0 0"
  have p: "json_parse_string L (Some s) = ?p" by (simp add: json_parse_string_def s0_def Let_def)
  have nf: "?p \<noteq> NoFuel" using json_parse_string_terminates [of L "Some s"] p by simp
  have h: "holds (mem h) [] h" using assms by (simp add: holds_Nil)
  from simulatesD [OF parse_value_simulates h nf] obtain a s' h' where
    r: "parse_value_m L (fuel_for s0) s0 0 h = Inr (a, s', h')" "result_of (mem h) [] ?p s0 h 1 1 (a, s', h')" by auto
  have m: "json_parse_string_m L (Some s) h = Inr (a, h')"
    using r(1) by (simp add: json_parse_string_m_def s0_def Let_def)
  have "length s0 \<le> length s" by (simp add: s0_def)
  with r(2) show ?thesis
    unfolding Some m p result_of_def returns_null_def returns_tree_def by (auto simp: holds_Nil)
qed

end
