(* ===== verification/JsonHeapOps.thy ===== *)
theory JsonHeapOps
  imports JsonHeapParse "HOL-Library.AList"
begin

text \<open>
  Setting and removing the members of an object and the items of an array of \<^verbatim>\<open>Tema_3/parson.c\<close> on the heap: what
  is replaced or removed is freed, what is stored gets its parent, and a refused allocation leaves the value to
  the caller.
\<close>

section \<open>Objects\<close>

definition json_object_get_value_m :: "jaddr \<Rightarrow> string option \<Rightarrow> 'n jheap \<Rightarrow> jaddr c_result" where
  "json_object_get_value_m a name h =
     (case name of None \<Rightarrow> Inr 0 | Some name \<Rightarrow> if a = 0 then Inr 0 else json_object_getn_value_m a name h)"

text \<open>The loop that compares whole names, as the setter and the removal have it.\<close>

fun find_index_m :: "jobject \<Rightarrow> string \<Rightarrow> nat \<Rightarrow> nat \<Rightarrow> 'n jheap \<Rightarrow> nat option c_result" where
  "find_index_m ob name i 0 h = Inr None"
| "find_index_m ob name i (Suc k) h =
     c_bind (slot_at (obj_names ob) i h) (\<lambda>c.
     c_bind (chars_at c h) (\<lambda>s. if c_chars s = name then Inr (Some i) else find_index_m ob name (Suc i) k h))"

definition json_object_set_value_m :: "jaddr \<Rightarrow> string option \<Rightarrow> jaddr \<Rightarrow> 'n jheap \<Rightarrow> (bool \<times> 'n jheap) c_result" where
  "json_object_set_value_m a name v h =
     (case name of None \<Rightarrow> Inr (False, h)
      | Some key \<Rightarrow>
          if a = 0 \<or> v = 0 then Inr (False, h)
          else c_bind (json_value_get_parent v h) (\<lambda>p.
            if p \<noteq> 0 then Inr (False, h)
            else c_bind (json_object_get_value_m a name h) (\<lambda>old_value.
              if old_value = 0 then json_object_add_m a name v h
              else c_bind (json_value_free old_value h) (\<lambda>h.
                   c_bind (object_at a h) (\<lambda>ob.
                   c_bind (find_index_m ob key 0 (obj_count ob) h) (\<lambda>i.
                     case i of None \<Rightarrow> json_object_add_m a name v h
                     | Some i \<Rightarrow>
                         c_bind (json_object_get_wrapping_value a h) (\<lambda>w.
                         c_bind (set_parent v w h) (\<lambda>h.
                         c_bind (set_slot (obj_values ob) i v h) (\<lambda>h. Inr (True, h))))))))))"

text \<open>The setters that build their value free it when it was not stored.\<close>

definition set_new_m :: "jaddr \<Rightarrow> string option \<Rightarrow> jaddr \<times> 'n jheap \<Rightarrow> (bool \<times> 'n jheap) c_result" where
  "set_new_m a name = (\<lambda>(v, h).
     c_bind (json_object_set_value_m a name v h) (\<lambda>(ok, h).
       if ok then Inr (True, h) else c_bind (json_value_free v h) (\<lambda>h. Inr (False, h))))"

definition json_object_set_string_m :: "jaddr \<Rightarrow> string option \<Rightarrow> string option \<Rightarrow> 'n jheap \<Rightarrow> (bool \<times> 'n jheap) c_result" where
  "json_object_set_string_m a name str h = c_bind (json_value_init_string_m str h) (set_new_m a name)"

definition json_object_set_number_m :: "'n numlib \<Rightarrow> jaddr \<Rightarrow> string option \<Rightarrow> 'n \<Rightarrow> 'n jheap \<Rightarrow> (bool \<times> 'n jheap) c_result" where
  "json_object_set_number_m L a name x h = set_new_m a name (json_value_init_number_m L x h)"

definition json_object_set_boolean_m :: "jaddr \<Rightarrow> string option \<Rightarrow> int \<Rightarrow> 'n jheap \<Rightarrow> (bool \<times> 'n jheap) c_result" where
  "json_object_set_boolean_m a name b h = set_new_m a name (json_value_init_boolean_m b h)"

definition json_object_set_null_m :: "jaddr \<Rightarrow> string option \<Rightarrow> 'n jheap \<Rightarrow> (bool \<times> 'n jheap) c_result" where
  "json_object_set_null_m a name h = set_new_m a name (json_value_init_null_m h)"

text \<open>The slot of the removed member takes the last one.\<close>

definition json_object_remove_internal_m :: "jaddr \<Rightarrow> string \<Rightarrow> bool \<Rightarrow> 'n jheap \<Rightarrow> (bool \<times> 'n jheap) c_result" where
  "json_object_remove_internal_m a name freeing h =
     (if a = 0 then Inr (False, h)
      else c_bind (json_object_get_value_m a (Some name) h) (\<lambda>old.
        if old = 0 then Inr (False, h)
        else c_bind (object_at a h) (\<lambda>ob.
             let last_item_index = obj_count ob - 1
             in c_bind (find_index_m ob name 0 (obj_count ob) h) (\<lambda>i.
                  case i of None \<Rightarrow> Inr (False, h)
                  | Some i \<Rightarrow>
                      c_bind (slot_at (obj_names ob) i h) (\<lambda>n.
                      c_bind (parson_free n h) (\<lambda>h.
                      c_bind (if freeing then c_bind (slot_at (obj_values ob) i h) (\<lambda>v. json_value_free v h) else Inr h) (\<lambda>h.
                      c_bind (if i \<noteq> last_item_index
                              then c_bind (slot_at (obj_names ob) last_item_index h) (\<lambda>n.
                                   c_bind (set_slot (obj_names ob) i n h) (\<lambda>h.
                                   c_bind (slot_at (obj_values ob) last_item_index h) (\<lambda>v.
                                     set_slot (obj_values ob) i v h)))
                              else Inr h) (\<lambda>h.
                        Inr (True, store_block a (ObjectBlock (ob\<lparr>obj_count := obj_count ob - 1\<rparr>)) h)))))))))"

definition json_object_remove_m :: "jaddr \<Rightarrow> string \<Rightarrow> 'n jheap \<Rightarrow> (bool \<times> 'n jheap) c_result" where
  "json_object_remove_m a name h = json_object_remove_internal_m a name True h"

text \<open>A dotted name: up to the first dot, and what stands behind it.\<close>

definition before_dot :: "string \<Rightarrow> string" where
  "before_dot name = takeWhile (\<lambda>c. c \<noteq> CHR ''.'') name"

definition after_dot :: "string \<Rightarrow> string" where
  "after_dot name = drop 1 (dropWhile (\<lambda>c. c \<noteq> CHR ''.'') name)"

lemma after_dot_less: "CHR ''.'' \<in> set name \<Longrightarrow> length (after_dot name) < length name"
  unfolding after_dot_def by (induction name) auto

function json_object_dotremove_internal_m :: "jaddr \<Rightarrow> string \<Rightarrow> bool \<Rightarrow> 'n jheap \<Rightarrow> (bool \<times> 'n jheap) c_result" where
  "json_object_dotremove_internal_m a name freeing h =
     (if CHR ''.'' \<notin> set name then json_object_remove_internal_m a name freeing h
      else c_bind (json_object_getn_value_m a (before_dot name) h) (\<lambda>temp_value.
        if temp_value = 0 then Inr (False, h)
        else c_bind (value_at temp_value h) (\<lambda>w. case payload w of
            PObject ob \<Rightarrow> json_object_dotremove_internal_m ob (after_dot name) freeing h
          | _ \<Rightarrow> Inr (False, h))))"
  by pat_completeness auto
termination by (relation "measure (\<lambda>(a, name, freeing, h). length name)") (auto simp: after_dot_less)

text \<open>
  A path that is not there is built in a new object, which is added last; when that fails, the value is taken
  out of the new object again.
\<close>

function json_object_dotset_value_m :: "jaddr \<Rightarrow> string \<Rightarrow> jaddr \<Rightarrow> 'n jheap \<Rightarrow> (bool \<times> 'n jheap) c_result" where
  "json_object_dotset_value_m a name v h =
     (if a = 0 \<or> v = 0 then Inr (False, h)
      else if CHR ''.'' \<notin> set name then json_object_set_value_m a (Some name) v h
      else c_bind (json_object_getn_value_m a (before_dot name) h) (\<lambda>temp_value.
        if temp_value \<noteq> 0
        then c_bind (value_at temp_value h) (\<lambda>w. case payload w of
            PObject ob \<Rightarrow> json_object_dotset_value_m ob (after_dot name) v h
          | _ \<Rightarrow> Inr (False, h))
        else c_bind (json_value_init_object_m h) (\<lambda>(new_value, h).
          if new_value = 0 then Inr (False, h)
          else c_bind (json_value_get_object_m new_value h) (\<lambda>new_object.
               c_bind (json_object_dotset_value_m new_object (after_dot name) v h) (\<lambda>(ok, h).
                 if \<not> ok then c_bind (json_value_free new_value h) (\<lambda>h. Inr (False, h))
                 else c_bind (json_object_addn_m a (before_dot name) new_value h) (\<lambda>(ok, h).
                   if ok then Inr (True, h)
                   else c_bind (json_object_dotremove_internal_m new_object (after_dot name) False h) (\<lambda>(ok, h).
                        c_bind (json_value_free new_value h) (\<lambda>h. Inr (False, h)))))))))"
  by pat_completeness auto
termination by (relation "measure (\<lambda>(a, name, v, h). length name)") (auto simp: after_dot_less)

declare json_object_dotremove_internal_m.simps [simp del] json_object_dotset_value_m.simps [simp del]

definition json_object_dotremove_m :: "jaddr \<Rightarrow> string \<Rightarrow> 'n jheap \<Rightarrow> (bool \<times> 'n jheap) c_result" where
  "json_object_dotremove_m a name h = json_object_dotremove_internal_m a name True h"

definition json_object_clear_m :: "jaddr \<Rightarrow> 'n jheap \<Rightarrow> (bool \<times> 'n jheap) c_result" where
  "json_object_clear_m a h =
     (if a = 0 then Inr (False, h)
      else c_bind (object_at a h) (\<lambda>ob.
           c_bind (free_members json_value_free ob 0 (obj_count ob) h) (\<lambda>h.
             Inr (True, store_block a (ObjectBlock (ob\<lparr>obj_count := 0\<rparr>)) h))))"

section \<open>The specification of the setter\<close>

lemma find_index_eq:
  assumes "holds m bs h" "(obj_names ob, SlotsBlock (map Some (map fst (pre @ mid @ (c, name, t) # post)) @ nr)) \<in> set bs"
    "\<forall>(c, k, t) \<in> set (mid @ [(c, name, t)]). (c, CharsBlock k) \<in> set bs \<and> NUL \<notin> set k"
    "name \<notin> (\<lambda>x. fst (snd x)) ` set mid"
  shows "find_index_m ob name (length pre) (length mid + Suc (length post)) h = Inr (Some (length pre + length mid))"
  using assms(2-4)
proof (induction mid arbitrary: pre)
  case Nil
  have "slot_at (obj_names ob) (length pre) h = Inr c"
    using slot_at_eq [OF holds_at [OF assms(1) Nil(1)], of "length pre"] by (simp add: nth_append)
  moreover have "(c, CharsBlock name) \<in> set bs" using Nil(2) by simp
  then have "chars_at c h = Inr name" using holds_at [OF assms(1)] by (simp add: at_defs)
  ultimately show ?case using Nil(2) by simp
next
  case (Cons x mid)
  obtain c' k' t' where x: "x = (c', k', t')" by (cases x)
  have "slot_at (obj_names ob) (length pre) h = Inr c'"
    using slot_at_eq [OF holds_at [OF assms(1) Cons.prems(1)], of "length pre"] by (simp add: nth_append x)
  moreover have k: "(c', CharsBlock k') \<in> set bs" "NUL \<notin> set k'" using Cons.prems(2) by (auto simp: x)
  then have "chars_at c' h = Inr k'" using holds_at [OF assms(1) k(1)] by (simp add: at_defs)
  moreover have "find_index_m ob name (length (pre @ [x])) (length mid + Suc (length post)) h =
      Inr (Some (length (pre @ [x]) + length mid))"
    by (rule Cons.IH) (use Cons.prems in auto)
  ultimately show ?case using Cons.prems(3) k(2) by (auto simp: x)
qed

text \<open>What a member of that name is: the lookup finds it, and the loop gives its index.\<close>

lemma split_member:
  assumes "name \<in> (\<lambda>x. fst (snd x)) ` set ms"
  obtains pre c t post where "ms = pre @ (c, name, t) # post" "name \<notin> (\<lambda>x. fst (snd x)) ` set pre"
proof -
  have "\<exists>x \<in> set ms. fst (snd x) = name" using assms by auto
  from split_list_first_prop [OF this]
  obtain ys x zs where "ms = ys @ x # zs" "fst (snd x) = name" "\<forall>y \<in> set ys. fst (snd y) \<noteq> name" by blast
  then show thesis by (intro that [of ys "fst x" "snd (snd x)" zs]) auto
qed

lemma getn_value_split:
  assumes "holds m (blocks p (TObject a ob ns vs nr vr (pre @ (c, name, t) # post)) @ bs) h"
    "tree_ok (TObject a ob ns vs nr vr (pre @ (c, name, t) # post))" "name \<notin> (\<lambda>x. fst (snd x)) ` set pre"
  shows "json_object_getn_value_m ob name h = Inr (root t)"
proof -
  have "map_of (map (\<lambda>(c, k, t). (k, root t)) pre) name = None"
    using assms(3) by (force simp: map_of_eq_None_iff)
  then show ?thesis by (simp add: getn_value_tree [OF assms(1,2)] map_add_def)
qed

lemma find_index_tree:
  assumes h: "holds m ((ns, SlotsBlock (map Some (map fst (pre @ (c, name, t) # post)) @ nr)) # member_blocks a pre @
      (c, CharsBlock name) # bs) h"
    and ok: "tree_ok (TObject a ob ns vs nr vr (pre @ (c, name, t) # post))" "name \<notin> (\<lambda>x. fst (snd x)) ` set pre"
    and ob: "obj_names o' = ns"
  shows "find_index_m o' name 0 (Suc (length pre + length post)) h = Inr (Some (length pre))"
proof -
  let ?bs = "(ns, SlotsBlock (map Some (map fst (pre @ (c, name, t) # post)) @ nr)) # member_blocks a pre @ (c, CharsBlock name) # bs"
  have 1: "(obj_names o', SlotsBlock (map Some (map fst ([] @ pre @ (c, name, t) # post)) @ nr)) \<in> set ?bs" using ob by simp
  have "(c', CharsBlock k') \<in> set ?bs \<and> NUL \<notin> set k'" if "(c', k', t') \<in> set (pre @ [(c, name, t)])" for c' k' t'
  proof -
    have "\<forall>(c, k, t) \<in> set (pre @ (c, name, t) # post). c \<noteq> 0 \<and> NUL \<notin> set k \<and> tree_ok t" using ok(1) by simp
    moreover have "(c', k', t') \<in> set (pre @ (c, name, t) # post)" using that by auto
    ultimately have "NUL \<notin> set k'" by blast
    with that show ?thesis using member_chars [of c' k' t' pre a] by auto
  qed
  then have 2: "\<forall>(c, k, t) \<in> set (pre @ [(c, name, t)]). (c, CharsBlock k) \<in> set ?bs \<and> NUL \<notin> set k" by blast
  from find_index_eq [OF h 1 2 ok(2)]
  show ?thesis by simp
qed

lemma update_new: "k \<notin> fst ` set xs \<Longrightarrow> AList.update k v xs = xs @ [(k, v)]"
  by (induction xs) auto

lemma update_old: "k \<notin> fst ` set xs \<Longrightarrow> AList.update k v (xs @ (k, w) # r) = xs @ (k, v) # r"
  by (induction xs) auto

text \<open>
  A value without parent is stored: under a name that is there it takes the place of the old value, which is
  freed; else it is a new member, unless an allocation is refused.
\<close>

lemma set_value_tree:
  assumes h: "holds m (blocks p (TObject a ob ns vs nr vr ms) @ blocks 0 t @ bs) h" and ok: "tree_ok (TObject a ob ns vs nr vr ms)"
    "tree_ok t" "NUL \<notin> set name"
  obtains (refused) h' ns' vs' nr' vr' where "json_object_set_value_m ob (Some name) (root t) h = Inr (False, h')"
      "budget h' = 0" "budget h \<le> 3" "name \<notin> (\<lambda>x. fst (snd x)) ` set ms"
      "tree_ok (TObject a ob ns' vs' nr' vr' ms)" "holds m (blocks p (TObject a ob ns' vs' nr' vr' ms) @ blocks 0 t @ bs) h'"
    | (stored) h' ns' vs' nr' vr' ms' where "json_object_set_value_m ob (Some name) (root t) h = Inr (True, h')"
      "tree_ok (TObject a ob ns' vs' nr' vr' ms')" "holds m (blocks p (TObject a ob ns' vs' nr' vr' ms') @ bs) h'"
      "members_of ms' = AList.update name (value_of t) (members_of ms)" "budget h \<le> budget h' + 3"
proof -
  let ?T = "TObject a ob ns vs nr vr ms"
  have nz: "ob \<noteq> 0" "root t \<noteq> 0" using ok(1) root_nonzero [OF ok(2)] by simp_all
  have "holds m ((root t, ValueBlock \<lparr>parent = 0, payload = tree_payload t\<rparr>) # inner t @ blocks p ?T @ bs) h"
    by (rule holds_perm [OF h]) (simp add: blocks_root [of 0 t] ac_simps)
  from holds_head [OF this] have par: "json_value_get_parent (root t) h = Inr 0" by (simp add: json_value_get_parent_def at_defs)
  show thesis
  proof (cases "name \<in> (\<lambda>x. fst (snd x)) ` set ms")
    case False
    then have get: "json_object_getn_value_m ob name h = Inr 0"
      using getn_value_absent [OF ok(1), of name] by (simp add: getn_value_tree [OF h ok(1)])
    have set: "json_object_set_value_m ob (Some name) (root t) h = json_object_addn_m ob name (root t) h"
      using nz par get by (simp add: json_object_set_value_m_def json_object_get_value_m_def json_object_add_m_def)
    show thesis
    proof (cases rule: addn_tree [OF h ok])
      case (1 h' ns' vs' nr' vr')
      with False set show thesis by (intro refused [of h' ns' vs' nr' vr']) simp_all
    next
      case (2 h' ns' vs' nr' vr' c)
      have "name \<notin> fst ` set (members_of ms)" using False by (force simp: members_of_def)
      then have "AList.update name (value_of t) (members_of ms) = members_of ms @ [(name, value_of t)]" by (rule update_new)
      with 2 set show thesis by (intro stored [of h' ns' vs' nr' vr' "ms @ [(c, name, t)]"]) (simp_all add: members_of_def)
    qed
  next
    case True
    then obtain pre c t0 post where ms: "ms = pre @ (c, name, t0) # post" and pre: "name \<notin> (\<lambda>x. fst (snd x)) ` set pre"
      by (rule split_member)
    have sz: "ns \<noteq> 0" "vs \<noteq> 0" "tree_ok t0" using ok(1) by (auto simp: ms)
    let ?o = "\<lparr>obj_wrapping = a, obj_names = ns, obj_values = vs, obj_count = length ms, obj_capacity = length ms + length nr\<rparr>"
    let ?A = "(a, ValueBlock \<lparr>parent = p, payload = PObject ob\<rparr>)" and ?O = "(ob, ObjectBlock ?o)" and ?C = "(c, CharsBlock name)"
    let ?N = "(ns, SlotsBlock (map Some (map fst ms) @ nr))"
    let ?V = "map Some (map member_root pre) @ Some (root t0) # map Some (map member_root post) @ vr"
    let ?V' = "map Some (map member_root pre) @ Some (root t) # map Some (map member_root post) @ vr"
    let ?R = "member_blocks a pre @ ?C # member_blocks a post @ bs"
    have get: "json_object_getn_value_m ob name h = Inr (root t0)"
      using h ok(1) pre unfolding ms by (rule getn_value_split)
    have "holds m (blocks a t0 @ ?A # ?O # ?N # (vs, SlotsBlock ?V) # blocks 0 t @ ?R) h"
      by (rule holds_perm [OF h]) (simp add: blocks_object slots_block_def sz comp_def ms ac_simps)
    from free_tree [OF this sz(3)] obtain h1 where h1: "json_value_free (root t0) h = Inr h1" "budget h1 = budget h"
      "holds m (?A # ?O # ?N # (vs, SlotsBlock ?V) # blocks 0 t @ ?R) h1" by blast
    have "holds m (?O # ?A # ?N # (vs, SlotsBlock ?V) # blocks 0 t @ ?R) h1" by (rule holds_perm [OF h1(3)]) simp
    from holds_head [OF this] have o1: "object_at ob h1 = Inr ?o" by (simp add: at_defs)
    have h1': "holds m ((ns, SlotsBlock (map Some (map fst (pre @ (c, name, t0) # post)) @ nr)) # member_blocks a pre @ ?C #
        ?A # ?O # (vs, SlotsBlock ?V) # blocks 0 t @ member_blocks a post @ bs) h1"
      by (rule holds_perm [OF h1(3)]) (simp add: ms ac_simps)
    have ix: "find_index_m ?o name 0 (Suc (length pre + length post)) h1 = Inr (Some (length pre))"
      by (rule find_index_tree [OF h1' ok(1) [unfolded ms] pre]) simp
    have "holds m (blocks 0 t @ ?A # ?O # ?N # (vs, SlotsBlock ?V) # ?R) h1" by (rule holds_perm [OF h1(3)]) (simp add: ac_simps)
    from set_parent_eq [OF this, of a] obtain h2 where h2: "set_parent (root t) a h1 = Inr h2" "budget h2 = budget h1"
      "holds m (blocks a t @ ?A # ?O # ?N # (vs, SlotsBlock ?V) # ?R) h2" by blast
    have "holds m ((vs, SlotsBlock ?V) # ?A # ?O # ?N # blocks a t @ ?R) h2" by (rule holds_perm [OF h2(3)]) (simp add: ac_simps)
    from set_slot_eq [OF this, of "length pre" "root t"] obtain h3 where h3: "set_slot vs (length pre) (root t) h2 = Inr h3"
      "budget h3 = budget h2" "holds m ((vs, SlotsBlock ?V') # ?A # ?O # ?N # blocks a t @ ?R) h3" by auto
    let ?ms = "pre @ (c, name, t) # post"
    have "holds m (blocks p (TObject a ob ns vs nr vr ?ms) @ bs) h3"
      by (rule holds_perm [OF h3(3)]) (simp add: blocks_object slots_block_def sz comp_def ms ac_simps)
    moreover have "json_object_set_value_m ob (Some name) (root t) h = Inr (True, h3)"
      using nz par get root_nonzero [OF sz(3)] h1(1) o1 ix h2(1) h3(1)
      by (simp add: json_object_set_value_m_def json_object_get_value_m_def json_object_get_wrapping_value_def ms)
    moreover have "tree_ok (TObject a ob ns vs nr vr ?ms)" using ok(1,2) by (simp add: ms)
    moreover have "members_of ?ms = AList.update name (value_of t) (members_of ms)"
    proof -
      have "name \<notin> fst ` set (members_of pre)" using pre by (force simp: members_of_def)
      then have "AList.update name v (members_of pre @ (name, w) # r) = members_of pre @ (name, v) # r" for v w r by (rule update_old)
      then show ?thesis by (simp add: members_of_def ms)
    qed
    ultimately show thesis using h1(2) h2(2) h3(2) by (intro stored [of h3 ns vs nr vr ?ms]) simp_all
  qed
qed

section \<open>Setting what is built\<close>

lemma init_string_result:
  assumes "holds m bs h" "is_valid_utf8 s len" "len \<le> length s"
  shows "\<exists>v h'. json_value_init_string_with_len_m (Some s) len h = Inr (v, h') \<and> builds m bs h 2 v h' (VString (take len s))"
proof (cases rule: malloc_cases [OF assms(1), of "CharsBlock (take len s)"])
  case 1
  with assms show ?thesis by (simp add: json_value_init_string_with_len_m_def parson_strndup_def builds_def)
next
  case (2 c h1)
  note c = 2
  show ?thesis
  proof (cases rule: malloc_cases [OF c(3), of "ValueBlock \<lparr>parent = 0, payload = PString c len\<rparr>"])
    case 1
    from free_block [OF c(3)] obtain h2 where "parson_free c h1 = Inr h2" "holds m bs h2" "budget h2 = budget h1" by blast
    with 1 c assms(2) show ?thesis
      by (simp add: json_value_init_string_with_len_m_def parson_strndup_def json_value_init_string_no_copy_def new_value_def builds_def)
  next
    case (2 v h2)
    have "builds m bs h 2 v h2 (VString (take len s))"
      unfolding builds_def using 2 c assms(3) by (intro conjI disjI2 exI [of _ "TString v c (take len s)"]) auto
    with 2 c assms(2) show ?thesis
      by (simp add: json_value_init_string_with_len_m_def parson_strndup_def json_value_init_string_no_copy_def new_value_def)
  qed
qed

lemma set_value_null: "json_object_set_value_m a name 0 h = Inr (False, h)"
  by (simp add: json_object_set_value_m_def split: option.split)

lemma free_null: "heap_ok h \<Longrightarrow> json_value_free 0 h = Inr h"
  by (cases "next_addr h") (simp_all add: json_value_free_def heap_ok_def)

lemma set_new_tree:
  assumes b: "builds m (blocks p (TObject a ob ns vs nr vr ms) @ bs) h k v h1 x" and ok: "tree_ok (TObject a ob ns vs nr vr ms)"
    and name: "NUL \<notin> set name"
  obtains (refused) h' ns' vs' nr' vr' where "set_new_m ob (Some name) (v, h1) = Inr (False, h')" "budget h' = 0" "budget h \<le> k + 3"
      "tree_ok (TObject a ob ns' vs' nr' vr' ms)" "holds m (blocks p (TObject a ob ns' vs' nr' vr' ms) @ bs) h'"
    | (stored) h' ns' vs' nr' vr' ms' where "set_new_m ob (Some name) (v, h1) = Inr (True, h')"
      "tree_ok (TObject a ob ns' vs' nr' vr' ms')" "holds m (blocks p (TObject a ob ns' vs' nr' vr' ms') @ bs) h'"
      "members_of ms' = AList.update name x (members_of ms)" "budget h \<le> budget h' + k + 3"
proof (cases "v = 0")
  case True
  then have h1: "holds m (blocks p (TObject a ob ns vs nr vr ms) @ bs) h1" "budget h1 = 0"
    using b by (auto simp: builds_def)
  moreover have "budget h \<le> k" using b h1(2) by (simp add: builds_def)
  moreover have "heap_ok h1" using h1(1) by (simp add: holds_def)
  ultimately show thesis
    using ok True by (intro refused [of h1 ns vs nr vr]) (simp_all add: set_new_m_def set_value_null free_null)
next
  case False
  with b obtain t where t: "v = root t" "tree_ok t" "value_of t = x"
    "holds m (blocks 0 t @ blocks p (TObject a ob ns vs nr vr ms) @ bs) h1" by (auto simp: builds_def)
  have bd: "budget h \<le> budget h1 + k" using b by (simp add: builds_def)
  have h1: "holds m (blocks p (TObject a ob ns vs nr vr ms) @ blocks 0 t @ bs) h1" by (rule holds_perm [OF t(4)]) (simp add: ac_simps)
  show thesis
  proof (cases rule: set_value_tree [OF h1 ok t(2) name])
    case (1 h2 ns' vs' nr' vr')
    have "holds m (blocks 0 t @ blocks p (TObject a ob ns' vs' nr' vr' ms) @ bs) h2" by (rule holds_perm [OF 1(6)]) (simp add: ac_simps)
    from free_tree [OF this t(2)] obtain h3 where "json_value_free (root t) h2 = Inr h3" "budget h3 = budget h2"
      "holds m (blocks p (TObject a ob ns' vs' nr' vr' ms) @ bs) h3" by blast
    with 1 t(1) bd show thesis by (intro refused [of h3 ns' vs' nr' vr']) (simp_all add: set_new_m_def)
  next
    case (2 h2 ns' vs' nr' vr' ms')
    with t bd show thesis by (intro stored [of h2 ns' vs' nr' vr' ms']) (simp_all add: set_new_m_def)
  qed
qed

lemma set_string_tree:
  assumes h: "holds m (blocks p (TObject a ob ns vs nr vr ms) @ bs) h" and ok: "tree_ok (TObject a ob ns vs nr vr ms)"
    and name: "NUL \<notin> set name" and s: "is_valid_utf8 s (length s)"
  obtains (refused) h' ns' vs' nr' vr' where "json_object_set_string_m ob (Some name) (Some s) h = Inr (False, h')" "budget h' = 0" "budget h \<le> 5"
      "tree_ok (TObject a ob ns' vs' nr' vr' ms)" "holds m (blocks p (TObject a ob ns' vs' nr' vr' ms) @ bs) h'"
    | (stored) h' ns' vs' nr' vr' ms' where "json_object_set_string_m ob (Some name) (Some s) h = Inr (True, h')"
      "tree_ok (TObject a ob ns' vs' nr' vr' ms')" "holds m (blocks p (TObject a ob ns' vs' nr' vr' ms') @ bs) h'"
      "members_of ms' = AList.update name (VString s) (members_of ms)" "budget h \<le> budget h' + 5"
proof -
  from init_string_result [OF h s order_refl] obtain v h1 where v: "json_value_init_string_with_len_m (Some s) (length s) h = Inr (v, h1)"
    "builds m (blocks p (TObject a ob ns vs nr vr ms) @ bs) h 2 v h1 (VString s)" by auto
  then have "json_object_set_string_m ob (Some name) (Some s) h = set_new_m ob (Some name) (v, h1)"
    by (simp add: json_object_set_string_m_def json_value_init_string_m_def)
  then have eq: "set_new_m ob (Some name) (v, h1) = json_object_set_string_m ob (Some name) (Some s) h" ..
  show thesis
  proof (cases rule: set_new_tree [OF v(2) ok name])
    case (1 h' ns' vs' nr' vr')
    then show thesis by (intro refused [of h' ns' vs' nr' vr']) (simp_all add: eq)
  next
    case (2 h' ns' vs' nr' vr' ms')
    then show thesis by (intro stored [of h' ns' vs' nr' vr' ms']) (simp_all add: eq)
  qed
qed

text \<open>A string that is not UTF-8 is not stored, and nothing changes.\<close>

lemma set_string_invalid:
  "\<not> is_valid_utf8 s (length s) \<Longrightarrow> heap_ok h \<Longrightarrow> json_object_set_string_m a name (Some s) h = Inr (False, h)"
  by (simp add: json_object_set_string_m_def json_value_init_string_m_def json_value_init_string_with_len_m_def set_new_m_def
      set_value_null free_null)

text \<open>In both cases the tree of the object, of whatever members it has then, is all that there is.\<close>

lemma set_string_any:
  assumes h: "holds m (blocks p (TObject a ob ns vs nr vr ms) @ bs) h" and ok: "tree_ok (TObject a ob ns vs nr vr ms)" "NUL \<notin> set name"
  shows "\<exists>r h' ns' vs' nr' vr' ms'. json_object_set_string_m ob (Some name) (Some s) h = Inr (r, h') \<and>
    tree_ok (TObject a ob ns' vs' nr' vr' ms') \<and> holds m (blocks p (TObject a ob ns' vs' nr' vr' ms') @ bs) h' \<and>
    budget h \<le> budget h' + 5 \<and>
    (is_valid_utf8 s (length s) \<and> 5 < budget h \<longrightarrow> members_of ms' = AList.update name (VString s) (members_of ms))"
proof (cases "is_valid_utf8 s (length s)")
  case False
  have "heap_ok h" using h by (simp add: holds_def)
  with set_string_invalid [OF False this] h ok False show ?thesis
    by (intro exI [of _ False] exI [of _ h] exI [of _ ns] exI [of _ vs] exI [of _ nr] exI [of _ vr] exI [of _ ms]) simp
next
  case True
  show ?thesis
  proof (cases rule: set_string_tree [OF h ok True])
    case (1 h' ns' vs' nr' vr')
    then show ?thesis
      by (intro exI [of _ False] exI [of _ h'] exI [of _ ns'] exI [of _ vs'] exI [of _ nr'] exI [of _ vr'] exI [of _ ms]) simp
  next
    case (2 h' ns' vs' nr' vr' ms')
    then show ?thesis
      by (intro exI [of _ True] exI [of _ h'] exI [of _ ns'] exI [of _ vs'] exI [of _ nr'] exI [of _ vr'] exI [of _ ms']) simp
  qed
qed

text \<open>Without an object the string is built, not stored, and freed.\<close>

lemma set_string_no_object:
  assumes "heap_ok h" "budget h = 0"
  shows "json_object_set_string_m 0 name (Some s) h = Inr (False, h)"
  using assms free_null [OF assms(1)]
  by (simp add: json_object_set_string_m_def json_value_init_string_m_def json_value_init_string_with_len_m_def parson_strndup_def
      parson_malloc_def set_new_m_def set_value_null)

section \<open>The specification of the removal\<close>

lemma swap_remove_append:
  "swap_remove (length pre) (pre @ x # post) = (if post = [] then pre else pre @ last post # butlast post)"
  by (cases post rule: rev_cases) (auto simp: swap_remove_def list_update_append butlast_append)

lemma slot_head:
  assumes "holds m ((s, SlotsBlock (map Some xs @ r)) # bs) h" "i < length xs"
  shows "slot_at s i h = Inr (xs ! i)"
  using slot_at_eq [OF holds_head [OF assms(1)] assms(2)] .

text \<open>\<open>kept\<close>: the removed value, when it is not freed, belongs to the caller, with the parent it had.\<close>

lemma remove_tree:
  assumes h: "holds m (blocks p (TObject a ob ns vs nr vr (pre @ (c, name, t) # post)) @ bs) h"
    and ok: "tree_ok (TObject a ob ns vs nr vr (pre @ (c, name, t) # post))" and name: "name \<notin> (\<lambda>x. fst (snd x)) ` set pre"
  assumes kept_def: "kept = (if freeing then [] else blocks a t)"
  shows "\<exists>h' nr' vr'. json_object_remove_internal_m ob name freeing h = Inr (True, h') \<and> budget h' = budget h \<and>
    tree_ok (TObject a ob ns vs nr' vr' (swap_remove (length pre) (pre @ (c, name, t) # post))) \<and>
    holds m (blocks p (TObject a ob ns vs nr' vr' (swap_remove (length pre) (pre @ (c, name, t) # post))) @ kept @ bs) h'"
proof -
  let ?ms = "pre @ (c, name, t) # post"
  let ?o = "\<lparr>obj_wrapping = a, obj_names = ns, obj_values = vs, obj_count = length ?ms, obj_capacity = length ?ms + length nr\<rparr>"
  let ?o' = "\<lparr>obj_wrapping = a, obj_names = ns, obj_values = vs, obj_count = length ?ms - 1, obj_capacity = length ?ms + length nr\<rparr>"
  let ?A = "(a, ValueBlock \<lparr>parent = p, payload = PObject ob\<rparr>)" and ?O = "(ob, ObjectBlock ?o)" and ?C = "(c, CharsBlock name)"
  let ?N = "SlotsBlock (map Some (map fst ?ms) @ nr)" and ?V = "SlotsBlock (map Some (map member_root ?ms) @ vr)"
  let ?M = "member_blocks a pre @ member_blocks a post"
  have sz: "ns \<noteq> 0" "vs \<noteq> 0" "tree_ok t" "ob \<noteq> 0" using ok by auto
  note get = getn_value_split [OF h ok name]
  have h0: "holds m (?O # ?A # (ns, ?N) # (vs, ?V) # ?C # blocks a t @ ?M @ bs) h"
    by (rule holds_perm [OF h]) (simp add: blocks_object slots_block_def sz comp_def ac_simps)
  have o0: "object_at ob h = Inr ?o" using holds_head [OF h0] by (simp add: at_defs)
  have h0': "holds m ((ns, ?N) # member_blocks a pre @ ?C # ?A # ?O # (vs, ?V) # blocks a t @ member_blocks a post @ bs) h"
    by (rule holds_perm [OF h0]) (simp add: ac_simps)
  have ix: "find_index_m ?o name 0 (Suc (length pre + length post)) h = Inr (Some (length pre))"
    by (rule find_index_tree [OF h0' ok name]) simp
  have nm: "slot_at ns (length pre) h = Inr c"
    using slot_head [OF h0', of "length pre"] by (simp add: nth_append)
  have "holds m (?C # (vs, ?V) # ?O # ?A # (ns, ?N) # blocks a t @ ?M @ bs) h" by (rule holds_perm [OF h0]) simp
  from free_block [OF this] obtain h1 where h1: "parson_free c h = Inr h1" "budget h1 = budget h"
    "holds m ((vs, ?V) # ?O # ?A # (ns, ?N) # blocks a t @ ?M @ bs) h1" by blast
  have vl: "slot_at vs (length pre) h1 = Inr (root t)"
    using slot_head [OF h1(3), of "length pre"] by (simp add: nth_append)
  let ?free = "if freeing then c_bind (slot_at vs (length pre) h1) (\<lambda>v. json_value_free v h1) else Inr h1"
  have "\<exists>h2. ?free = Inr h2 \<and> budget h2 = budget h \<and> holds m ((ns, ?N) # (vs, ?V) # ?O # ?A # kept @ ?M @ bs) h2"
  proof (cases freeing)
    case True
    have "holds m (blocks a t @ (ns, ?N) # (vs, ?V) # ?O # ?A # ?M @ bs) h1" by (rule holds_perm [OF h1(3)]) (simp add: ac_simps)
    from free_tree [OF this sz(3)] True vl h1(2) show ?thesis by (auto simp: kept_def)
  next
    case False
    have "holds m ((ns, ?N) # (vs, ?V) # ?O # ?A # blocks a t @ ?M @ bs) h1" by (rule holds_perm [OF h1(3)]) simp
    with False h1(2) show ?thesis by (simp add: kept_def)
  qed
  then obtain h2 where h2: "?free = Inr h2" "budget h2 = budget h" "holds m ((ns, ?N) # (vs, ?V) # ?O # ?A # kept @ ?M @ bs) h2" by blast
  let ?move = "if length pre \<noteq> length ?ms - 1
      then c_bind (slot_at ns (length ?ms - 1) h2) (\<lambda>n. c_bind (set_slot ns (length pre) n h2) (\<lambda>h.
           c_bind (slot_at vs (length ?ms - 1) h) (\<lambda>v. set_slot vs (length pre) v h))) else Inr h2"
  let ?ms' = "swap_remove (length pre) ?ms"
  have "\<exists>h3 nr' vr'. ?move = Inr h3 \<and> budget h3 = budget h2 \<and> length nr' = Suc (length nr) \<and> length vr' = Suc (length vr) \<and>
    holds m ((ob, ObjectBlock ?o) # (ns, SlotsBlock (map Some (map fst ?ms') @ nr')) #
      (vs, SlotsBlock (map Some (map member_root ?ms') @ vr')) # ?A # kept @ ?M @ bs) h3"
  proof (cases post rule: rev_cases)
    case Nil
    have "holds m (?O # (ns, ?N) # (vs, ?V) # ?A # kept @ ?M @ bs) h2" by (rule holds_perm [OF h2(3)]) simp
    then show ?thesis
      by (intro exI [of _ h2] exI [of _ "Some c # nr"] exI [of _ "Some (root t) # vr"]) (simp add: Nil swap_remove_append)
  next
    case (snoc mid z)
    have l: "slot_at ns (length ?ms - 1) h2 = Inr (fst z)"
      using slot_head [OF h2(3), of "length ?ms - 1"] by (simp add: snoc nth_append)
    from set_slot_eq [OF h2(3), of "length pre" "fst z"] obtain h3 where h3: "set_slot ns (length pre) (fst z) h2 = Inr h3" "budget h3 = budget h2"
      "holds m ((ns, SlotsBlock (map Some (map fst pre) @ Some (fst z) # map Some (map fst post) @ nr)) # (vs, ?V) # ?O # ?A # kept @ ?M @ bs) h3"
      by auto
    have h3': "holds m ((vs, ?V) # (ns, SlotsBlock (map Some (map fst pre) @ Some (fst z) # map Some (map fst post) @ nr)) # ?O # ?A # kept @ ?M @ bs) h3"
      by (rule holds_perm [OF h3(3)]) simp
    have l': "slot_at vs (length ?ms - 1) h3 = Inr (member_root z)"
      using slot_head [OF h3', of "length ?ms - 1"] by (simp add: snoc nth_append)
    from set_slot_eq [OF h3', of "length pre" "member_root z"] obtain h4 where
      h4: "set_slot vs (length pre) (member_root z) h3 = Inr h4" "budget h4 = budget h3"
      "holds m ((vs, SlotsBlock (map Some (map member_root pre) @ Some (member_root z) # map Some (map member_root post) @ vr)) #
        (ns, SlotsBlock (map Some (map fst pre) @ Some (fst z) # map Some (map fst post) @ nr)) # ?O # ?A # kept @ ?M @ bs) h4" by auto
    have "holds m (?O # (ns, SlotsBlock (map Some (map fst pre) @ Some (fst z) # map Some (map fst post) @ nr)) #
        (vs, SlotsBlock (map Some (map member_root pre) @ Some (member_root z) # map Some (map member_root post) @ vr)) # ?A # kept @ ?M @ bs) h4"
      by (rule holds_perm [OF h4(3)]) simp
    then show ?thesis
      using l h3(1,2) l' h4(1,2)
      by (intro exI [of _ h4] exI [of _ "Some (fst z) # nr"] exI [of _ "Some (member_root z) # vr"])
        (simp add: snoc swap_remove_append)
  qed
  then obtain h3 nr' vr' where h3: "?move = Inr h3" "budget h3 = budget h2" "length nr' = Suc (length nr)" "length vr' = Suc (length vr)"
    "holds m ((ob, ObjectBlock ?o) # (ns, SlotsBlock (map Some (map fst ?ms') @ nr')) #
      (vs, SlotsBlock (map Some (map member_root ?ms') @ vr')) # ?A # kept @ ?M @ bs) h3" by blast
  have mset: "mset ?ms = add_mset (c, name, t) (mset ?ms')"
    using swap_remove_mset [of "length pre" ?ms] by simp
  have len: "length ?ms' = length pre + length post" using arg_cong [OF mset, of size] by simp
  have mb: "mset (member_blocks a ?ms') = mset ?M"
    by (cases post rule: rev_cases) (auto simp: swap_remove_append)
  have "holds m (blocks p (TObject a ob ns vs nr' vr' ?ms') @ kept @ bs) (store_block ob (ObjectBlock ?o') h3)"
    by (rule holds_perm [OF holds_store [OF h3(5), of "ObjectBlock ?o'"]])
      (simp add: blocks_object slots_block_def sz comp_def mb len h3(3) ac_simps)
  moreover have "json_object_remove_internal_m ob name freeing h = Inr (True, store_block ob (ObjectBlock ?o') h3)"
    using sz(4) get root_nonzero [OF sz(3)] o0 ix nm h1(1) h2(1) h3(1)
    by (cases freeing; cases "post = []") (simp_all add: json_object_remove_internal_m_def json_object_get_value_m_def Let_def)
  moreover have "tree_ok (TObject a ob ns vs nr' vr' ?ms')"
  proof -
    have "mset (map (\<lambda>m. fst (snd m)) ?ms) = mset (map (\<lambda>m. fst (snd m)) ((c, name, t) # ?ms'))"
      by (simp only: mset_map mset mset.simps(2))
    moreover have "distinct (map (\<lambda>m. fst (snd m)) ?ms)" using ok unfolding tree_ok.simps by blast
    ultimately have "distinct (map (\<lambda>m. fst (snd m)) ((c, name, t) # ?ms'))" using mset_eq_imp_distinct_iff by blast
    then have d: "distinct (map (\<lambda>m. fst (snd m)) ?ms')" by (simp only: list.map distinct.simps)
    have "set ?ms' \<subseteq> set ?ms" using arg_cong [OF mset, of set_mset] by (simp only: set_mset_mset set_mset_add_mset_insert subset_insertI)
    moreover have "\<forall>(c, k, t) \<in> set ?ms. c \<noteq> 0 \<and> NUL \<notin> set k \<and> tree_ok t" using ok unfolding tree_ok.simps by blast
    ultimately have all: "\<forall>(c, k, t) \<in> set ?ms'. c \<noteq> 0 \<and> NUL \<notin> set k \<and> tree_ok t" by blast
    have "nr' \<noteq> []" "length vr' = length nr'" "a \<noteq> 0" using h3(3,4) ok by auto
    with d all sz show ?thesis by simp
  qed
  ultimately show ?thesis using h2(2) h3(2) by (intro exI [of _ "store_block ob (ObjectBlock ?o') h3"] exI [of _ nr'] exI [of _ vr']) simp
qed

end
