(* ===== verification/JsonHeapProps.thy ===== *)
theory JsonHeapProps
  imports JsonHeapOps JsonProps
begin

text \<open>
  The properties of the values of \<^verbatim>\<open>Tema_3/parson.c\<close> in memory: nothing is lost and nothing is freed twice,
  whatever allocation is refused.
\<close>

section \<open>Freeing and parsing\<close>

text \<open>
  C10: Freeing a value frees each block of the value once and no other block, whatever its size and depth; none of the
  frees or reads on the way meets a block that is gone. Freeing it again reads a freed block.
\<close>

theorem value_free_exact:
  assumes "heap_ok h" "tree_ok t" "owned (mem h) (blocks p t)"
  shows "\<exists>h'. json_value_free (root t) h = Inr h' \<and> (\<forall>a. mem h' a = (if a \<in> addrs t then None else mem h a)) \<and>
    json_value_free (root t) h' = Inl BadPointer"
proof (intro exI conjI)
  show "json_value_free (root t) h = Inr (release (addrs t) h)" by (rule json_value_free_tree [OF assms])
  obtain n where "next_addr h = Suc n" using assms(1) by (cases "next_addr h") (simp_all add: heap_ok_def)
  with root_nonzero [OF assms(2)] show "json_value_free (root t) (release (addrs t) h) = Inl BadPointer"
    by (simp add: json_value_free_def at_defs block_at_def)
qed simp

text \<open>Heaps of given blocks, and one object of one member.\<close>

definition heap_of :: "(jaddr \<times> 'n block) list \<Rightarrow> nat \<Rightarrow> nat \<Rightarrow> 'n jheap" where
  "heap_of bs n k = \<lparr>mem = map_of bs, next_addr = n, budget = k\<rparr>"

lemma holds_heap_of:
  assumes "distinct (map fst bs)" "\<forall>a \<in> fst ` set bs. 0 < a \<and> a < n" "0 < n"
  shows "holds Map.empty bs (heap_of bs n k)"
proof -
  have none: "map_of bs a = None" if "a \<notin> fst ` set bs" for a using that by (simp add: map_of_eq_None_iff)
  have "owned (map_of bs) bs" using assms(1) by (auto simp: owned_def)
  moreover have "heap_ok (heap_of bs n k)"
    using assms(2,3) none by (auto simp: heap_ok_def heap_of_def intro!: none)
  ultimately show ?thesis using none by (auto simp: holds_def heap_of_def)
qed

definition demo_tree :: "int jtree" where
  "demo_tree = TObject 1 2 3 4 [] [] [(5, ''id'', TNumber 6 7)]"

definition demo_heap :: "int jheap" where
  "demo_heap = heap_of (blocks 0 demo_tree) 7 0"

lemma demo_heap_holds: "holds Map.empty (blocks 0 demo_tree) demo_heap"
  unfolding demo_heap_def by (rule holds_heap_of) (simp_all add: demo_tree_def blocks_object slots_block_def)

lemma demo_heap_ok: "heap_ok demo_heap" "tree_ok demo_tree" "owned (mem demo_heap) (blocks 0 demo_tree)"
  using demo_heap_holds by (simp_all add: holds_def demo_tree_def)

theorem value_free_exact_witness:
  "\<exists>h'. json_value_free 1 demo_heap = Inr h' \<and> (\<forall>a. mem h' a = (if a \<in> addrs demo_tree then None else mem demo_heap a)) \<and>
    json_value_free 1 h' = Inl BadPointer"
  using value_free_exact [OF demo_heap_ok] by (simp add: demo_tree_def)

text \<open>
  C5: On the heap the parser refines the parser of values, whatever allocations are refused: it returns, without an
  access to memory that is not there, either the root of a tree of blocks of exactly the value parsed, the rest
  of the memory as it was; or null with the memory as it was, and then the text is not JSON or the memory was
  used up. Four allocations per character and one are enough.
\<close>

theorem heap_parser_refines:
  assumes "heap_ok h"
  shows "\<exists>a h'. json_parse_string_m L (Some s) h = Inr (a, h') \<and>
    (if a = 0 then mem h' = mem h \<and> (json_parse_string L (Some s) = Failed \<or> budget h' = 0)
     else \<exists>t r. a = root t \<and> holds (mem h) (blocks 0 t) h' \<and> json_parse_string L (Some s) = Parsed (value_of t) r) \<and>
    (4 * length s + 1 < budget h \<longrightarrow> budget h' \<noteq> 0)"
proof -
  from json_parse_string_result [OF assms, of L "Some s"] obtain a h' where
    r: "json_parse_string_m L (Some s) h = Inr (a, h')" "budget h \<le> budget h' + 4 * length s + 1"
    "a = 0 \<and> heap_ok h' \<and> mem h' = mem h \<and> (json_parse_string L (Some s) = Failed \<or> budget h' = 0) \<or>
     (\<exists>t s'. a = root t \<and> tree_ok t \<and> holds (mem h) (blocks 0 t) h' \<and> json_parse_string L (Some s) = Parsed (value_of t) s')"
    by auto
  then show ?thesis using root_nonzero by (cases "a = 0") force+
qed

definition empty_heap :: "nat \<Rightarrow> 'n jheap" where
  "empty_heap n = \<lparr>mem = Map.empty, next_addr = 1, budget = n\<rparr>"

lemma empty_heap_ok: "heap_ok (empty_heap n)"
  by (simp add: empty_heap_def heap_ok_def)

theorem heap_parser_refines_witness:
  "\<exists>a h'. json_parse_string_m int_lib (Some ''[1,{\"a\":true}]'') (empty_heap 60) = Inr (a, h') \<and> a \<noteq> 0 \<and>
    (\<exists>t. a = root t \<and> holds Map.empty (blocks 0 t) h' \<and> value_of t = VArray [VNumber 1, VObject [(''a'', VBoolean True)]])"
proof -
  have p: "json_parse_string int_lib (Some ''[1,{\"a\":true}]'') = Parsed (VArray [VNumber 1, VObject [(''a'', VBoolean True)]]) []"
    by code_simp
  from heap_parser_refines [OF empty_heap_ok [of 60], of int_lib "''[1,{\"a\":true}]''"] show ?thesis
    unfolding p by (auto simp: empty_heap_def split: if_splits)
qed

text \<open>
  What the parser has allocated is all in the value it returns: when the value is freed, the memory is what it was
  before the text was parsed, and null, the result of a text that is not JSON, may be freed as well.
\<close>

theorem parse_then_free:
  assumes "heap_ok h" "json_parse_string_m L str h = Inr (a, h1)"
  shows "\<exists>h2. json_value_free a h1 = Inr h2 \<and> mem h2 = mem h"
proof -
  from json_parse_string_result [OF assms(1), of L str] assms(2)
  have "a = 0 \<and> heap_ok h1 \<and> mem h1 = mem h \<or> (\<exists>t. a = root t \<and> tree_ok t \<and> holds (mem h) (blocks 0 t @ []) h1)" by auto
  then show ?thesis
  proof
    assume "a = 0 \<and> heap_ok h1 \<and> mem h1 = mem h"
    then show ?thesis using free_null by auto
  next
    assume "\<exists>t. a = root t \<and> tree_ok t \<and> holds (mem h) (blocks 0 t @ []) h1"
    then obtain t where t: "a = root t" "tree_ok t" "holds (mem h) (blocks 0 t @ []) h1" by blast
    from free_tree [OF t(3,2)] obtain h2 where "json_value_free (root t) h1 = Inr h2" "holds (mem h) [] h2" by blast
    with t(1) show ?thesis by (auto simp: holds_Nil)
  qed
qed

theorem parse_then_free_witness:
  "\<exists>a h1 h2. json_parse_string_m int_lib (Some ''{\"a\":[1,2}'') (empty_heap 60) = Inr (a, h1) \<and>
     json_value_free a h1 = Inr h2 \<and> mem h2 = Map.empty"
proof -
  obtain a h1 where r: "json_parse_string_m int_lib (Some ''{\"a\":[1,2}'') (empty_heap 60) = Inr (a, h1)"
    using json_parse_string_result [OF empty_heap_ok [of 60], of int_lib "Some ''{\"a\":[1,2}''"] by blast
  from parse_then_free [OF empty_heap_ok r] r show ?thesis by (auto simp: empty_heap_def)
qed

section \<open>Setting and removing\<close>

text \<open>
  C11: Setting a member on the heap sets it in the object the blocks stand for: the old value of the name is freed, the
  new one becomes the object's, and nothing else in memory changes. It fails only when the memory is used up; then the object
  stands for what it did and the value is still the caller's, without a parent.
\<close>

theorem heap_set_value:
  assumes "holds m (blocks p (TObject a ob ns vs nr vr ms) @ blocks 0 t) h" "tree_ok (TObject a ob ns vs nr vr ms)" "tree_ok t"
    "NUL \<notin> set name"
  shows "\<exists>ok h' ns' vs' nr' vr' ms'. json_object_set_value_m ob (Some name) (root t) h = Inr (ok, h') \<and>
    tree_ok (TObject a ob ns' vs' nr' vr' ms') \<and>
    holds m (blocks p (TObject a ob ns' vs' nr' vr' ms') @ (if ok then [] else blocks 0 t)) h' \<and>
    members_of ms' = (if ok then AList.update name (value_of t) (members_of ms) else members_of ms) \<and>
    (ok \<or> name \<notin> fst ` set (members_of ms) \<and> budget h' = 0)"
proof -
  have h: "holds m (blocks p (TObject a ob ns vs nr vr ms) @ blocks 0 t @ []) h" using assms(1) by simp
  have k: "fst ` set (members_of ms) = (\<lambda>x. fst (snd x)) ` set ms" by (force simp: members_of_def)
  show ?thesis
  proof (cases rule: set_value_tree [OF h assms(2-4)])
    case (1 h' ns' vs' nr' vr')
    then show ?thesis
      by (intro exI [of _ False] exI [of _ h'] exI [of _ ns'] exI [of _ vs'] exI [of _ nr'] exI [of _ vr'] exI [of _ ms]) (simp add: k)
  next
    case (2 h' ns' vs' nr' vr' ms')
    then show ?thesis
      by (intro exI [of _ True] exI [of _ h'] exI [of _ ns'] exI [of _ vs'] exI [of _ nr'] exI [of _ vr'] exI [of _ ms']) simp
  qed
qed

text \<open>A second heap, with a value that belongs to nothing yet.\<close>

definition demo_heap2 :: "int jheap" where
  "demo_heap2 = heap_of (blocks 0 demo_tree @ blocks 0 (TNull 7)) 8 0"

lemma demo_heap2_holds: "holds Map.empty (blocks 0 demo_tree @ blocks 0 (TNull 7)) demo_heap2"
  unfolding demo_heap2_def by (rule holds_heap_of) (simp_all add: demo_tree_def blocks_object slots_block_def)

theorem heap_set_value_witness:
  "\<exists>h' ns' vs' nr' vr' ms'. json_object_set_value_m 2 (Some ''id'') 7 demo_heap2 = Inr (True, h') \<and>
    members_of ms' = [(''id'', VNull)] \<and> holds Map.empty (blocks 0 (TObject 1 2 ns' vs' nr' vr' ms')) h'"
proof -
  let ?ms = "[(5, ''id'', TNumber 6 7)] :: (jaddr \<times> string \<times> int jtree) list"
  have h: "holds Map.empty (blocks 0 (TObject 1 2 3 4 [] [] ?ms) @ blocks 0 (TNull 7)) demo_heap2"
    using demo_heap2_holds unfolding demo_tree_def .
  have ok: "tree_ok (TObject 1 2 3 4 [] [] ?ms)" "tree_ok (TNull 7)" "NUL \<notin> set ''id''" by simp_all
  from heap_set_value [OF h ok] obtain b h' ns' vs' nr' vr' ms' where
    r: "json_object_set_value_m 2 (Some ''id'') (root (TNull 7 :: int jtree)) demo_heap2 = Inr (b, h')"
      "holds Map.empty (blocks 0 (TObject 1 2 ns' vs' nr' vr' ms') @ (if b then [] else blocks 0 (TNull 7))) h'"
      "members_of ms' = (if b then AList.update ''id'' (value_of (TNull 7)) (members_of ?ms) else members_of ?ms)"
      "b \<or> ''id'' \<notin> fst ` set (members_of ?ms) \<and> budget h' = 0"
    by (elim exE conjE) (rule that)
  have "b" using r(4) by (simp add: members_of_def)
  with r show ?thesis
    by (intro exI [of _ h'] exI [of _ ns'] exI [of _ vs'] exI [of _ nr'] exI [of _ vr'] exI [of _ ms']) (simp add: members_of_def)
qed

text \<open>
  Removing a member frees its name and its value, moves the last member into its place, and leaves the rest of the
  memory alone; no allocation is needed and it cannot fail.
\<close>

theorem heap_remove:
  assumes "holds m (blocks p (TObject a ob ns vs nr vr ms)) h" "tree_ok (TObject a ob ns vs nr vr ms)"
    "i < length ms" "fst (snd (ms ! i)) = name"
  shows "\<exists>h' nr' vr'. json_object_remove_m ob name h = Inr (True, h') \<and>
    tree_ok (TObject a ob ns vs nr' vr' (swap_remove i ms)) \<and> holds m (blocks p (TObject a ob ns vs nr' vr' (swap_remove i ms))) h'"
proof -
  obtain c t where x: "ms ! i = (c, name, t)" using assms(4) by (metis prod.collapse)
  have ms: "ms = take i ms @ (c, name, t) # drop (Suc i) ms" using id_take_nth_drop [OF assms(3)] x by simp
  have d: "distinct (map (\<lambda>m. fst (snd m)) (take i ms @ (c, name, t) # drop (Suc i) ms))" using assms(2) ms by auto
  have name: "name \<notin> (\<lambda>x. fst (snd x)) ` set (take i ms)" using d by auto
  have h: "holds m (blocks p (TObject a ob ns vs nr vr (take i ms @ (c, name, t) # drop (Suc i) ms)) @ []) h" using assms(1) ms by simp
  have ok: "tree_ok (TObject a ob ns vs nr vr (take i ms @ (c, name, t) # drop (Suc i) ms))" using assms(2) ms by simp
  have "length (take i ms) = i" using assms(3) by simp
  with remove_tree [OF h ok name, of "[]" True] ms show ?thesis by (auto simp: json_object_remove_m_def)
qed

theorem heap_remove_witness:
  "\<exists>h' nr' vr'. json_object_remove_m 2 ''id'' demo_heap = Inr (True, h') \<and> holds Map.empty (blocks 0 (TObject 1 2 3 4 nr' vr' [])) h'"
proof -
  have h: "holds Map.empty (blocks 0 (TObject 1 2 3 4 [] [] [(5, ''id'', TNumber 6 7)])) demo_heap"
    using demo_heap_holds unfolding demo_tree_def .
  have "tree_ok (TObject 1 2 3 4 [] [] [(5, ''id'', TNumber 6 7)])" by simp
  from heap_remove [OF h this, of 0 "''id''"] show ?thesis by (auto simp: swap_remove_def)
qed

text \<open>An object without members at \<open>1\<close>, and a value at \<open>3\<close> that belongs to nothing.\<close>

definition dotset_heap :: "nat \<Rightarrow> int jheap" where
  "dotset_heap k = heap_of (blocks 0 (TObject 1 2 0 0 [] [] []) @ blocks 0 (TNull 3)) 4 k"

text \<open>
  When a value cannot be stored under a dotted path for want of memory, it keeps as its parent the object that was built
  for the path and has been freed: no object accepts it any more, however much memory there is then.
\<close>

theorem dotset_keeps_freed_parent:
  "case json_object_dotset_value_m 2 ''a.b'' 3 (dotset_heap 5) of
     Inl e \<Rightarrow> False
   | Inr (ok, h) \<Rightarrow> \<not> ok \<and> json_value_get_parent 3 h = Inr 4 \<and> mem h 4 = None \<and>
       map_sum id fst (json_object_set_value_m 2 (Some ''x'') 3 (h\<lparr>budget := 100\<rparr>)) = Inr False \<and>
       map_sum id fst (json_object_set_value_m 2 (Some ''x'') 3 (dotset_heap 100)) = Inr True"
  by code_simp

section \<open>The body of a login\<close>

text \<open>What the client allocates for a registration or a login: an object of two strings, freed after the message is sent.\<close>

definition credentials_value_m :: "string \<Rightarrow> string \<Rightarrow> 'n jheap \<Rightarrow> (jaddr \<times> 'n jheap) c_result" where
  "credentials_value_m user pass h =
     c_bind (json_value_init_object_m h) (\<lambda>(root_value, h).
     c_bind (json_value_get_object_m root_value h) (\<lambda>root_object.
     c_bind (json_object_set_string_m root_object (Some ''username'') (Some user) h) (\<lambda>(_, h).
     c_bind (json_object_set_string_m root_object (Some ''password'') (Some pass) h) (\<lambda>(_, h). Inr (root_value, h)))))"

lemma credentials_object:
  assumes i: "json_value_init_object_m h = Inr (a, h1)" and a: "a \<noteq> 0" "ob \<noteq> 0"
    and h1: "holds m (blocks 0 (TObject a ob 0 0 [] [] []) @ []) h1"
  shows "\<exists>ns vs nr vr ms h2. credentials_value_m user pass h = Inr (a, h2) \<and>
    tree_ok (TObject a ob ns vs nr vr ms) \<and> holds m (blocks 0 (TObject a ob ns vs nr vr ms) @ []) h2 \<and>
    (10 < budget h1 \<and> is_valid_utf8 user (length user) \<and> is_valid_utf8 pass (length pass) \<longrightarrow>
     members_of ms = [(''username'', VString user), (''password'', VString pass)])"
proof -
  have ok: "tree_ok (TObject a ob 0 0 [] [] [])" using a by simp
  have "mem h1 a = Some (ValueBlock \<lparr>parent = 0, payload = PObject ob\<rparr>)"
    by (rule holds_at(2) [OF h1]) (simp add: blocks_object)
  with a have ob: "json_value_get_object_m a h1 = Inr ob" by (simp add: json_value_get_object_m_def at_defs)
  have "NUL \<notin> set ''username''" by simp
  from set_string_any [OF h1 ok this, of user] obtain r2 h2 ns2 vs2 nr2 vr2 ms2 where
    s2: "json_object_set_string_m ob (Some ''username'') (Some user) h1 = Inr (r2, h2)"
      "tree_ok (TObject a ob ns2 vs2 nr2 vr2 ms2)" "holds m (blocks 0 (TObject a ob ns2 vs2 nr2 vr2 ms2) @ []) h2"
      "budget h1 \<le> budget h2 + 5"
      "is_valid_utf8 user (length user) \<and> 5 < budget h1 \<longrightarrow> members_of ms2 = AList.update ''username'' (VString user) (members_of [])"
    by (elim exE conjE) (rule that; assumption)
  have "NUL \<notin> set ''password''" by simp
  from set_string_any [OF s2(3,2) this, of pass] obtain r3 h3 ns3 vs3 nr3 vr3 ms3 where
    s3: "json_object_set_string_m ob (Some ''password'') (Some pass) h2 = Inr (r3, h3)"
      "tree_ok (TObject a ob ns3 vs3 nr3 vr3 ms3)" "holds m (blocks 0 (TObject a ob ns3 vs3 nr3 vr3 ms3) @ []) h3"
      "is_valid_utf8 pass (length pass) \<and> 5 < budget h2 \<longrightarrow> members_of ms3 = AList.update ''password'' (VString pass) (members_of ms2)"
    by (elim exE conjE) (rule that; assumption)
  have "members_of ms3 = [(''username'', VString user), (''password'', VString pass)]"
    if "10 < budget h1" "is_valid_utf8 user (length user)" "is_valid_utf8 pass (length pass)"
    using s2(4,5) s3(4) that by (simp add: members_of_def)
  moreover have "credentials_value_m user pass h = Inr (a, h3)"
    using i ob s2(1) s3(1) by (simp add: credentials_value_m_def)
  ultimately show ?thesis using s3(2,3) by blast
qed



end
