(* ===== verification/JsonHeapArray.thy ===== *)
theory JsonHeapArray
  imports JsonHeapOps
begin

text \<open>
  The operations on the items of an array of \<^verbatim>\<open>Tema_3/parson.c\<close> on the heap, and emptying an object or array. What is
  removed or replaced is freed; only appending allocates.
\<close>

definition json_array_get_value_m :: "jaddr \<Rightarrow> nat \<Rightarrow> 'n jheap \<Rightarrow> jaddr c_result" where
  "json_array_get_value_m a ix h =
     c_bind (json_array_get_count_m a h) (\<lambda>n.
       if a = 0 \<or> ix \<ge> n then Inr 0 else c_bind (array_at a h) (\<lambda>ar. slot_at (arr_items ar) ix h))"

text \<open>\<open>memmove\<close> within the slots.\<close>

definition move_slots :: "jaddr \<Rightarrow> nat \<Rightarrow> nat \<Rightarrow> 'n jheap \<Rightarrow> 'n jheap c_result" where
  "move_slots a ix k h =
     c_bind (slots_at a h) (\<lambda>xs. c_bind (move_down xs ix k) (\<lambda>xs. Inr (store_block a (SlotsBlock xs) h)))"

definition json_array_remove_m :: "jaddr \<Rightarrow> nat \<Rightarrow> 'n jheap \<Rightarrow> (bool \<times> 'n jheap) c_result" where
  "json_array_remove_m a ix h =
     c_bind (json_array_get_count_m a h) (\<lambda>n.
       if a = 0 \<or> ix \<ge> n then Inr (False, h)
       else c_bind (json_array_get_value_m a ix h) (\<lambda>v.
            c_bind (json_value_free v h) (\<lambda>h.
            c_bind (array_at a h) (\<lambda>ar.
            c_bind (move_slots (arr_items ar) ix (arr_count ar - 1 - ix) h) (\<lambda>h.
              Inr (True, store_block a (ArrayBlock (ar\<lparr>arr_count := arr_count ar - 1\<rparr>)) h))))))"

definition json_array_replace_value_m :: "jaddr \<Rightarrow> nat \<Rightarrow> jaddr \<Rightarrow> 'n jheap \<Rightarrow> (bool \<times> 'n jheap) c_result" where
  "json_array_replace_value_m a ix v h =
     (if a = 0 \<or> v = 0 then Inr (False, h)
      else c_bind (json_value_get_parent v h) (\<lambda>p.
           c_bind (json_array_get_count_m a h) (\<lambda>n.
             if p \<noteq> 0 \<or> ix \<ge> n then Inr (False, h)
             else c_bind (json_array_get_value_m a ix h) (\<lambda>old.
                  c_bind (json_value_free old h) (\<lambda>h.
                  c_bind (json_array_get_wrapping_value a h) (\<lambda>w.
                  c_bind (set_parent v w h) (\<lambda>h.
                  c_bind (array_at a h) (\<lambda>ar.
                  c_bind (set_slot (arr_items ar) ix v h) (\<lambda>h. Inr (True, h))))))))))"

definition json_array_append_value_m :: "jaddr \<Rightarrow> jaddr \<Rightarrow> 'n jheap \<Rightarrow> (bool \<times> 'n jheap) c_result" where
  "json_array_append_value_m a v h =
     (if a = 0 \<or> v = 0 then Inr (False, h)
      else c_bind (json_value_get_parent v h) (\<lambda>p. if p \<noteq> 0 then Inr (False, h) else json_array_add_m a v h))"

definition json_array_clear_m :: "jaddr \<Rightarrow> 'n jheap \<Rightarrow> (bool \<times> 'n jheap) c_result" where
  "json_array_clear_m a h =
     (if a = 0 then Inr (False, h)
      else c_bind (array_at a h) (\<lambda>ar.
           c_bind (free_items json_value_free ar 0 (arr_count ar) h) (\<lambda>h.
             Inr (True, store_block a (ArrayBlock (ar\<lparr>arr_count := 0\<rparr>)) h))))"

lemma array_get_tree:
  assumes "holds m (blocks p (TArray a ar is r ts) @ bs) h" "tree_ok (TArray a ar is r ts)"
  shows "json_array_get_value_m ar ix h = Inr (if ix < length ts then root (ts ! ix) else 0)"
proof (cases "ix < length ts")
  case True
  then have "is \<noteq> 0" using assms(2) by auto
  then have "(is, SlotsBlock (map Some (map root ts) @ r)) \<in> set (blocks p (TArray a ar is r ts) @ bs)"
    by (simp add: blocks_array slots_block_def comp_def)
  from slot_at_eq [OF holds_at [OF assms(1) this], of ix] True array_at_tree [OF assms(1)] show ?thesis
    by (simp add: json_array_get_value_m_def json_array_get_count_m_def)
next
  case False
  with array_at_tree [OF assms(1)] show ?thesis by (simp add: json_array_get_value_m_def json_array_get_count_m_def)
qed

lemma array_remove_tree:
  assumes h: "holds m (blocks p (TArray a ar is r (pre @ t # post)) @ bs) h" and ok: "tree_ok (TArray a ar is r (pre @ t # post))"
  shows "\<exists>h' r'. json_array_remove_m ar (length pre) h = Inr (True, h') \<and> budget h' = budget h \<and>
    tree_ok (TArray a ar is r' (pre @ post)) \<and> holds m (blocks p (TArray a ar is r' (pre @ post)) @ bs) h'"
proof -
  let ?ts = "pre @ t # post"
  let ?o = "\<lparr>arr_wrapping = a, arr_items = is, arr_count = length ?ts, arr_capacity = length ?ts + length r\<rparr>"
  let ?o' = "\<lparr>arr_wrapping = a, arr_items = is, arr_count = length ?ts - 1, arr_capacity = length ?ts + length r\<rparr>"
  let ?A = "(a, ValueBlock \<lparr>parent = p, payload = PArray ar\<rparr>)" and ?S = "SlotsBlock (map Some (map root ?ts) @ r)"
  let ?I = "item_blocks a pre @ item_blocks a post"
  have sz: "is \<noteq> 0" "tree_ok t" "ar \<noteq> 0" "a \<noteq> 0" using ok by auto
  have get: "json_array_get_value_m ar (length pre) h = Inr (root t)" using array_get_tree [OF h ok, of "length pre"] by simp
  have cnt: "json_array_get_count_m ar h = Inr (length ?ts)" using array_at_tree [OF h] by (simp add: json_array_get_count_m_def)
  have "holds m (blocks a t @ (ar, ArrayBlock ?o) # (is, ?S) # ?A # ?I @ bs) h"
    by (rule holds_perm [OF h]) (simp add: blocks_array slots_block_def sz comp_def ac_simps)
  from free_tree [OF this sz(2)] obtain h1 where h1: "json_value_free (root t) h = Inr h1" "budget h1 = budget h"
    "holds m ((ar, ArrayBlock ?o) # (is, ?S) # ?A # ?I @ bs) h1" by blast
  have o1: "array_at ar h1 = Inr ?o" using holds_head [OF h1(3)] by (simp add: at_defs)
  have h1': "holds m ((is, ?S) # (ar, ArrayBlock ?o) # ?A # ?I @ bs) h1" by (rule holds_perm [OF h1(3)]) simp
  define lst where "lst = (if post = [] then root t else root (post ! (length post - 1)))"
  let ?S' = "map Some (map root (pre @ post)) @ Some lst # r"
  have mv: "move_down (map Some (map root ?ts) @ r) (length pre) (length post) = Inr ?S'"
    by (cases post rule: rev_cases) (simp_all add: move_down_def lst_def nth_append)
  have "move_slots is (length pre) (length post) h1 = Inr (store_block is (SlotsBlock ?S') h1)"
    using holds_head [OF h1'] mv by (simp add: move_slots_def at_defs)
  moreover have "holds m ((is, SlotsBlock ?S') # (ar, ArrayBlock ?o) # ?A # ?I @ bs) (store_block is (SlotsBlock ?S') h1)"
    by (rule holds_store [OF h1'])
  ultimately obtain h2 where h2: "move_slots is (length pre) (length post) h1 = Inr h2" "budget h2 = budget h1"
    "holds m ((is, SlotsBlock ?S') # (ar, ArrayBlock ?o) # ?A # ?I @ bs) h2" by simp
  have h2': "holds m ((ar, ArrayBlock ?o) # (is, SlotsBlock ?S') # ?A # ?I @ bs) h2" by (rule holds_perm [OF h2(3)]) simp
  have "holds m (blocks p (TArray a ar is (Some lst # r) (pre @ post)) @ bs) (store_block ar (ArrayBlock ?o') h2)"
    by (rule holds_perm [OF holds_store [OF h2', of "ArrayBlock ?o'"]])
      (simp add: blocks_array slots_block_def sz comp_def)
  moreover have "json_array_remove_m ar (length pre) h = Inr (True, store_block ar (ArrayBlock ?o') h2)"
    using sz(3) cnt get h1(1) o1 h2(1) by (simp add: json_array_remove_m_def)
  moreover have "tree_ok (TArray a ar is (Some lst # r) (pre @ post))" using ok sz by auto
  ultimately show ?thesis using h1(2) h2(2) by (intro exI [of _ "store_block ar (ArrayBlock ?o') h2"] exI [of _ "Some lst # r"]) simp
qed

lemma array_replace_tree:
  assumes h: "holds m (blocks p (TArray a ar is r (pre @ t0 # post)) @ blocks 0 t @ bs) h"
    and ok: "tree_ok (TArray a ar is r (pre @ t0 # post))" "tree_ok t"
  shows "\<exists>h'. json_array_replace_value_m ar (length pre) (root t) h = Inr (True, h') \<and> budget h' = budget h \<and>
    tree_ok (TArray a ar is r (pre @ t # post)) \<and> holds m (blocks p (TArray a ar is r (pre @ t # post)) @ bs) h'"
proof -
  let ?ts = "pre @ t0 # post"
  let ?O = "(ar, ArrayBlock \<lparr>arr_wrapping = a, arr_items = is, arr_count = length ?ts, arr_capacity = length ?ts + length r\<rparr>)"
  let ?A = "(a, ValueBlock \<lparr>parent = p, payload = PArray ar\<rparr>)" and ?S = "SlotsBlock (map Some (map root ?ts) @ r)"
  let ?S' = "SlotsBlock (map Some (map root pre) @ Some (root t) # map Some (map root post) @ r)"
  let ?I = "item_blocks a pre @ item_blocks a post"
  have sz: "is \<noteq> 0" "tree_ok t0" "ar \<noteq> 0" "root t \<noteq> 0" using ok(1) root_nonzero [OF ok(2)] by auto
  have get: "json_array_get_value_m ar (length pre) h = Inr (root t0)" using array_get_tree [OF h ok(1), of "length pre"] by simp
  have cnt: "json_array_get_count_m ar h = Inr (length ?ts)" using array_at_tree [OF h] by (simp add: json_array_get_count_m_def)
  have "holds m ((root t, ValueBlock \<lparr>parent = 0, payload = tree_payload t\<rparr>) # inner t @ blocks p (TArray a ar is r ?ts) @ bs) h"
    by (rule holds_perm [OF h]) (simp add: blocks_root [of 0 t] ac_simps)
  from holds_head [OF this] have par: "json_value_get_parent (root t) h = Inr 0" by (simp add: json_value_get_parent_def at_defs)
  have "holds m (blocks a t0 @ ?O # (is, ?S) # ?A # blocks 0 t @ ?I @ bs) h"
    by (rule holds_perm [OF h]) (simp add: blocks_array slots_block_def sz comp_def ac_simps)
  from free_tree [OF this sz(2)] obtain h1 where h1: "json_value_free (root t0) h = Inr h1" "budget h1 = budget h"
    "holds m (?O # (is, ?S) # ?A # blocks 0 t @ ?I @ bs) h1" by blast
  have w: "json_array_get_wrapping_value ar h1 = Inr a"
    using holds_head [OF h1(3)] by (simp add: json_array_get_wrapping_value_def at_defs)
  have "holds m (blocks 0 t @ ?O # (is, ?S) # ?A # ?I @ bs) h1" by (rule holds_perm [OF h1(3)]) (simp add: ac_simps)
  from set_parent_eq [OF this, of a] obtain h2 where h2: "set_parent (root t) a h1 = Inr h2" "budget h2 = budget h1"
    "holds m (blocks a t @ ?O # (is, ?S) # ?A # ?I @ bs) h2" by blast
  have "holds m (?O # (is, ?S) # blocks a t @ ?A # ?I @ bs) h2" by (rule holds_perm [OF h2(3)]) (simp add: ac_simps)
  from holds_head [OF this] have o2: "array_at ar h2 = Inr \<lparr>arr_wrapping = a, arr_items = is, arr_count = length ?ts,
      arr_capacity = length ?ts + length r\<rparr>" by (simp add: at_defs)
  have "holds m ((is, ?S) # ?O # blocks a t @ ?A # ?I @ bs) h2" by (rule holds_perm [OF h2(3)]) (simp add: ac_simps)
  from set_slot_eq [OF this, of "length pre" "root t"] obtain h3 where h3: "set_slot is (length pre) (root t) h2 = Inr h3"
    "budget h3 = budget h2" "holds m ((is, ?S') # ?O # blocks a t @ ?A # ?I @ bs) h3" by auto
  have "holds m (blocks p (TArray a ar is r (pre @ t # post)) @ bs) h3"
    by (rule holds_perm [OF h3(3)]) (simp add: blocks_array slots_block_def sz comp_def ac_simps)
  moreover have "json_array_replace_value_m ar (length pre) (root t) h = Inr (True, h3)"
    using sz(3,4) par cnt get h1(1) w h2(1) o2 h3(1) by (simp add: json_array_replace_value_m_def)
  moreover have "tree_ok (TArray a ar is r (pre @ t # post))" using ok by auto
  ultimately show ?thesis using h1(2) h2(2) h3(2) by simp
qed

text \<open>Emptying keeps the slots; what they hold is not read again.\<close>

lemma free_members_holds:
  assumes "holds m (member_blocks a rest @ bs) h" "\<forall>(c, k, t) \<in> set rest. tree_ok t"
    "rest \<noteq> [] \<Longrightarrow> (obj_names ob, SlotsBlock (map Some (map fst (pre @ rest)) @ nr)) \<in> set bs \<and>
       (obj_values ob, SlotsBlock (map Some (map member_root (pre @ rest)) @ vr)) \<in> set bs"
  shows "\<exists>h'. free_members json_value_free ob (length pre) (length rest) h = Inr h' \<and> holds m bs h' \<and> budget h' = budget h"
  using assms
proof (induction rest arbitrary: pre h)
  case (Cons x rest)
  obtain c k t where x: "x = (c, k, t)" by (cases x)
  have ns: "(obj_names ob, SlotsBlock (map Some (map fst (pre @ x # rest)) @ nr)) \<in> set (member_blocks a (x # rest) @ bs)"
    and vs: "(obj_values ob, SlotsBlock (map Some (map member_root (pre @ x # rest)) @ vr)) \<in> set (blocks a t @ member_blocks a rest @ bs)"
    using Cons.prems(3) by auto
  have 1: "slot_at (obj_names ob) (length pre) h = Inr c"
    using slot_at_eq [OF holds_at [OF Cons.prems(1) ns], of "length pre"] by (simp add: nth_append x)
  have "holds m ((c, CharsBlock k) # blocks a t @ member_blocks a rest @ bs) h" using Cons.prems(1) by (simp add: x)
  from free_block [OF this] obtain h1 where h1: "parson_free c h = Inr h1" "budget h1 = budget h"
    "holds m (blocks a t @ member_blocks a rest @ bs) h1" by blast
  have 2: "slot_at (obj_values ob) (length pre) h1 = Inr (root t)"
    using slot_at_eq [OF holds_at [OF h1(3) vs], of "length pre"] by (simp add: nth_append x)
  have "tree_ok t" using Cons.prems(2) by (simp add: x)
  from free_tree [OF h1(3) this] obtain h2 where h2: "json_value_free (root t) h1 = Inr h2" "budget h2 = budget h1"
    "holds m (member_blocks a rest @ bs) h2" by blast
  have "\<exists>h'. free_members json_value_free ob (length (pre @ [x])) (length rest) h2 = Inr h' \<and> holds m bs h' \<and> budget h' = budget h2"
    by (rule Cons.IH [OF h2(3)]) (use Cons.prems(2,3) in auto)
  with 1 h1(1,2) 2 h2(1,2) show ?case by (auto simp: x)
qed simp

lemma free_items_holds:
  assumes "holds m (item_blocks a rest @ bs) h" "\<forall>t \<in> set rest. tree_ok t"
    "rest \<noteq> [] \<Longrightarrow> (arr_items ar, SlotsBlock (map Some (map root (pre @ rest)) @ r)) \<in> set bs"
  shows "\<exists>h'. free_items json_value_free ar (length pre) (length rest) h = Inr h' \<and> holds m bs h' \<and> budget h' = budget h"
  using assms
proof (induction rest arbitrary: pre h)
  case (Cons t rest)
  have its: "(arr_items ar, SlotsBlock (map Some (map root (pre @ t # rest)) @ r)) \<in> set (item_blocks a (t # rest) @ bs)"
    using Cons.prems(3) by auto
  have 1: "slot_at (arr_items ar) (length pre) h = Inr (root t)"
    using slot_at_eq [OF holds_at [OF Cons.prems(1) its], of "length pre"] by (simp add: nth_append)
  have "holds m (blocks a t @ item_blocks a rest @ bs) h" "tree_ok t" using Cons.prems(1,2) by simp_all
  from free_tree [OF this] obtain h1 where h1: "json_value_free (root t) h = Inr h1" "budget h1 = budget h"
    "holds m (item_blocks a rest @ bs) h1" by blast
  have "\<exists>h'. free_items json_value_free ar (length (pre @ [t])) (length rest) h1 = Inr h' \<and> holds m bs h' \<and> budget h' = budget h1"
    by (rule Cons.IH [OF h1(3)]) (use Cons.prems(2,3) in auto)
  with 1 h1(1,2) show ?case by simp
qed simp

lemma object_clear_tree:
  assumes h: "holds m (blocks p (TObject a ob ns vs nr vr ms) @ bs) h" and ok: "tree_ok (TObject a ob ns vs nr vr ms)"
  shows "\<exists>h' nr' vr'. json_object_clear_m ob h = Inr (True, h') \<and> budget h' = budget h \<and>
    tree_ok (TObject a ob ns vs nr' vr' []) \<and> holds m (blocks p (TObject a ob ns vs nr' vr' []) @ bs) h'"
proof -
  let ?o = "\<lparr>obj_wrapping = a, obj_names = ns, obj_values = vs, obj_count = length ms, obj_capacity = length ms + length nr\<rparr>"
  let ?A = "(a, ValueBlock \<lparr>parent = p, payload = PObject ob\<rparr>)"
  let ?N = "map Some (map fst ms) @ nr" and ?V = "map Some (map member_root ms) @ vr"
  let ?bs = "(ob, ObjectBlock ?o) # slots_block ns ?N @ slots_block vs ?V @ ?A # bs"
  have h1: "holds m (member_blocks a ms @ ?bs) h"
    by (rule holds_perm [OF h]) (simp add: blocks_object comp_def ac_simps)
  have "\<forall>(c, k, t) \<in> set ms. tree_ok t" using ok by auto
  moreover have "(obj_names ?o, SlotsBlock (map Some (map fst ([] @ ms)) @ nr)) \<in> set ?bs \<and>
       (obj_values ?o, SlotsBlock (map Some (map member_root ([] @ ms)) @ vr)) \<in> set ?bs" if "ms \<noteq> []"
    using ok that by (auto simp: slots_block_def)
  ultimately obtain h2 where h2: "free_members json_value_free ?o 0 (length ms) h = Inr h2" "budget h2 = budget h" "holds m ?bs h2"
    using free_members_holds [OF h1, of ?o "[]" nr vr] by auto
  have "holds m (blocks p (TObject a ob ns vs ?N ?V []) @ bs) (store_block ob (ObjectBlock (?o\<lparr>obj_count := 0\<rparr>)) h2)"
    by (rule holds_perm [OF holds_store [OF h2(3), of "ObjectBlock (?o\<lparr>obj_count := 0\<rparr>)"]]) (simp add: blocks_object)
  moreover have "json_object_clear_m ob h = Inr (True, store_block ob (ObjectBlock (?o\<lparr>obj_count := 0\<rparr>)) h2)"
    using object_at_tree [OF h] h2(1) by (simp add: json_object_clear_m_def)
  moreover have "tree_ok (TObject a ob ns vs ?N ?V [])" using ok by auto
  ultimately show ?thesis
    using h2(2) by (intro exI [of _ "store_block ob (ObjectBlock (?o\<lparr>obj_count := 0\<rparr>)) h2"] exI [of _ ?N] exI [of _ ?V]) simp
qed

lemma array_clear_tree:
  assumes h: "holds m (blocks p (TArray a ar is r ts) @ bs) h" and ok: "tree_ok (TArray a ar is r ts)"
  shows "\<exists>h' r'. json_array_clear_m ar h = Inr (True, h') \<and> budget h' = budget h \<and>
    tree_ok (TArray a ar is r' []) \<and> holds m (blocks p (TArray a ar is r' []) @ bs) h'"
proof -
  let ?o = "\<lparr>arr_wrapping = a, arr_items = is, arr_count = length ts, arr_capacity = length ts + length r\<rparr>"
  let ?A = "(a, ValueBlock \<lparr>parent = p, payload = PArray ar\<rparr>)" and ?S = "map Some (map root ts) @ r"
  let ?bs = "(ar, ArrayBlock ?o) # slots_block is ?S @ ?A # bs"
  have h1: "holds m (item_blocks a ts @ ?bs) h"
    by (rule holds_perm [OF h]) (simp add: blocks_array comp_def ac_simps)
  have "\<forall>t \<in> set ts. tree_ok t" using ok by auto
  moreover have "(arr_items ?o, SlotsBlock (map Some (map root ([] @ ts)) @ r)) \<in> set ?bs" if "ts \<noteq> []"
    using ok that by (auto simp: slots_block_def)
  ultimately obtain h2 where h2: "free_items json_value_free ?o 0 (length ts) h = Inr h2" "budget h2 = budget h" "holds m ?bs h2"
    using free_items_holds [OF h1, of ?o "[]" r] by auto
  have "holds m (blocks p (TArray a ar is ?S []) @ bs) (store_block ar (ArrayBlock (?o\<lparr>arr_count := 0\<rparr>)) h2)"
    by (rule holds_perm [OF holds_store [OF h2(3), of "ArrayBlock (?o\<lparr>arr_count := 0\<rparr>)"]]) (simp add: blocks_array)
  moreover have "json_array_clear_m ar h = Inr (True, store_block ar (ArrayBlock (?o\<lparr>arr_count := 0\<rparr>)) h2)"
    using array_at_tree [OF h] h2(1) by (simp add: json_array_clear_m_def)
  moreover have "tree_ok (TArray a ar is ?S [])" using ok by auto
  ultimately show ?thesis
    using h2(2) by (intro exI [of _ "store_block ar (ArrayBlock (?o\<lparr>arr_count := 0\<rparr>)) h2"] exI [of _ ?S]) simp
qed

end
