(* ===== verification/JsonHeapTyped.thy ===== *)
theory JsonHeapTyped
  imports JsonHeapArray
begin

text \<open>
  The setters of \<^verbatim>\<open>Tema_3/parson.c\<close> that build their value on the heap: for the items of an array, for dotted names, and for
  strings of a given length. What is built and cannot be stored is freed again.
\<close>

section \<open>The code\<close>

text \<open>The common shape: null is refused before storing, other than in the setters of a plain name (\<open>set_new_m\<close>).\<close>

definition store_new_m :: "(jaddr \<Rightarrow> 'n jheap \<Rightarrow> (bool \<times> 'n jheap) c_result) \<Rightarrow> jaddr \<times> 'n jheap \<Rightarrow> (bool \<times> 'n jheap) c_result" where
  "store_new_m store = (\<lambda>(v, h).
     if v = 0 then Inr (False, h)
     else c_bind (store v h) (\<lambda>(ok, h). if \<not> ok then c_bind (json_value_free v h) (\<lambda>h. Inr (False, h)) else Inr (True, h)))"

definition json_array_replace_string_m :: "jaddr \<Rightarrow> nat \<Rightarrow> string option \<Rightarrow> 'n jheap \<Rightarrow> (bool \<times> 'n jheap) c_result" where
  "json_array_replace_string_m a i str h =
     c_bind (json_value_init_string_m str h) (store_new_m (json_array_replace_value_m a i))"

definition json_array_replace_string_with_len_m ::
    "jaddr \<Rightarrow> nat \<Rightarrow> string option \<Rightarrow> nat \<Rightarrow> 'n jheap \<Rightarrow> (bool \<times> 'n jheap) c_result" where
  "json_array_replace_string_with_len_m a i str len h =
     c_bind (json_value_init_string_with_len_m str len h) (store_new_m (json_array_replace_value_m a i))"

definition json_array_replace_number_m :: "'n numlib \<Rightarrow> jaddr \<Rightarrow> nat \<Rightarrow> 'n \<Rightarrow> 'n jheap \<Rightarrow> (bool \<times> 'n jheap) c_result" where
  "json_array_replace_number_m L a i x h = store_new_m (json_array_replace_value_m a i) (json_value_init_number_m L x h)"

definition json_array_replace_boolean_m :: "jaddr \<Rightarrow> nat \<Rightarrow> int \<Rightarrow> 'n jheap \<Rightarrow> (bool \<times> 'n jheap) c_result" where
  "json_array_replace_boolean_m a i b h = store_new_m (json_array_replace_value_m a i) (json_value_init_boolean_m b h)"

definition json_array_replace_null_m :: "jaddr \<Rightarrow> nat \<Rightarrow> 'n jheap \<Rightarrow> (bool \<times> 'n jheap) c_result" where
  "json_array_replace_null_m a i h = store_new_m (json_array_replace_value_m a i) (json_value_init_null_m h)"

definition json_array_append_string_m :: "jaddr \<Rightarrow> string option \<Rightarrow> 'n jheap \<Rightarrow> (bool \<times> 'n jheap) c_result" where
  "json_array_append_string_m a str h = c_bind (json_value_init_string_m str h) (store_new_m (json_array_append_value_m a))"

definition json_array_append_string_with_len_m ::
    "jaddr \<Rightarrow> string option \<Rightarrow> nat \<Rightarrow> 'n jheap \<Rightarrow> (bool \<times> 'n jheap) c_result" where
  "json_array_append_string_with_len_m a str len h =
     c_bind (json_value_init_string_with_len_m str len h) (store_new_m (json_array_append_value_m a))"

definition json_array_append_number_m :: "'n numlib \<Rightarrow> jaddr \<Rightarrow> 'n \<Rightarrow> 'n jheap \<Rightarrow> (bool \<times> 'n jheap) c_result" where
  "json_array_append_number_m L a x h = store_new_m (json_array_append_value_m a) (json_value_init_number_m L x h)"

definition json_array_append_boolean_m :: "jaddr \<Rightarrow> int \<Rightarrow> 'n jheap \<Rightarrow> (bool \<times> 'n jheap) c_result" where
  "json_array_append_boolean_m a b h = store_new_m (json_array_append_value_m a) (json_value_init_boolean_m b h)"

definition json_array_append_null_m :: "jaddr \<Rightarrow> 'n jheap \<Rightarrow> (bool \<times> 'n jheap) c_result" where
  "json_array_append_null_m a h = store_new_m (json_array_append_value_m a) (json_value_init_null_m h)"

definition json_object_set_string_with_len_m ::
    "jaddr \<Rightarrow> string option \<Rightarrow> string option \<Rightarrow> nat \<Rightarrow> 'n jheap \<Rightarrow> (bool \<times> 'n jheap) c_result" where
  "json_object_set_string_with_len_m a name str len h = c_bind (json_value_init_string_with_len_m str len h) (set_new_m a name)"

definition json_object_dotset_string_m :: "jaddr \<Rightarrow> string \<Rightarrow> string option \<Rightarrow> 'n jheap \<Rightarrow> (bool \<times> 'n jheap) c_result" where
  "json_object_dotset_string_m a name str h =
     c_bind (json_value_init_string_m str h) (store_new_m (json_object_dotset_value_m a name))"

definition json_object_dotset_string_with_len_m ::
    "jaddr \<Rightarrow> string \<Rightarrow> string option \<Rightarrow> nat \<Rightarrow> 'n jheap \<Rightarrow> (bool \<times> 'n jheap) c_result" where
  "json_object_dotset_string_with_len_m a name str len h =
     c_bind (json_value_init_string_with_len_m str len h) (store_new_m (json_object_dotset_value_m a name))"

definition json_object_dotset_number_m :: "'n numlib \<Rightarrow> jaddr \<Rightarrow> string \<Rightarrow> 'n \<Rightarrow> 'n jheap \<Rightarrow> (bool \<times> 'n jheap) c_result" where
  "json_object_dotset_number_m L a name x h = store_new_m (json_object_dotset_value_m a name) (json_value_init_number_m L x h)"

definition json_object_dotset_boolean_m :: "jaddr \<Rightarrow> string \<Rightarrow> int \<Rightarrow> 'n jheap \<Rightarrow> (bool \<times> 'n jheap) c_result" where
  "json_object_dotset_boolean_m a name b h = store_new_m (json_object_dotset_value_m a name) (json_value_init_boolean_m b h)"

definition json_object_dotset_null_m :: "jaddr \<Rightarrow> string \<Rightarrow> 'n jheap \<Rightarrow> (bool \<times> 'n jheap) c_result" where
  "json_object_dotset_null_m a name h = store_new_m (json_object_dotset_value_m a name) (json_value_init_null_m h)"

section \<open>Storing what is built\<close>

text \<open>
  The outcome for an array: its items become those of \<open>xs\<close>, or the value could not be had or stored, which takes a
  refused allocation, and the array is as it was.
\<close>

definition array_becomes where
  "array_becomes m bs p t xs r \<longleftrightarrow> (\<exists>ok h u. r = Inr (ok, h) \<and> tree_ok u \<and> root u = root t \<and> holds m (blocks p u @ bs) h \<and>
     (if ok then value_of u = VArray xs else u = t \<and> budget h = 0))"

lemma array_becomes_failed: "tree_ok t \<Longrightarrow> holds m (blocks p t @ bs) h \<Longrightarrow> budget h = 0 \<Longrightarrow> array_becomes m bs p t xs (Inr (False, h))"
  unfolding array_becomes_def by (intro exI [of _ False] exI [of _ h] exI [of _ t]) simp

lemma array_becomes_stored:
  "tree_ok u \<Longrightarrow> root u = root t \<Longrightarrow> value_of u = VArray xs \<Longrightarrow> holds m (blocks p u @ bs) h \<Longrightarrow> array_becomes m bs p t xs (Inr (True, h))"
  unfolding array_becomes_def by (intro exI [of _ True] exI [of _ h] exI [of _ u]) simp

text \<open>A value that was built is beside the array.\<close>

lemma built_cases:
  assumes "builds m (blocks p t @ bs) h k v h1 x"
  obtains (null) "v = 0" "holds m (blocks p t @ bs) h1" "budget h1 = 0"
  | (built) u where "v = root u" "v \<noteq> 0" "tree_ok u" "value_of u = x" "holds m (blocks p t @ blocks 0 u @ bs) h1"
proof -
  from assms consider "v = 0" "holds m (blocks p t @ bs) h1" "budget h1 = 0"
    | u where "v = root u" "v \<noteq> 0" "tree_ok u" "value_of u = x" "holds m (blocks 0 u @ blocks p t @ bs) h1"
    unfolding builds_def by metis
  then show thesis
  proof cases
    case (2 u)
    have "holds m (blocks p t @ blocks 0 u @ bs) h1" by (rule holds_perm [OF 2(5)]) (simp add: ac_simps)
    with 2 show thesis by (intro built)
  qed (rule null)
qed

lemma root_parent:
  assumes "holds m (blocks 0 u @ bs) h"
  shows "json_value_get_parent (root u) h = Inr 0"
  using holds_head [of m "root u" _ "inner u @ bs" h] assms by (simp add: blocks_root [of 0 u] json_value_get_parent_def at_defs)

lemma append_new_tree:
  assumes b: "builds m (blocks p (TArray a ar is r ts) @ bs) h k v h1 x" and ok: "tree_ok (TArray a ar is r ts)"
  shows "array_becomes m bs p (TArray a ar is r ts) (map value_of ts @ [x]) (store_new_m (json_array_append_value_m ar) (v, h1))"
proof (cases rule: built_cases [OF b])
  case 1
  then show ?thesis using ok by (simp add: store_new_m_def array_becomes_failed)
next
  case (2 u)
  note built = 2
  let ?t = "TArray a ar is r ts"
  have f: "holds m (blocks 0 u @ blocks p ?t @ bs) h1" by (rule holds_perm [OF built(5)]) (simp add: ac_simps)
  have par: "json_value_get_parent (root u) h1 = Inr 0" by (rule root_parent [OF f])
  have "ar \<noteq> 0" using ok by auto
  with par built(1,2) have add: "json_array_append_value_m ar v h1 = json_array_add_m ar (root u) h1"
    by (simp add: json_array_append_value_m_def)
  show ?thesis
  proof (cases rule: array_add_tree [OF built(5) ok built(3)])
    case 1
    note refused = 1
    from free_tree [OF f built(3)] obtain h2 where "json_value_free (root u) h1 = Inr h2" "budget h2 = budget h1"
      "holds m (blocks p ?t @ bs) h2" by blast
    with built(1,2) add refused ok show ?thesis by (simp add: store_new_m_def array_becomes_failed)
  next
    case (2 h2 is' r')
    note added = 2
    have "array_becomes m bs p ?t (map value_of ts @ [x]) (Inr (True, h2))"
      by (rule array_becomes_stored [OF added(3) _ _ added(4)]) (simp_all add: built(4))
    with built(2) add added(1) show ?thesis by (simp add: store_new_m_def)
  qed
qed

lemma replace_new_tree:
  assumes b: "builds m (blocks p (TArray a ar is r ts) @ bs) h k v h1 x" and ok: "tree_ok (TArray a ar is r ts)" and i: "i < length ts"
  shows "array_becomes m bs p (TArray a ar is r ts) ((map value_of ts)[i := x]) (store_new_m (json_array_replace_value_m ar i) (v, h1))"
proof (cases rule: built_cases [OF b])
  case 1
  then show ?thesis using ok by (simp add: store_new_m_def array_becomes_failed)
next
  case (2 u)
  note built = 2
  obtain pre t0 post where ts: "ts = pre @ t0 # post" "length pre = i" using i id_take_nth_drop [OF i] by (metis length_take min.absorb4)
  from array_replace_tree [OF _ _ built(3)] built(5) ok obtain h2 where h2: "json_array_replace_value_m ar i (root u) h1 = Inr (True, h2)"
    "tree_ok (TArray a ar is r (pre @ u # post))" "holds m (blocks p (TArray a ar is r (pre @ u # post)) @ bs) h2"
    unfolding ts(1) ts(2) [symmetric] by blast
  have "array_becomes m bs p (TArray a ar is r ts) ((map value_of ts)[i := x]) (Inr (True, h2))"
    by (rule array_becomes_stored [OF h2(2) _ _ h2(3)]) (use ts built(4) in \<open>auto simp: list_update_append\<close>)
  with built(1,2) h2(1) show ?thesis by (simp add: store_new_m_def)
qed

text \<open>Outside of the array nothing is stored, and the value that was built is freed.\<close>

lemma replace_new_outside:
  assumes b: "builds m (blocks p (TArray a ar is r ts) @ bs) h k v h1 x" and i: "length ts \<le> i"
  shows "\<exists>h'. store_new_m (json_array_replace_value_m ar i) (v, h1) = Inr (False, h') \<and> holds m (blocks p (TArray a ar is r ts) @ bs) h'"
proof (cases rule: built_cases [OF b])
  case 1
  then show ?thesis by (simp add: store_new_m_def)
next
  case (2 u)
  note built = 2
  let ?t = "TArray a ar is r ts"
  have f: "holds m (blocks 0 u @ blocks p ?t @ bs) h1" by (rule holds_perm [OF built(5)]) (simp add: ac_simps)
  have "json_array_replace_value_m ar i v h1 = Inr (False, h1)"
    using i built(1) root_parent [OF f] array_at_tree [OF built(5)]
    by (simp add: json_array_replace_value_m_def json_array_get_count_m_def)
  moreover from free_tree [OF f built(3)] obtain h2 where "json_value_free (root u) h1 = Inr h2" "holds m (blocks p ?t @ bs) h2" by blast
  ultimately show ?thesis using built(1,2) by (simp add: store_new_m_def)
qed

section \<open>The setters of arrays\<close>

lemma init_string_valid:
  assumes "holds m bs h" "is_valid_utf8 s (length s)"
  obtains v h' where "json_value_init_string_m (Some s) h = Inr (v, h')" "builds m bs h 2 v h' (VString s)"
  using init_string_result [OF assms order_refl] by (auto simp: json_value_init_string_m_def)

lemma append_string_tree:
  assumes "holds m (blocks p (TArray a ar is r ts) @ bs) h" "tree_ok (TArray a ar is r ts)" "is_valid_utf8 s (length s)"
  shows "array_becomes m bs p (TArray a ar is r ts) (map value_of ts @ [VString s]) (json_array_append_string_m ar (Some s) h)"
proof -
  from init_string_valid [OF assms(1,3)] obtain v h' where "json_value_init_string_m (Some s) h = Inr (v, h')"
    "builds m (blocks p (TArray a ar is r ts) @ bs) h 2 v h' (VString s)" by blast
  with append_new_tree [OF this(2) assms(2)] show ?thesis by (simp add: json_array_append_string_m_def)
qed

lemma append_number_tree:
  assumes "holds m (blocks p (TArray a ar is r ts) @ bs) h" "tree_ok (TArray a ar is r ts)" "\<not> num_invalid L x"
  shows "array_becomes m bs p (TArray a ar is r ts) (map value_of ts @ [VNumber x]) (json_array_append_number_m L ar x h)"
  unfolding json_array_append_number_m_def
  by (cases "json_value_init_number_m L x h") (metis append_new_tree number_builds assms)

lemma append_boolean_tree:
  assumes "holds m (blocks p (TArray a ar is r ts) @ bs) h" "tree_ok (TArray a ar is r ts)"
  shows "array_becomes m bs p (TArray a ar is r ts) (map value_of ts @ [VBoolean (b \<noteq> 0)]) (json_array_append_boolean_m ar b h)"
  unfolding json_array_append_boolean_m_def
  by (cases "json_value_init_boolean_m b h") (metis append_new_tree boolean_builds assms)

lemma append_null_tree:
  assumes "holds m (blocks p (TArray a ar is r ts) @ bs) h" "tree_ok (TArray a ar is r ts)"
  shows "array_becomes m bs p (TArray a ar is r ts) (map value_of ts @ [VNull]) (json_array_append_null_m ar h)"
  unfolding json_array_append_null_m_def
  by (cases "json_value_init_null_m h") (metis append_new_tree null_builds assms)

lemma replace_string_tree:
  assumes "holds m (blocks p (TArray a ar is r ts) @ bs) h" "tree_ok (TArray a ar is r ts)" "is_valid_utf8 s (length s)" "i < length ts"
  shows "array_becomes m bs p (TArray a ar is r ts) ((map value_of ts)[i := VString s]) (json_array_replace_string_m ar i (Some s) h)"
proof -
  from init_string_valid [OF assms(1,3)] obtain v h' where "json_value_init_string_m (Some s) h = Inr (v, h')"
    "builds m (blocks p (TArray a ar is r ts) @ bs) h 2 v h' (VString s)" by blast
  with replace_new_tree [OF this(2) assms(2,4)] show ?thesis by (simp add: json_array_replace_string_m_def)
qed

lemma replace_number_tree:
  assumes "holds m (blocks p (TArray a ar is r ts) @ bs) h" "tree_ok (TArray a ar is r ts)" "\<not> num_invalid L x" "i < length ts"
  shows "array_becomes m bs p (TArray a ar is r ts) ((map value_of ts)[i := VNumber x]) (json_array_replace_number_m L ar i x h)"
  unfolding json_array_replace_number_m_def
  by (cases "json_value_init_number_m L x h") (metis replace_new_tree number_builds assms)

text \<open>A string that is not UTF-8 is not built, and nothing changes.\<close>

lemma append_string_invalid:
  "\<not> is_valid_utf8 s (length s) \<Longrightarrow> json_array_append_string_m a (Some s) h = Inr (False, h)"
  by (simp add: json_array_append_string_m_def json_value_init_string_m_def json_value_init_string_with_len_m_def store_new_m_def)

end
