(* ===== verification/JsonHeapCopy.thy ===== *)
theory JsonHeapCopy
  imports JsonHeapArray JsonOps
begin

text \<open>
  \<open>json_value_deep_copy\<close> of \<^verbatim>\<open>Tema_3/parson.c\<close> on the heap. The copy is built of blocks of its own beside those of the
  source, which is only read; where an allocation is refused all that was built is freed.
\<close>

section \<open>The code\<close>

type_synonym 'n heap_copier = "jaddr \<Rightarrow> 'n jheap \<Rightarrow> (jaddr \<times> 'n jheap) c_result"

definition json_object_get_name_m :: "jaddr \<Rightarrow> nat \<Rightarrow> 'n jheap \<Rightarrow> jaddr c_result" where
  "json_object_get_name_m a ix h =
     c_bind (json_object_get_count_m a h) (\<lambda>n.
       if a = 0 \<or> ix \<ge> n then Inr 0 else c_bind (object_at a h) (\<lambda>ob. slot_at (obj_names ob) ix h))"

text \<open>A name is passed as its address; the functions on C strings see its characters.\<close>

definition name_at :: "jaddr \<Rightarrow> 'n jheap \<Rightarrow> string option c_result" where
  "name_at c h = (if c = 0 then Inr None else c_bind (chars_at c h) (\<lambda>s. Inr (Some (c_chars s))))"

text \<open>The loops, over the elements from \<open>i\<close> on; the source keeps its count while it is copied.\<close>

fun copy_items_m :: "'n heap_copier \<Rightarrow> jaddr \<Rightarrow> jaddr \<Rightarrow> jaddr \<Rightarrow> nat \<Rightarrow> nat \<Rightarrow> 'n jheap \<Rightarrow> (jaddr \<times> 'n jheap) c_result" where
  "copy_items_m cv temp_array return_value temp_array_copy i 0 h = Inr (return_value, h)"
| "copy_items_m cv temp_array return_value temp_array_copy i (Suc k) h =
     c_bind (json_array_get_value_m temp_array i h) (\<lambda>v.
     c_bind (cv v h) (\<lambda>(copy, h).
       if copy = 0 then c_bind (json_value_free return_value h) (\<lambda>h. Inr (0, h))
       else c_bind (json_array_add_m temp_array_copy copy h) (\<lambda>(ok, h).
         if \<not> ok then c_bind (json_value_free return_value h) (\<lambda>h. c_bind (json_value_free copy h) (\<lambda>h. Inr (0, h)))
         else copy_items_m cv temp_array return_value temp_array_copy (Suc i) k h)))"

fun copy_members_m :: "'n heap_copier \<Rightarrow> jaddr \<Rightarrow> jaddr \<Rightarrow> jaddr \<Rightarrow> nat \<Rightarrow> nat \<Rightarrow> 'n jheap \<Rightarrow> (jaddr \<times> 'n jheap) c_result" where
  "copy_members_m cv temp_object return_value temp_object_copy i 0 h = Inr (return_value, h)"
| "copy_members_m cv temp_object return_value temp_object_copy i (Suc k) h =
     c_bind (json_object_get_name_m temp_object i h) (\<lambda>c.
     c_bind (name_at c h) (\<lambda>key.
     c_bind (json_object_get_value_m temp_object key h) (\<lambda>v.
     c_bind (cv v h) (\<lambda>(copy, h).
       if copy = 0 then c_bind (json_value_free return_value h) (\<lambda>h. Inr (0, h))
       else c_bind (json_object_add_m temp_object_copy key copy h) (\<lambda>(ok, h).
         if \<not> ok then c_bind (json_value_free return_value h) (\<lambda>h. c_bind (json_value_free copy h) (\<lambda>h. Inr (0, h)))
         else copy_members_m cv temp_object return_value temp_object_copy (Suc i) k h)))))"

definition copy_string_m :: "jaddr \<Rightarrow> nat \<Rightarrow> 'n jheap \<Rightarrow> (jaddr \<times> 'n jheap) c_result" where
  "copy_string_m c len h =
     c_bind (chars_at c h) (\<lambda>s.
       let (temp_string_copy, h) = parson_strndup s len h
       in if temp_string_copy = 0 then Inr (0, h)
          else let (v, h) = json_value_init_string_no_copy temp_string_copy len h
            in if v = 0 then c_bind (parson_free temp_string_copy h) (\<lambda>h. Inr (0, h)) else Inr (v, h))"

text \<open>The recursion is cut at as many levels as there can be blocks.\<close>

fun copy_value_m :: "'n numlib \<Rightarrow> nat \<Rightarrow> 'n heap_copier" where
  "copy_value_m L 0 a h = Inl OutOfFuel"
| "copy_value_m L (Suc n) a h =
     (if a = 0 then Inr (0, h)
      else c_bind (value_at a h) (\<lambda>v. case payload v of
          PArray ar \<Rightarrow>
            c_bind (json_value_init_array_m h) (\<lambda>(r, h).
              if r = 0 then Inr (0, h)
              else c_bind (json_value_get_array_m r h) (\<lambda>temp_array_copy.
                   c_bind (json_array_get_count_m ar h) (\<lambda>k.
                     copy_items_m (copy_value_m L n) ar r temp_array_copy 0 k h)))
        | PObject ob \<Rightarrow>
            c_bind (json_value_init_object_m h) (\<lambda>(r, h).
              if r = 0 then Inr (0, h)
              else c_bind (json_value_get_object_m r h) (\<lambda>temp_object_copy.
                   c_bind (json_object_get_count_m ob h) (\<lambda>k.
                     copy_members_m (copy_value_m L n) ob r temp_object_copy 0 k h)))
        | PBoolean b \<Rightarrow> Inr (json_value_init_boolean_m (of_bool b) h)
        | PNumber x \<Rightarrow> Inr (json_value_init_number_m L x h)
        | PString c len \<Rightarrow> copy_string_m c len h
        | PNull \<Rightarrow> Inr (json_value_init_null_m h)))"

definition json_value_deep_copy_m :: "'n numlib \<Rightarrow> 'n heap_copier" where
  "json_value_deep_copy_m L a h = copy_value_m L (next_addr h) a h"

section \<open>The specification\<close>

text \<open>Blocks among those the heap holds may be brought to the front.\<close>

lemma holds_split:
  assumes "holds m bs h" "mset xs \<subseteq># mset bs"
  obtains rest where "holds m (xs @ rest) h"
proof -
  obtain rest where "mset rest = mset bs - mset xs" using ex_mset by blast
  then have "mset (xs @ rest) = mset bs" using assms(2) by simp
  from holds_perm [OF assms(1) this] show thesis by (rule that)
qed

text \<open>
  The result of a copy: a tree of new blocks with the value, or null with nothing added, and then the memory was
  used up.
\<close>

definition copied :: "(jaddr \<Rightarrow> 'n block option) \<Rightarrow> (jaddr \<times> 'n block) list \<Rightarrow> 'n json_value \<Rightarrow> (jaddr \<times> 'n jheap) c_result \<Rightarrow> bool" where
  "copied m bs v r \<longleftrightarrow> (\<exists>a h'. r = Inr (a, h') \<and>
     (a = 0 \<and> holds m bs h' \<and> budget h' = 0 \<or>
      (\<exists>t. a = root t \<and> tree_ok t \<and> value_of t = v \<and> holds m (blocks 0 t @ bs) h')))"

lemma copied_null: "holds m bs h \<Longrightarrow> budget h = 0 \<Longrightarrow> copied m bs v (Inr (0, h))"
  by (simp add: copied_def)

lemma copied_tree: "tree_ok t \<Longrightarrow> holds m (blocks 0 t @ bs) h \<Longrightarrow> root t = a \<Longrightarrow> value_of t = v \<Longrightarrow> copied m bs v (Inr (a, h))"
  by (auto simp: copied_def)

lemma copied_cases:
  assumes "copied m bs v r"
  obtains (null) h' where "r = Inr (0, h')" "holds m bs h'" "budget h' = 0"
  | (copy) t h' where "r = Inr (root t, h')" "root t \<noteq> 0" "tree_ok t" "value_of t = v" "holds m (blocks 0 t @ bs) h'"
proof -
  from assms obtain a h' where r: "r = Inr (a, h')" "a = 0 \<and> holds m bs h' \<and> budget h' = 0 \<or>
      (\<exists>t. a = root t \<and> tree_ok t \<and> value_of t = v \<and> holds m (blocks 0 t @ bs) h')"
    unfolding copied_def by blast
  from r(2) show thesis
  proof (elim disjE exE conjE)
    fix t assume "a = root t" "tree_ok t" "value_of t = v" "holds m (blocks 0 t @ bs) h'"
    with r(1) root_nonzero show thesis by (intro copy) auto
  qed (use r(1) null in simp)
qed

lemma copied_builds: "builds m bs h k a h' v \<Longrightarrow> copied m bs v (Inr (a, h'))"
  unfolding builds_def copied_def by (elim conjE disjE) auto

definition copies :: "'n heap_copier \<Rightarrow> jaddr \<Rightarrow> 'n jtree \<Rightarrow> bool" where
  "copies cv p t \<longleftrightarrow> (\<forall>m bs h. holds m bs h \<longrightarrow> mset (blocks p t) \<subseteq># mset bs \<longrightarrow> copied m bs (value_of t) (cv (root t) h))"

text \<open>A step of either loop that fails: the copy so far, and what could not be added, are freed.\<close>

lemma abandon_tree:
  assumes "holds m (blocks p t @ bs) h" "tree_ok t" "budget h = 0"
  shows "copied m bs v (c_bind (json_value_free (root t) h) (\<lambda>h. Inr (0, h)))"
proof -
  from free_tree [OF assms(1,2)] obtain h' where "json_value_free (root t) h = Inr h'" "holds m bs h'" "budget h' = budget h" by blast
  with assms(3) show ?thesis by (simp add: copied_null)
qed

lemma abandon_trees:
  assumes "holds m (blocks p t @ blocks q u @ bs) h" "tree_ok t" "tree_ok u" "budget h = 0"
  shows "copied m bs v (c_bind (json_value_free (root t) h) (\<lambda>h. c_bind (json_value_free (root u) h) (\<lambda>h. Inr (0, h))))"
proof -
  from free_tree [OF assms(1,2)] obtain h' where "json_value_free (root t) h = Inr h'" "holds m (blocks q u @ bs) h'"
    "budget h' = budget h" by blast
  with abandon_tree [OF this(2) assms(3)] assms(4) show ?thesis by simp
qed

text \<open>The blocks of a part of a value are among its blocks.\<close>

lemma sub_front: "mset xs \<subseteq># mset (xs @ zs)"
  by simp

lemma sub_append: "mset xs \<subseteq># mset bs \<Longrightarrow> mset xs \<subseteq># mset (ys @ bs)"
  using subset_mset.order_trans [OF _ mset_subset_eq_add_right [of "mset bs" "mset ys"]] by simp

lemma sub_Cons: "mset xs \<subseteq># mset bs \<Longrightarrow> mset xs \<subseteq># mset (b # bs)"
  using sub_append [of xs bs "[b]"] by simp

lemma item_in_array: "mset (blocks a t) \<subseteq># mset (blocks p (TArray a ar its r (pre @ t # post)))"
  unfolding blocks_array item_blocks_append item_blocks.simps by (rule sub_front | rule sub_Cons | rule sub_append)+

lemma member_in_object: "mset (blocks a t) \<subseteq># mset (blocks p (TObject a ob ns vs nr vr (pre @ (c, k, t) # post)))"
  unfolding blocks_object member_blocks_append member_blocks.simps by (rule sub_front | rule sub_Cons | rule sub_append)+

section \<open>Arrays\<close>

lemma item_read:
  assumes "holds m bs h" "mset (blocks p (TArray a ar its r ts)) \<subseteq># mset bs" "tree_ok (TArray a ar its r ts)"
  shows "json_array_get_value_m ar ix h = Inr (if ix < length ts then root (ts ! ix) else 0)"
    and "json_array_get_count_m ar h = Inr (length ts)"
proof -
  obtain rest where r: "holds m (blocks p (TArray a ar its r ts) @ rest) h" using assms(1,2) by (rule holds_split)
  show "json_array_get_value_m ar ix h = Inr (if ix < length ts then root (ts ! ix) else 0)" by (rule array_get_tree [OF r assms(3)])
  show "json_array_get_count_m ar h = Inr (length ts)" using array_at_tree [OF r] by (simp add: json_array_get_count_m_def)
qed

lemma copy_items_copied:
  assumes "\<forall>t \<in> set rest. copies cv a t" "tree_ok (TArray a ar its r (pre @ rest))"
    and "mset (blocks p (TArray a ar its r (pre @ rest))) \<subseteq># mset bs"
    and "holds m (blocks 0 (TArray A AR its' r' ts') @ bs) h" "tree_ok (TArray A AR its' r' ts')"
    and "map value_of ts' = map value_of pre"
  shows "copied m bs (VArray (map value_of (pre @ rest))) (copy_items_m cv ar A AR (length pre) (length rest) h)"
  using assms
proof (induction rest arbitrary: pre its' r' ts' h)
  case Nil
  have "copied m bs (VArray (map value_of pre)) (Inr (A, h))"
    by (rule copied_tree [OF Nil.prems(5,4)]) (simp_all add: Nil.prems(6))
  then show ?case by simp
next
  case (Cons t rest)
  let ?dst = "blocks 0 (TArray A AR its' r' ts')"
  note src = Cons.prems(2,3) and dst = Cons.prems(4,5)
  have src': "mset (blocks p (TArray a ar its r (pre @ t # rest))) \<subseteq># mset (?dst @ bs)"
    using src(2) by (rule sub_append)
  have get: "json_array_get_value_m ar (length pre) h = Inr (root t)"
    using item_read(1) [OF dst(1) src' src(1), of "length pre"] by simp
  have "mset (blocks a t) \<subseteq># mset (?dst @ bs)"
    by (rule subset_mset.order_trans [OF item_in_array src'])
  then have "copied m (?dst @ bs) (value_of t) (cv (root t) h)"
    using Cons.prems(1) dst(1) by (simp add: copies_def)
  then show ?case
  proof (cases rule: copied_cases)
    case (null h1)
    with get abandon_tree [OF null(2) dst(2) null(3)] show ?thesis by simp
  next
    case (copy u h1)
    have h1: "holds m (?dst @ blocks 0 u @ bs) h1" by (rule holds_perm [OF copy(5)]) (simp add: ac_simps)
    show ?thesis
    proof (cases rule: array_add_tree [OF h1 dst(2) copy(3)])
      case 1
      with get copy(1,2) abandon_trees [OF h1 dst(2) copy(3) 1(2)] show ?thesis by simp
    next
      case (2 h2 its2 r2)
      have "copied m bs (VArray (map value_of ((pre @ [t]) @ rest))) (copy_items_m cv ar A AR (length (pre @ [t])) (length rest) h2)"
        by (rule Cons.IH [OF _ _ _ 2(4,3)]) (use Cons.prems copy(4) in auto)
      with get copy(1,2) 2(1) show ?thesis by simp
    qed
  qed
qed

section \<open>Objects\<close>

lemma member_read:
  assumes "holds m bs h" "mset (blocks p (TObject a ob ns vs nr vr (pre @ (c, k, t) # post))) \<subseteq># mset bs"
    and "tree_ok (TObject a ob ns vs nr vr (pre @ (c, k, t) # post))"
  shows "json_object_get_name_m ob (length pre) h = Inr c" "name_at c h = Inr (Some k)"
    and "json_object_get_value_m ob (Some k) h = Inr (root t)"
proof -
  let ?ms = "pre @ (c, k, t) # post"
  obtain rest where r: "holds m (blocks p (TObject a ob ns vs nr vr ?ms) @ rest) h" using assms(1,2) by (rule holds_split)
  note o = object_at_tree [OF r]
  have nz: "ns \<noteq> 0" using assms(3) by auto
  then have "(ns, SlotsBlock (map Some (map fst ?ms) @ nr)) \<in> set (blocks p (TObject a ob ns vs nr vr ?ms) @ rest)"
    by (simp add: blocks_object slots_block_def comp_def)
  from slot_at_eq [OF holds_at [OF r this], of "length pre"]
  have "slot_at ns (length pre) h = Inr c" by (simp add: nth_append)
  with o show "json_object_get_name_m ob (length pre) h = Inr c"
    by (simp add: json_object_get_name_m_def json_object_get_count_m_def)
  have "(c, CharsBlock k) \<in> set (blocks p (TObject a ob ns vs nr vr ?ms) @ rest)" by (simp add: blocks_object)
  from holds_at [OF r this] have "c \<noteq> 0" "chars_at c h = Inr k" by (simp_all add: at_defs)
  moreover have "NUL \<notin> set k" using assms(3) by auto
  ultimately show "name_at c h = Inr (Some k)" by (simp add: name_at_def)
  have "k \<notin> (\<lambda>m. fst (snd m)) ` set pre" using assms(3) by auto
  then have "map_of (map (\<lambda>(c, k, t). (k, root t)) pre) k = None" by (force simp: map_of_eq_None_iff)
  then have "map_of (map (\<lambda>(c, k, t). (k, root t)) ?ms) k = Some (root t)" by (simp add: map_add_def)
  with getn_value_tree [OF r assms(3), of k] o show "json_object_get_value_m ob (Some k) h = Inr (root t)"
    by (simp add: json_object_get_value_m_def)
qed

lemma count_read:
  assumes "holds m bs h" "mset (blocks p (TObject a ob ns vs nr vr ms)) \<subseteq># mset bs"
  shows "json_object_get_count_m ob h = Inr (length ms)"
proof -
  obtain rest where r: "holds m (blocks p (TObject a ob ns vs nr vr ms) @ rest) h" using assms by (rule holds_split)
  show ?thesis using object_at_tree [OF r] by (simp add: json_object_get_count_m_def)
qed

lemma names_of: "map fst (members_of ms) = map (\<lambda>m. fst (snd m)) ms"
  by (simp add: members_of_def comp_def split_def)

lemma copy_members_copied:
  assumes "\<forall>(c, k, t) \<in> set rest. copies cv a t" "tree_ok (TObject a ob ns vs nr vr (pre @ rest))"
    and "mset (blocks p (TObject a ob ns vs nr vr (pre @ rest))) \<subseteq># mset bs"
    and "holds m (blocks 0 (TObject A OB ns' vs' nr' vr' ms') @ bs) h" "tree_ok (TObject A OB ns' vs' nr' vr' ms')"
    and "members_of ms' = members_of pre"
  shows "copied m bs (VObject (members_of (pre @ rest))) (copy_members_m cv ob A OB (length pre) (length rest) h)"
  using assms
proof (induction rest arbitrary: pre ns' vs' nr' vr' ms' h)
  case Nil
  have "copied m bs (VObject (members_of pre)) (Inr (A, h))"
    by (rule copied_tree [OF Nil.prems(5,4)]) (simp_all add: value_of_object Nil.prems(6) del: value_of.simps)
  then show ?case by simp
next
  case (Cons x rest)
  obtain c k t where x: "x = (c, k, t)" by (cases x)
  let ?dst = "blocks 0 (TObject A OB ns' vs' nr' vr' ms')"
  note src = Cons.prems(2,3) [unfolded x] and dst = Cons.prems(4,5)
  have src': "mset (blocks p (TObject a ob ns vs nr vr (pre @ (c, k, t) # rest))) \<subseteq># mset (?dst @ bs)"
    using src(2) by (rule sub_append)
  note get = member_read [OF dst(1) src' src(1)]
  have "mset (blocks a t) \<subseteq># mset (?dst @ bs)"
    by (rule subset_mset.order_trans [OF member_in_object src'])
  then have "copied m (?dst @ bs) (value_of t) (cv (root t) h)"
    using Cons.prems(1) dst(1) by (simp add: copies_def x)
  then show ?case
  proof (cases rule: copied_cases)
    case (null h1)
    with get abandon_tree [OF null(2) dst(2) null(3)] show ?thesis by (simp add: x)
  next
    case (copy u h1)
    have h1: "holds m (?dst @ blocks 0 u @ bs) h1" by (rule holds_perm [OF copy(5)]) (simp add: ac_simps)
    have k: "NUL \<notin> set k" using src(1) by auto
    have "map (\<lambda>m. fst (snd m)) ms' = map (\<lambda>m. fst (snd m)) pre" using Cons.prems(6) names_of by metis
    then have "(\<lambda>m. fst (snd m)) ` set ms' = (\<lambda>m. fst (snd m)) ` set pre" by (metis list.set_map)
    then have new: "k \<notin> (\<lambda>m. fst (snd m)) ` set ms'" using src(1) by auto
    show ?thesis
    proof (cases rule: addn_tree [OF h1 dst(2) copy(3) k])
      case (1 h2 ns2 vs2 nr2 vr2)
      with new have "budget h2 = 0" by blast
      with get copy(1,2) 1(1) abandon_trees [OF 1(5,4) copy(3)] show ?thesis by (simp add: x json_object_add_m_def)
    next
      case (2 h2 ns2 vs2 nr2 vr2 c2)
      have "copied m bs (VObject (members_of ((pre @ [x]) @ rest))) (copy_members_m cv ob A OB (length (pre @ [x])) (length rest) h2)"
        by (rule Cons.IH [OF _ _ _ 2(5,4)]) (use Cons.prems copy(4) in \<open>auto simp: x members_of_def\<close>)
      with get copy(1,2) 2(1) show ?thesis by (simp add: x json_object_add_m_def)
    qed
  qed
qed

section \<open>Values\<close>

lemma value_read:
  assumes "holds m bs h" "mset (blocks p t) \<subseteq># mset bs"
  shows "root t \<noteq> 0" "value_at (root t) h = Inr \<lparr>parent = p, payload = tree_payload t\<rparr>"
proof -
  have "(root t, ValueBlock \<lparr>parent = p, payload = tree_payload t\<rparr>) \<in> set bs"
    using mset_subset_eqD [OF assms(2)] by (simp add: blocks_root)
  from holds_at [OF assms(1) this] show "root t \<noteq> 0" "value_at (root t) h = Inr \<lparr>parent = p, payload = tree_payload t\<rparr>"
    by (simp_all add: at_defs)
qed

lemma copy_string_copied:
  assumes "holds m bs h" "(c, CharsBlock s) \<in> set bs"
  shows "copied m bs (VString s) (copy_string_m c (length s) h)"
proof -
  have s: "chars_at c h = Inr s" using holds_at [OF assms] by (simp add: at_defs)
  show ?thesis
  proof (cases rule: malloc_cases [OF assms(1), of "CharsBlock s"])
    case 1
    with s assms(1) show ?thesis by (simp add: copy_string_m_def parson_strndup_def copied_null)
  next
    case (2 c' h1)
    let ?v = "ValueBlock \<lparr>parent = 0, payload = PString c' (length s)\<rparr>"
    show ?thesis
    proof (cases rule: malloc_cases [OF 2(3), of ?v])
      case r: 1
      from free_block [OF 2(3)] obtain h2 where "parson_free c' h1 = Inr h2" "holds m bs h2" "budget h2 = budget h1" by blast
      with s 2(1,2) r show ?thesis
        by (simp add: copy_string_m_def parson_strndup_def json_value_init_string_no_copy_def new_value_def copied_null)
    next
      case g: (2 a h2)
      have "copied m bs (VString s) (Inr (a, h2))"
        by (rule copied_tree [where t = "TString a c' s"]) (use g 2(2) in simp_all)
      with s 2(1,2) g(1,2) show ?thesis
        by (simp add: copy_string_m_def parson_strndup_def json_value_init_string_no_copy_def new_value_def)
    qed
  qed
qed

lemma copy_array_copied:
  assumes "\<forall>t \<in> set ts. copies (copy_value_m L n) a t" "tree_ok (TArray a ar its r ts)"
  shows "copies (copy_value_m L (Suc n)) p (TArray a ar its r ts)"
  unfolding copies_def
proof (intro allI impI)
  fix m bs and h :: "'a jheap" assume h: "holds m bs h" and sub: "mset (blocks p (TArray a ar its r ts)) \<subseteq># mset bs"
  note v = value_read [OF h sub]
  obtain A h1 where i: "json_value_init_array_m h = Inr (A, h1)" "A = 0 \<and> holds m bs h1 \<and> budget h1 = 0 \<or>
      (\<exists>AR. A \<noteq> 0 \<and> AR \<noteq> 0 \<and> holds m (blocks 0 (TArray A AR 0 [] []) @ bs) h1)"
    using array_builds [OF h] by blast
  show "copied m bs (value_of (TArray a ar its r ts)) (copy_value_m L (Suc n) (root (TArray a ar its r ts)) h)"
  proof (cases "A = 0")
    case True
    with i v show ?thesis by (simp add: tree_payload_def copied_null)
  next
    case False
    with i(2) obtain AR where A: "A \<noteq> 0" "AR \<noteq> 0" "holds m (blocks 0 (TArray A AR 0 [] []) @ bs) h1" by blast
    have src: "mset (blocks p (TArray a ar its r ts)) \<subseteq># mset (blocks 0 (TArray A AR 0 [] []) @ bs)" using sub by (rule sub_append)
    have "json_value_get_array_m A h1 = Inr AR"
      using value_read [OF A(3) sub_front] by (simp add: json_value_get_array_m_def tree_payload_def)
    moreover have "json_array_get_count_m ar h1 = Inr (length ts)" by (rule item_read(2) [OF A(3) src assms(2)])
    moreover have "copied m bs (VArray (map value_of ([] @ ts))) (copy_items_m (copy_value_m L n) ar A AR (length ([] :: 'a jtree list)) (length ts) h1)"
      by (rule copy_items_copied [OF assms(1) _ _ A(3)]) (use assms(2) sub A in simp_all)
    ultimately show ?thesis using i(1) v A(1) by (simp add: tree_payload_def)
  qed
qed

lemma copy_object_copied:
  assumes "\<forall>(c, k, t) \<in> set ms. copies (copy_value_m L n) a t" "tree_ok (TObject a ob ns vs nr vr ms)"
  shows "copies (copy_value_m L (Suc n)) p (TObject a ob ns vs nr vr ms)"
  unfolding copies_def
proof (intro allI impI)
  let ?t = "TObject a ob ns vs nr vr ms"
  fix m bs and h :: "'a jheap" assume h: "holds m bs h" and sub: "mset (blocks p ?t) \<subseteq># mset bs"
  note v = value_read [OF h sub]
  obtain A h1 where i: "json_value_init_object_m h = Inr (A, h1)" "A = 0 \<and> holds m bs h1 \<and> budget h1 = 0 \<or>
      (\<exists>OB. A \<noteq> 0 \<and> OB \<noteq> 0 \<and> holds m (blocks 0 (TObject A OB 0 0 [] [] []) @ bs) h1)"
    using object_builds [OF h] by blast
  show "copied m bs (value_of ?t) (copy_value_m L (Suc n) (root ?t) h)"
  proof (cases "A = 0")
    case True
    with i v show ?thesis by (simp add: tree_payload_def copied_null)
  next
    case False
    with i(2) obtain OB where A: "A \<noteq> 0" "OB \<noteq> 0" "holds m (blocks 0 (TObject A OB 0 0 [] [] []) @ bs) h1" by blast
    have src: "mset (blocks p ?t) \<subseteq># mset (blocks 0 (TObject A OB 0 0 [] [] []) @ bs)" using sub by (rule sub_append)
    have "json_value_get_object_m A h1 = Inr OB"
      using value_read [OF A(3) sub_front] by (simp add: json_value_get_object_m_def tree_payload_def)
    moreover have "json_object_get_count_m ob h1 = Inr (length ms)" by (rule count_read [OF A(3) src])
    moreover have "copied m bs (VObject (members_of ([] @ ms)))
        (copy_members_m (copy_value_m L n) ob A OB (length ([] :: (jaddr \<times> string \<times> 'a jtree) list)) (length ms) h1)"
      by (rule copy_members_copied [OF assms(1) _ _ A(3)]) (use assms(2) sub A in simp_all)
    ultimately show ?thesis using i(1) v A(1) by (simp add: tree_payload_def value_of_object del: value_of.simps)
  qed
qed

lemma copy_value_copies:
  "tree_ok t \<Longrightarrow> json_valid L (value_of t) \<Longrightarrow> length (blocks p t) \<le> n \<Longrightarrow> copies (copy_value_m L n) p t"
proof (induction p t arbitrary: n rule: blocks.induct)
  case (1 p a)
  then obtain k where n: "n = Suc k" by (cases n) simp_all
  show ?case unfolding copies_def
  proof (intro allI impI)
    fix m bs and h :: "'a jheap" assume h: "holds m bs h" "mset (blocks p (TNull a)) \<subseteq># mset bs"
    obtain b h' where "json_value_init_null_m h = (b, h')" by fastforce
    with value_read [OF h] copied_builds [OF null_builds [OF h(1) this]]
    show "copied m bs (value_of (TNull a)) (copy_value_m L n (root (TNull a)) h)" by (simp add: n tree_payload_def)
  qed
next
  case (2 p a x)
  then obtain k where n: "n = Suc k" by (cases n) simp_all
  show ?case unfolding copies_def
  proof (intro allI impI)
    fix m bs and h :: "'a jheap" assume h: "holds m bs h" "mset (blocks p (TBoolean a x)) \<subseteq># mset bs"
    obtain b h' where "json_value_init_boolean_m (of_bool x) h = (b, h')" by fastforce
    with value_read [OF h] copied_builds [OF boolean_builds [OF h(1) this]]
    show "copied m bs (value_of (TBoolean a x)) (copy_value_m L n (root (TBoolean a x)) h)" by (simp add: n tree_payload_def)
  qed
next
  case (3 p a x)
  then obtain k where n: "n = Suc k" by (cases n) simp_all
  show ?case unfolding copies_def
  proof (intro allI impI)
    fix m bs and h :: "'a jheap" assume h: "holds m bs h" "mset (blocks p (TNumber a x)) \<subseteq># mset bs"
    obtain b h' where "json_value_init_number_m L x h = (b, h')" by fastforce
    with value_read [OF h] copied_builds [OF number_builds [OF h(1) _ this]] 3(2)
    show "copied m bs (value_of (TNumber a x)) (copy_value_m L n (root (TNumber a x)) h)" by (simp add: n tree_payload_def)
  qed
next
  case (4 p a c s)
  then obtain k where n: "n = Suc k" by (cases n) simp_all
  show ?case unfolding copies_def
  proof (intro allI impI)
    fix m bs and h :: "'a jheap" assume h: "holds m bs h" "mset (blocks p (TString a c s)) \<subseteq># mset bs"
    have "(c, CharsBlock s) \<in> set bs" using mset_subset_eqD [OF h(2)] by simp
    from copy_string_copied [OF h(1) this] value_read [OF h]
    show "copied m bs (value_of (TString a c s)) (copy_value_m L n (root (TString a c s)) h)" by (simp add: n tree_payload_def)
  qed
next
  case (5 p a ob ns vs nr vr ms)
  obtain k where n: "n = Suc k" using 5(4) by (cases n) (simp_all add: blocks_object)
  have k: "Suc (length (member_blocks a ms)) \<le> k" using 5(4) by (simp add: n blocks_object)
  have "copies (copy_value_m L k) a t" if "(c, key, t) \<in> set ms" for c key t
  proof (rule 5(1) [OF that refl refl])
    show "tree_ok t" "json_valid L (value_of t)" using 5(2,3) that by force+
    show "length (blocks a t) \<le> k" using length_member_block [OF that, of a] k by simp
  qed
  then show ?case unfolding n by (intro copy_object_copied 5(2)) auto
next
  case (6 p a ar its r ts)
  obtain k where n: "n = Suc k" using 6(4) by (cases n) (simp_all add: blocks_array)
  have k: "length (item_blocks a ts) \<le> k" using 6(4) by (simp add: n blocks_array)
  have "copies (copy_value_m L k) a t" if "t \<in> set ts" for t
    using 6(1) [OF that] 6(2,3) that length_item_block [OF that, of a] k by simp
  then show ?case unfolding n by (intro copy_array_copied 6(2)) blast
qed

lemma deep_copy_tree:
  assumes "holds m bs h" "mset (blocks p t) \<subseteq># mset bs" "tree_ok t" "json_valid L (value_of t)"
  shows "copied m bs (value_of t) (json_value_deep_copy_m L (root t) h)"
proof -
  have "length bs \<le> next_addr h" using assms(1) by (intro length_owned) (simp_all add: holds_def)
  then have "length (blocks p t) \<le> next_addr h" using size_mset_mono [OF assms(2)] by simp
  from copy_value_copies [OF assms(3,4) this] show ?thesis
    using assms(1,2) by (simp add: copies_def json_value_deep_copy_m_def)
qed

end
