(* ===== verification/JsonHeapCopyProps.thy ===== *)
theory JsonHeapCopyProps
  imports JsonHeapProps JsonHeapCopy
begin

text \<open>
  Copies on the heap of \<^verbatim>\<open>Tema_3/parson.c\<close> are values of their own, and a copy that cannot be finished leaves nothing behind.
\<close>

text \<open>
  C12: A deep copy consists of new blocks with the same value, apart from the source, which it leaves as it is and which may be
  part of a larger value; freeing the copy takes away exactly what was added. Whatever allocation is
  refused, the result is null with the memory as it was, and only then.
\<close>

theorem heap_deep_copy:
  assumes "holds m (blocks p t @ bs) h" "tree_ok t" "json_valid L (value_of t)"
  shows "\<exists>a h'. json_value_deep_copy_m L (root t) h = Inr (a, h') \<and>
    (if a = 0 then holds m (blocks p t @ bs) h' \<and> budget h' = 0
     else \<exists>u h''. a = root u \<and> value_of u = value_of t \<and> addrs u \<inter> (addrs t \<union> fst ` set bs) = {} \<and>
       holds m (blocks 0 u @ blocks p t @ bs) h' \<and> json_value_free a h' = Inr h'' \<and> holds m (blocks p t @ bs) h'')"
proof -
  have "copied m (blocks p t @ bs) (value_of t) (json_value_deep_copy_m L (root t) h)"
    by (rule deep_copy_tree [OF assms(1) sub_front assms(2,3)])
  then show ?thesis
  proof (cases rule: copied_cases)
    case (null h')
    then show ?thesis by simp
  next
    case (copy u h')
    from free_tree [OF copy(5,3)] obtain h'' where f: "json_value_free (root u) h' = Inr h''" "holds m (blocks p t @ bs) h''" by blast
    have "owned (mem h') (blocks 0 u @ blocks p t @ bs)" using copy(5) by (simp add: holds_def)
    then have "fst ` set (blocks 0 u) \<inter> fst ` set (blocks p t @ bs) = {}" unfolding owned_append [of _ "blocks 0 u"] by blast
    then have "addrs u \<inter> (addrs t \<union> fst ` set bs) = {}" by (simp add: addrs_eq image_Un)
    with copy f show ?thesis by (intro exI [of _ "root u"] exI [of _ h']) auto
  qed
qed

definition copy_heap :: "nat \<Rightarrow> int jheap" where
  "copy_heap n = heap_of (blocks 0 demo_tree) 7 n"

lemma copy_heap_holds: "holds Map.empty (blocks 0 demo_tree @ []) (copy_heap n)"
  unfolding copy_heap_def append_Nil2 by (rule holds_heap_of) (simp_all add: demo_tree_def blocks_object slots_block_def)

theorem heap_deep_copy_witness:
  "\<exists>u h'. json_value_deep_copy_m int_lib 1 (copy_heap 6) = Inr (root u, h') \<and> value_of u = VObject [(''id'', VNumber 7)] \<and>
    addrs u \<inter> {1, 2, 3, 4, 5, 6} = {} \<and> holds Map.empty (blocks 0 u @ blocks 0 demo_tree) h'"
proof -
  have "map_sum id fst (json_value_deep_copy_m int_lib 1 (copy_heap 6)) = Inr 7" by code_simp
  moreover have v: "json_valid int_lib (value_of demo_tree)" by (simp add: demo_tree_def int_lib_def)
  moreover have "root demo_tree = 1" "value_of demo_tree = VObject [(''id'', VNumber 7)]" "addrs demo_tree = {1, 2, 3, 4, 5, 6}"
    by (simp_all add: demo_tree_def addrs_def blocks_object slots_block_def insert_commute)
  ultimately show ?thesis using heap_deep_copy [OF copy_heap_holds demo_heap_ok(2) v, of 6] by auto
qed

end
