(* ===== verification/Buffer.thy ===== *)
theory Buffer
  imports CString
begin

text \<open>
  The byte buffer of \<^verbatim>\<open>Tema_3/buffer.c\<close>: storage on the heap, or none, and the number of bytes
  in it. The storage is exactly as long as its list; an access outside it fails.
\<close>

record buffer =
  bdata :: "string option"
  bsize :: nat

definition buffer_init :: buffer where
  "buffer_init = \<lparr>bdata = None, bsize = 0\<rparr>"

definition buffer_destroy :: "buffer \<Rightarrow> buffer" where
  "buffer_destroy b = b\<lparr>bdata := None, bsize := 0\<rparr>"

definition buffer_is_empty :: "buffer \<Rightarrow> bool" where
  "buffer_is_empty b \<longleftrightarrow> bdata b = None"

text \<open>
  The storage is grown to the new size, keeping its bytes, or allocated for the new bytes alone;
  then they are copied behind the old ones. Bytes \<open>realloc\<close> adds are not known before they are
  written: storage shorter than the size would leave some, and the model stops there.
\<close>

definition buffer_add :: "buffer \<Rightarrow> string \<Rightarrow> nat \<Rightarrow> buffer c_result" where
  "buffer_add b dat data_size =
     (if data_size > length dat then Inl OutOfBounds
      else case bdata b of
        Some d \<Rightarrow>
          if length d < bsize b then Inl BadPointer
          else Inr (b\<lparr>bdata := Some (take (bsize b) d @ take data_size dat), bsize := bsize b + data_size\<rparr>)
      | None \<Rightarrow>
          if bsize b + data_size > data_size then Inl OutOfBounds
          else Inr (b\<lparr>bdata := Some (take data_size dat), bsize := bsize b + data_size\<rparr>))"

text \<open>
  The search: the inner loop counts equal bytes from position \<open>i\<close> on, with \<open>k\<close> left to compare;
  the outer one tries \<open>k\<close> positions from \<open>i\<close> on. The position is returned as an \<open>int\<close>.
\<close>

fun match_count :: "(char \<Rightarrow> char) \<Rightarrow> string \<Rightarrow> string \<Rightarrow> nat \<Rightarrow> nat \<Rightarrow> nat \<Rightarrow> nat c_result" where
  "match_count f d dat i j 0 = Inr j"
| "match_count f d dat i j (Suc k) =
     (if i + j \<ge> length d \<or> j \<ge> length dat then Inl OutOfBounds
      else if f (d ! (i + j)) \<noteq> f (dat ! j) then Inr j
      else match_count f d dat i (Suc j) k)"

fun find_at :: "(char \<Rightarrow> char) \<Rightarrow> string \<Rightarrow> string \<Rightarrow> nat \<Rightarrow> nat \<Rightarrow> nat \<Rightarrow> int c_result" where
  "find_at f d dat data_size i 0 = Inr (-1)"
| "find_at f d dat data_size i (Suc k) =
     c_bind (match_count f d dat i 0 data_size) (\<lambda>j.
       if j = data_size then Inr (to_int32 (int i)) else find_at f d dat data_size (Suc i) k)"

definition storage :: "buffer \<Rightarrow> string" where
  "storage b = (case bdata b of None \<Rightarrow> [] | Some d \<Rightarrow> d)"

definition buffer_find :: "buffer \<Rightarrow> string \<Rightarrow> nat \<Rightarrow> int c_result" where
  "buffer_find b dat data_size =
     (if data_size > bsize b then Inr (-1)
      else find_at (\<lambda>c. c) (storage b) dat data_size 0 (bsize b - data_size + 1))"

definition buffer_find_insensitive :: "buffer \<Rightarrow> string \<Rightarrow> nat \<Rightarrow> int c_result" where
  "buffer_find_insensitive b dat data_size =
     (if data_size > bsize b then Inr (-1)
      else find_at to_lower (storage b) dat data_size 0 (bsize b - data_size + 1))"

section \<open>The bytes a buffer holds\<close>

definition buffer_rep :: "buffer \<Rightarrow> string \<Rightarrow> bool" where
  "buffer_rep b s \<longleftrightarrow> storage b = s \<and> bsize b = length s"

text \<open>What the functions that fill a buffer rely on.\<close>

locale byte_buffer =
  fixes rep :: "'b \<Rightarrow> string \<Rightarrow> bool"
    and new :: 'b
    and add :: "'b \<Rightarrow> string \<Rightarrow> nat \<Rightarrow> 'b c_result"
    and find :: "'b \<Rightarrow> string \<Rightarrow> nat \<Rightarrow> int c_result"
    and find_insensitive :: "'b \<Rightarrow> string \<Rightarrow> nat \<Rightarrow> int c_result"
  assumes rep_new: "rep new []"
    and rep_add: "rep b s \<Longrightarrow> \<exists>b'. add b t (length t) = Inr b' \<and> rep b' (s @ t)"
    and rep_find: "rep b s \<Longrightarrow> length s < 2 ^ 31 \<Longrightarrow> find b t (length t) = Inr (case strstr s t of None \<Rightarrow> -1 | Some i \<Rightarrow> int i)"
    and rep_find_insensitive: "rep b s \<Longrightarrow> length s < 2 ^ 31 \<Longrightarrow> find_insensitive b t (length t) =
      Inr (case strstr (map to_lower s) (map to_lower t) of None \<Rightarrow> -1 | Some i \<Rightarrow> int i)"
begin

text \<open>Filling a buffer chunk by chunk keeps the bytes in order, wherever they are cut.\<close>

fun adds :: "'b \<Rightarrow> string list \<Rightarrow> 'b c_result" where
  "adds b [] = Inr b"
| "adds b (t # ts) = c_bind (add b t (length t)) (\<lambda>b. adds b ts)"

lemma adds_rep: "rep b s \<Longrightarrow> \<exists>b'. adds b ts = Inr b' \<and> rep b' (s @ concat ts)"
proof (induction ts arbitrary: b s)
  case (Cons t ts)
  obtain b1 where "add b t (length t) = Inr b1" "rep b1 (s @ t)" using rep_add [OF Cons.prems] by blast
  with Cons.IH [of b1 "s @ t"] show ?case by simp
qed simp

lemma adds_find:
  assumes "length (concat ts) < 2 ^ 31"
  shows "\<exists>b. adds new ts = Inr b \<and> find b t (length t) = Inr (case strstr (concat ts) t of None \<Rightarrow> -1 | Some i \<Rightarrow> int i)"
  using adds_rep [OF rep_new, of ts] rep_find assms by fastforce

end

section \<open>The code's buffer\<close>

lemma to_int32_id: "- (2 ^ 31) \<le> x \<Longrightarrow> x < 2 ^ 31 \<Longrightarrow> to_int32 x = x"
  by (simp add: to_int32_def)

lemma match_count_eq:
  "i + n \<le> length d \<Longrightarrow> n \<le> length dat \<Longrightarrow> j + k = n \<Longrightarrow>
   \<exists>m. match_count f d dat i j k = Inr m \<and> m \<le> n \<and>
     (m = n \<longleftrightarrow> map f (take k (drop (i + j) d)) = map f (take k (drop j dat)))"
proof (induction k arbitrary: j)
  case (Suc k)
  have d: "drop (i + j) d = d ! (i + j) # drop (i + Suc j) d" and dat: "drop j dat = dat ! j # drop (Suc j) dat"
    using Suc.prems by (simp_all add: Cons_nth_drop_Suc)
  show ?case
  proof (cases "f (d ! (i + j)) = f (dat ! j)")
    case True
    with Suc.IH [of "Suc j"] Suc.prems show ?thesis unfolding d dat by simp
  next
    case False
    with Suc.prems show ?thesis unfolding d dat by simp
  qed
qed simp

lemma find_at_eq:
  "n = length dat \<Longrightarrow> n \<noteq> 0 \<or> k \<noteq> 0 \<Longrightarrow> length d < 2 ^ 31 \<Longrightarrow> i + n + k = length d + 1 \<Longrightarrow>
   find_at f d dat n i k = Inr (case strstr (map f (drop i d)) (map f dat) of None \<Rightarrow> -1 | Some j \<Rightarrow> int (i + j))"
proof (induction k arbitrary: i)
  case 0
  have "0 < n" using 0(2) by simp
  with 0(1,4) have "length d - i < length dat" by linarith
  then have "length (map f (drop i d)) < length (map f dat)" by simp
  then show ?case by (simp add: strstr_short)
next
  case (Suc k)
  obtain m where m: "match_count f d dat i 0 n = Inr m" "m \<le> n" "m = n \<longleftrightarrow> map f (take n (drop i d)) = map f dat"
    using match_count_eq [of i n d dat 0 n f] Suc.prems by auto
  have st: "m = n \<longleftrightarrow> starts_with (map f dat) (map f (drop i d))"
    using m(3) Suc.prems(1) by (simp add: starts_with_def take_map)
  have s: "strstr (map f (drop i d)) (map f dat) = (if m = n then Some 0
      else if i < length d then map_option Suc (strstr (map f (drop (Suc i) d)) (map f dat)) else None)"
    unfolding st using strstr_drop [of i "map f d" "map f dat"] Suc.prems(4) by (simp only: drop_map length_map)
  show ?case
  proof (cases "m = n")
    case True
    with m(1) s Suc.prems show ?thesis by (simp add: to_int32_id)
  next
    case False
    have "i < length d" "n \<noteq> 0" using Suc.prems(1,4) False m(2) by linarith+
    with False m(1) s Suc.IH [of "Suc i"] Suc.prems show ?thesis by (auto split: option.split)
  qed
qed

interpretation bb: byte_buffer buffer_rep buffer_init buffer_add buffer_find buffer_find_insensitive
proof unfold_locales
  show "buffer_rep buffer_init []" by (simp add: buffer_rep_def buffer_init_def storage_def)
next
  fix b s t
  assume "buffer_rep b s"
  then show "\<exists>b'. buffer_add b t (length t) = Inr b' \<and> buffer_rep b' (s @ t)"
    by (auto simp: buffer_rep_def buffer_add_def storage_def split: option.splits)
next
  fix b :: buffer and s t :: string
  assume b: "buffer_rep b s" "length s < 2 ^ 31"
  then show "buffer_find b t (length t) = Inr (case strstr s t of None \<Rightarrow> -1 | Some i \<Rightarrow> int i)"
    using find_at_eq [OF refl _ b(2), of t "length s - length t + 1" 0 "\<lambda>c. c"]
    by (auto simp: buffer_find_def buffer_rep_def strstr_short split: option.split)
  from b show "buffer_find_insensitive b t (length t) =
      Inr (case strstr (map to_lower s) (map to_lower t) of None \<Rightarrow> -1 | Some i \<Rightarrow> int i)"
    using find_at_eq [OF refl _ b(2), of t "length s - length t + 1" 0 to_lower]
    by (auto simp: buffer_find_insensitive_def buffer_rep_def strstr_short split: option.split)
qed

end
