(* ===== verification/Requests.thy ===== *)
theory Requests
  imports CString
begin

text \<open>
  The HTTP requests of \<^verbatim>\<open>Tema_3/requests.c\<close>, with \<open>compute_message\<close> of \<^verbatim>\<open>Tema_3/helpers.c\<close>. Both
  buffers have a fixed size: a line of \<open>LINELEN\<close> bytes \<open>sprintf\<close> writes to, and a message of
  \<open>BUFLEN\<close> bytes \<open>strcat\<close> appends to. Neither call checks it: running over is the error
  \<open>OutOfBounds\<close>.
\<close>

definition BUFLEN :: nat where "BUFLEN = 4096"
definition LINELEN :: nat where "LINELEN = 1000"

abbreviation CR :: char where "CR \<equiv> CHR 0x0D"
abbreviation LF :: char where "LF \<equiv> CHR 0x0A"
abbreviation CRLF :: string where "CRLF \<equiv> [CR, LF]"

definition compute_message :: "string \<Rightarrow> string \<Rightarrow> string c_result" where
  "compute_message message line =
     (if length message + length line + 2 < BUFLEN then Inr (message @ line @ CRLF) else Inl OutOfBounds)"

definition sprintf_line :: "string \<Rightarrow> string c_result" where
  "sprintf_line s = (if length s < LINELEN then Inr s else Inl OutOfBounds)"

definition add_line :: "string \<Rightarrow> string \<Rightarrow> string c_result" where
  "add_line message s = c_bind (sprintf_line s) (compute_message message)"

text \<open>A header that is written where its value is not \<open>NULL\<close>.\<close>

definition add_header :: "string \<Rightarrow> string \<Rightarrow> string option \<Rightarrow> string \<Rightarrow> string c_result" where
  "add_header message name value suffix =
     (case value of None \<Rightarrow> Inr message | Some v \<Rightarrow> add_line message (name @ v @ suffix))"

definition compute_get_request :: "string \<Rightarrow> string \<Rightarrow> string option \<Rightarrow> string option \<Rightarrow> string c_result" where
  "compute_get_request host url cookies token =
     c_bind (add_line [] (''GET '' @ url @ '' HTTP/1.1'')) (\<lambda>message.
     c_bind (add_line message (''Host: '' @ host)) (\<lambda>message.
     c_bind (add_header message ''Cookie: '' cookies ''; '') (\<lambda>message.
     c_bind (add_header message ''Authorization: Bearer '' token []) (\<lambda>message.
       compute_message message []))))"

definition compute_post_request ::
    "string \<Rightarrow> string \<Rightarrow> string option \<Rightarrow> string \<Rightarrow> string \<Rightarrow> string option \<Rightarrow> string c_result" where
  "compute_post_request host url token content_type body_data cookies =
     c_bind (add_line [] (''POST '' @ url @ '' HTTP/1.1'')) (\<lambda>message.
     c_bind (add_line message (''Host: '' @ host)) (\<lambda>message.
     c_bind (add_line message (''Content-Type: '' @ content_type)) (\<lambda>message.
     c_bind (add_line message (''Content-Length: '' @ nat_text (length body_data))) (\<lambda>message.
     c_bind (add_header message ''Cookie: '' cookies ''; '') (\<lambda>message.
     c_bind (add_header message ''Authorization: Bearer '' token []) (\<lambda>message.
     c_bind (compute_message message []) (\<lambda>message.
       compute_message message body_data)))))))"

definition compute_del_request :: "string \<Rightarrow> string \<Rightarrow> string option \<Rightarrow> string option \<Rightarrow> string c_result" where
  "compute_del_request host url cookies token =
     c_bind (add_line [] (''DELETE '' @ url @ '' HTTP/1.1'')) (\<lambda>message.
     c_bind (add_line message (''Host: '' @ host)) (\<lambda>message.
     c_bind (add_header message ''Cookie: '' cookies ''; '') (\<lambda>message.
     c_bind (add_header message ''Authorization: Bearer '' token []) (\<lambda>message.
       compute_message message []))))"

section \<open>Requests as rows of lines\<close>

fun add_lines :: "string \<Rightarrow> string list \<Rightarrow> string c_result" where
  "add_lines message [] = Inr message"
| "add_lines message (l # ls) = c_bind (add_line message l) (\<lambda>message. add_lines message ls)"

definition lines_text :: "string list \<Rightarrow> string" where
  "lines_text ls = concat (map (\<lambda>l. l @ CRLF) ls)"

lemma lines_text_simps [simp]:
  "lines_text [] = []" "lines_text (l # ls) = l @ CRLF @ lines_text ls"
  by (simp_all add: lines_text_def)

lemma length_lines_text_append: "length (lines_text (ks @ ls)) = length (lines_text ks) + length (lines_text ls)"
  by (simp add: lines_text_def)

lemma add_lines_eq:
  "add_lines message ls =
     (if (\<forall>l \<in> set ls. length l < LINELEN) \<and> (ls \<noteq> [] \<longrightarrow> length message + length (lines_text ls) < BUFLEN)
      then Inr (message @ lines_text ls) else Inl OutOfBounds)"
proof (induction ls arbitrary: message)
  case (Cons l ls)
  show ?case
  proof (cases "length l < LINELEN \<and> length message + length l + 2 < BUFLEN")
    case True
    then have "add_lines message (l # ls) = add_lines (message @ l @ CRLF) ls"
      by (simp add: add_line_def sprintf_line_def compute_message_def)
    then show ?thesis using Cons.IH [of "message @ l @ CRLF"] True by (cases "ls = []") (simp_all add: add.assoc)
  next
    case False
    then show ?thesis by (auto simp: add_line_def sprintf_line_def compute_message_def)
  qed
qed simp

definition header_line :: "string \<Rightarrow> string option \<Rightarrow> string \<Rightarrow> string list" where
  "header_line name value suffix = (case value of None \<Rightarrow> [] | Some v \<Rightarrow> [name @ v @ suffix])"

lemma add_lines_append: "add_lines m (ks @ ls) = c_bind (add_lines m ks) (\<lambda>m. add_lines m ls)"
  by (induction ks arbitrary: m) (simp_all add: c_bind_assoc)

lemma c_bind_Inr_right [simp]: "c_bind r Inr = r"
  by (cases r) simp_all

lemma add_header_lines: "add_header m name value suffix = add_lines m (header_line name value suffix)"
  by (cases "value") (simp_all add: add_header_def header_line_def)

lemma add_line_lines: "add_line m l = add_lines m [l]"
  by simp

lemma compute_message_line: "compute_message m [] = add_lines m [[]]"
  by (simp add: add_line_def sprintf_line_def LINELEN_def)

definition request_lines :: "string \<Rightarrow> string \<Rightarrow> string \<Rightarrow> string option \<Rightarrow> string option \<Rightarrow> string list" where
  "request_lines req host url cookies token =
     [req @ '' '' @ url @ '' HTTP/1.1'', ''Host: '' @ host] @ header_line ''Cookie: '' cookies ''; '' @
     header_line ''Authorization: Bearer '' token []"

definition post_lines :: "string \<Rightarrow> string \<Rightarrow> string option \<Rightarrow> string \<Rightarrow> string \<Rightarrow> string option \<Rightarrow> string list" where
  "post_lines host url token content_type body cookies =
     [''POST '' @ url @ '' HTTP/1.1'', ''Host: '' @ host, ''Content-Type: '' @ content_type,
      ''Content-Length: '' @ nat_text (length body)] @ header_line ''Cookie: '' cookies ''; '' @
     header_line ''Authorization: Bearer '' token []"

text \<open>Running over a buffer is the only way a request fails, and it fails whenever one is too small.\<close>

definition fits :: "string list \<Rightarrow> nat \<Rightarrow> bool" where
  "fits ls n \<longleftrightarrow> (\<forall>l \<in> set ls. length l < LINELEN) \<and> length (lines_text ls) + n < BUFLEN"

lemma add_lines_end: "add_lines [] (ls @ [[]]) = (if fits ls 2 then Inr (lines_text ls @ CRLF) else Inl OutOfBounds)"
  by (auto simp: add_lines_eq fits_def length_lines_text_append LINELEN_def) (simp_all add: lines_text_def)

lemma compute_get_request_eq:
  "compute_get_request host url cookies token =
     (let ls = request_lines ''GET'' host url cookies token
      in if fits ls 2 then Inr (lines_text ls @ CRLF) else Inl OutOfBounds)"
  unfolding compute_get_request_def add_header_lines compute_message_line add_line_lines add_lines_append [symmetric]
    Let_def add_lines_end [symmetric]
  by (simp add: request_lines_def del: add_lines.simps)

lemma compute_del_request_eq:
  "compute_del_request host url cookies token =
     (let ls = request_lines ''DELETE'' host url cookies token
      in if fits ls 2 then Inr (lines_text ls @ CRLF) else Inl OutOfBounds)"
  unfolding compute_del_request_def add_header_lines compute_message_line add_line_lines add_lines_append [symmetric]
    Let_def add_lines_end [symmetric]
  by (simp add: request_lines_def del: add_lines.simps)

lemma compute_post_request_eq:
  "compute_post_request host url token content_type body cookies =
     (let ls = post_lines host url token content_type body cookies
      in if fits ls (length body + 4) then Inr (lines_text ls @ CRLF @ body @ CRLF) else Inl OutOfBounds)"
proof -
  have "compute_post_request host url token content_type body cookies =
      c_bind (add_lines [] (post_lines host url token content_type body cookies @ [[]])) (\<lambda>m. compute_message m body)"
    unfolding compute_post_request_def add_header_lines compute_message_line add_line_lines c_bind_assoc [symmetric]
      add_lines_append [symmetric]
    by (simp add: post_lines_def del: add_lines.simps)
  then show ?thesis
    by (auto simp: add_lines_end compute_message_def fits_def Let_def)
qed

section \<open>What a server finds in a request\<close>

text \<open>The end of the headers is the first empty line, when no line is empty or has a return in it.\<close>

lemma starts_with_Cons [simp]: "starts_with (x # xs) s \<longleftrightarrow> (\<exists>r. s = x # r \<and> starts_with xs r)" "starts_with [] s"
  by (cases s) (auto simp: starts_with_def)

lemma strstr_line:
  "CR \<notin> set l \<Longrightarrow> strstr (l @ CRLF @ s) (CRLF @ CRLF) =
     (if starts_with CRLF s then Some (length l) else map_option (\<lambda>k. k + (length l + 2)) (strstr s (CRLF @ CRLF)))"
  by (induction l) (auto simp: option.map_comp comp_def)

lemma strstr_lines:
  "ls \<noteq> [] \<Longrightarrow> \<forall>l \<in> set ls. l \<noteq> [] \<and> CR \<notin> set l \<Longrightarrow>
   strstr (lines_text ls @ CRLF @ r) (CRLF @ CRLF) = Some (length (lines_text ls) - 2)"
proof (induction ls)
  case (Cons l ls)
  show ?case
  proof (cases ls)
    case Nil
    then show ?thesis using Cons.prems(2) strstr_line [of l "CRLF @ r"] by simp
  next
    case (Cons k ks)
    let ?s = "lines_text ls @ CRLF @ r"
    have "\<not> starts_with CRLF ?s"
      using Cons.prems(2) by (cases k) (auto simp: Cons)
    moreover have "CR \<notin> set l" using Cons.prems(2) by simp
    ultimately have "strstr (l @ CRLF @ ?s) (CRLF @ CRLF) = map_option (\<lambda>k. k + (length l + 2)) (strstr ?s (CRLF @ CRLF))"
      using strstr_line [of l ?s] by (simp only: if_False simp_thms)
    moreover have "strstr ?s (CRLF @ CRLF) = Some (length (lines_text ls) - 2)" using Cons.IH Cons.prems(2) Cons by simp
    moreover have "2 \<le> length (lines_text ls)" by (simp add: Cons)
    ultimately show ?thesis by simp
  qed
qed simp

end
