(* ===== verification/Transport.thy ===== *)
theory Transport
  imports Buffer Requests Inet
begin

text \<open>
  The socket functions and the text functions of \<^verbatim>\<open>Tema_3/helpers.c\<close>. What the calls of
  \<open>read\<close> and \<open>write\<close> return is a list, one element per call: the bytes of a \<open>read\<close> (none at the
  end of the stream, \<open>None\<close> for an error) and the number of bytes a \<open>write\<close> took.
\<close>

text \<open>
  A transfer is waiting for a call that has not returned, ends the program through \<open>error\<close>, goes
  outside a buffer, or is done, with the results of the calls still to come.
\<close>

datatype ('a, 'r) transfer = Waiting | Exits | Fails c_error | Done 'a "'r list"

section \<open>Connecting\<close>

text \<open>\<open>error\<close> ends the program, with status 0. An address that cannot be read leaves the address cleared, 0.0.0.0.\<close>

record tcp_sys =
  tcp_socket :: int
  tcp_connect :: "nat \<Rightarrow> nat \<Rightarrow> int"

definition error_exit :: "'a program" where "error_exit = Exited 0"

definition open_socket :: "string \<Rightarrow> int \<Rightarrow> tcp_sys \<Rightarrow> nat program" where
  "open_socket host_ip portno k =
     (if tcp_socket k < 0 then error_exit
      else let addr = (case inet_host host_ip of None \<Rightarrow> 0 | Some a \<Rightarrow> a)
        in if tcp_connect k addr (port_number portno) < 0 then error_exit else Going (nat (tcp_socket k)))"

section \<open>Sending\<close>

text \<open>The loop with \<open>sent\<close> bytes gone in the pieces \<open>pieces\<close>.\<close>

fun send_loop :: "int list \<Rightarrow> string \<Rightarrow> nat \<Rightarrow> string list \<Rightarrow> (string list, int) transfer" where
  "send_loop [] message sent pieces = Waiting"
| "send_loop (bytes # bs) message sent pieces =
     (if bytes < 0 then Exits
      else if bytes = 0 then Done pieces bs
      else let pieces = pieces @ [take (nat bytes) (drop sent message)];
               sent = sent + nat bytes
        in if sent < length message then send_loop bs message sent pieces else Done pieces bs)"

definition send_to_server :: "int list \<Rightarrow> string \<Rightarrow> (string list, int) transfer" where
  "send_to_server bs message = send_loop bs message 0 []"

section \<open>Receiving\<close>

definition HEADER_TERMINATOR :: string where "HEADER_TERMINATOR = CRLF @ CRLF"
definition CONTENT_LENGTH :: string where "CONTENT_LENGTH = ''Content-Length: ''"

type_synonym reads = "string option list"

text \<open>The first loop: until a header with a length in it is complete, or the stream ends.\<close>

fun receive_header :: "reads \<Rightarrow> buffer \<Rightarrow> int \<Rightarrow> (buffer \<times> int \<times> int, string option) transfer" where
  "receive_header [] b header_end = Waiting"
| "receive_header (None # rs) b header_end = Exits"
| "receive_header (Some response # rs) b header_end =
     (if response = [] then Done (b, header_end, 0) rs
      else case buffer_add b response (length response) of Inl e \<Rightarrow> Fails e
        | Inr b \<Rightarrow>
            (case buffer_find b HEADER_TERMINATOR (length HEADER_TERMINATOR) of Inl e \<Rightarrow> Fails e
             | Inr header_end \<Rightarrow>
                 if header_end < 0 then receive_header rs b header_end
                 else let header_end = header_end + int (length HEADER_TERMINATOR)
                   in (case buffer_find_insensitive b CONTENT_LENGTH (length CONTENT_LENGTH) of Inl e \<Rightarrow> Fails e
                       | Inr start \<Rightarrow>
                           if start < 0 then receive_header rs b header_end
                           else (case strtol (drop (nat start + length CONTENT_LENGTH) (storage b)) of
                               None \<Rightarrow> Fails OutOfBounds
                             | Some v \<Rightarrow> Done (b, header_end, to_int32 v) rs))))"

text \<open>The second loop: until \<open>total\<close> bytes are there, or the stream ends.\<close>

fun receive_body :: "reads \<Rightarrow> buffer \<Rightarrow> nat \<Rightarrow> (buffer, string option) transfer" where
  "receive_body rs b total_size =
     (if bsize b \<ge> total_size then Done b rs
      else case rs of [] \<Rightarrow> Waiting
        | r # rs \<Rightarrow>
            (case r of None \<Rightarrow> Exits
             | Some response \<Rightarrow>
                 if response = [] then Done b rs
                 else (case buffer_add b response (length response) of Inl e \<Rightarrow> Fails e
                   | Inr b \<Rightarrow> receive_body rs b total_size)))"

declare receive_body.simps [simp del]

text \<open>
  \<open>total\<close> is a \<open>size_t\<close>: a length that is negative, or a header end of \<open>-1\<close> when the stream ended
  without a header, wraps to a number that is never reached.
\<close>

definition receive_from_server :: "reads \<Rightarrow> (string, string option) transfer" where
  "receive_from_server rs =
     (case receive_header rs buffer_init 0 of
        Done (b, header_end, content_length) rs \<Rightarrow>
          let total_size = nat ((content_length + header_end) mod 2 ^ 64)
          in (case receive_body rs b total_size of
                Done b rs \<Rightarrow> (case buffer_add b [NUL] 1 of Inl e \<Rightarrow> Fails e | Inr b \<Rightarrow> Done (storage b) rs)
              | Waiting \<Rightarrow> Waiting | Exits \<Rightarrow> Exits | Fails e \<Rightarrow> Fails e)
      | Waiting \<Rightarrow> Waiting | Exits \<Rightarrow> Exits | Fails e \<Rightarrow> Fails e)"

section \<open>Text functions\<close>

definition basic_extract_json_response :: "string \<Rightarrow> string option" where
  "basic_extract_json_response str = map_option (\<lambda>i. drop i str) (strstr str [CHR ''{'', DQUOTE])"

text \<open>A call of \<open>strtok\<close>: the token, or \<open>NULL\<close>, and what the next call with \<open>NULL\<close> goes on with.\<close>

definition strtok_call :: "string \<Rightarrow> string \<Rightarrow> string option \<times> string" where
  "strtok_call delim s = (case strtok delim s of None \<Rightarrow> (None, []) | Some (t, r) \<Rightarrow> (Some t, r))"

lemma strtok_Some:
  assumes "strtok delim s = Some (t, r)"
  shows "t \<noteq> []" "length r < length s" "length t \<le> length s" "\<exists>a b. s = a @ t @ b" "\<exists>a. s = a @ r"
proof -
  let ?p = "\<lambda>c. c \<in> set delim" and ?q = "\<lambda>c. c \<notin> set delim"
  let ?s = "dropWhile ?p s"
  have ne: "?s \<noteq> []" and t: "t = takeWhile ?q ?s" and r: "r = drop 1 (dropWhile ?q ?s)"
    using assms by (auto simp: strtok_def Let_def split: if_splits)
  have l: "length ?s \<le> length s" by (rule length_dropWhile_le)
  have s: "s = takeWhile ?p s @ t @ dropWhile ?q ?s" by (simp add: t)
  have "?q (hd ?s)" using hd_dropWhile [OF ne] by simp
  then show "t \<noteq> []" using ne by (cases ?s) (simp_all add: t)
  then have "0 < length t" by simp
  moreover have "length t + length (dropWhile ?q ?s) = length ?s" by (metis length_append t takeWhile_dropWhile_id)
  ultimately show "length r < length s" "length t \<le> length s" using l unfolding r length_drop by linarith+
  show "\<exists>a b. s = a @ t @ b" using s by blast
  have "s = (takeWhile ?p s @ t @ take 1 (dropWhile ?q ?s)) @ r" using s by (simp add: r)
  then show "\<exists>a. s = a @ r" ..
qed

lemma strtok_call_length: "length (snd (strtok_call delim s)) \<le> length s"
  "s \<noteq> [] \<Longrightarrow> length (snd (strtok_call delim s)) < length s"
  "fst (strtok_call delim s) = Some t \<Longrightarrow> length t \<le> length s"
proof -
  have "length r < length s \<and> length t \<le> length s" if "strtok delim s = Some (t, r)" for t r
    using strtok_Some(2,3) [OF that] by simp
  then show "length (snd (strtok_call delim s)) \<le> length s"
    "s \<noteq> [] \<Longrightarrow> length (snd (strtok_call delim s)) < length s"
    "fst (strtok_call delim s) = Some t \<Longrightarrow> length t \<le> length s"
    by (fastforce simp: strtok_call_def split: option.splits)+
qed

text \<open>
  \<open>get_cookies\<close> cuts the response into lines; in a line with a cookie it starts \<open>strtok\<close> anew, so
  that the lines behind are not visited: the loop goes on behind the cookie's value, in the same
  line. The variable \<open>cookie\<close> is not set to begin with: \<open>None\<close>; \<open>Some None\<close> is the null pointer.
\<close>

function cookie_loop :: "string option option \<Rightarrow> string \<Rightarrow> string option option" where
  "cookie_loop cookie s =
     (case strtok [LF] s of None \<Rightarrow> cookie
      | Some (token, rest) \<Rightarrow>
          if strstr token ''Set-Cookie:'' \<noteq> None
          then let (c1, r1) = strtok_call '';'' token;
                   (c2, r2) = strtok_call '':'' (case c1 of None \<Rightarrow> r1 | Some c \<Rightarrow> c);
                   (c3, r3) = strtok_call '' '' r2
            in cookie_loop (Some c3) r3
          else cookie_loop cookie rest)"
  by pat_completeness auto
termination
proof (relation "measure (\<lambda>(c, s). length s)", goal_cases)
  case (2 cookie s tok token rest x c1 r1 y c2 r2 z c3 r3)
  let ?in = "case c1 of None \<Rightarrow> r1 | Some c \<Rightarrow> c"
  have e: "strtok_call '';'' token = (c1, r1)" "strtok_call '':'' ?in = (c2, r2)" "strtok_call '' '' r2 = (c3, r3)"
    using 2(4-9) by simp_all
  have "token \<noteq> []" "length token \<le> length s" using strtok_Some 2(1,2) by blast+
  moreover have "length ?in \<le> length token"
    using strtok_call_length(1,3) [of "'';''" token] e(1) by (cases c1) auto
  moreover have "length r2 \<le> length ?in" "?in \<noteq> [] \<Longrightarrow> length r2 < length ?in"
    using strtok_call_length(1) [of "'':''" ?in] strtok_call_length(2) [of ?in "'':''"] e(2) by auto
  moreover have "length r3 \<le> length r2" using strtok_call_length(1) [of "'' ''" r2] e(3) by auto
  ultimately show ?case by (cases "?in = []") auto
qed (use strtok_Some in auto)

declare cookie_loop.simps [simp del]

definition get_cookies :: "string \<Rightarrow> string option option" where
  "get_cookies response = cookie_loop None response"


section \<open>Sending sends everything\<close>

lemma send_loop_all:
  "sent < length message \<Longrightarrow> concat pieces = take sent message \<Longrightarrow> \<forall>b \<in> set bs. 0 < b \<Longrightarrow>
   length message \<le> sent + length bs \<Longrightarrow>
   \<exists>pieces' bs'. send_loop bs message sent pieces = Done pieces' bs' \<and> concat pieces' = message"
proof (induction bs arbitrary: sent pieces)
  case (Cons b bs)
  let ?n = "nat b"
  have b: "0 < b" "0 < ?n" using Cons.prems(3) by simp_all
  have c: "concat (pieces @ [take ?n (drop sent message)]) = take (sent + ?n) message"
    using Cons.prems(2) by (simp add: take_add)
  show ?case
  proof (cases "sent + ?n < length message")
    case True
    have "length message \<le> sent + ?n + length bs" using Cons.prems(4) b by simp
    with Cons.IH [OF True c] Cons.prems(3) b True show ?thesis by simp
  next
    case False
    with b c show ?thesis by simp
  qed
qed simp

section \<open>Receiving a framed response\<close>

section \<open>Receiving a framed response\<close>

text \<open>
  A response with its body's length in a header: the headers end at the first empty line, and the
  first thing that reads as the length header, in either case, is in them and gives the length.
\<close>

definition framed :: "string \<Rightarrow> string \<Rightarrow> string \<Rightarrow> bool" where
  "framed response headers body \<longleftrightarrow> response = headers @ body \<and> 4 \<le> length headers \<and>
     strstr response HEADER_TERMINATOR = Some (length headers - 4) \<and>
     (\<exists>before name behind. headers = before @ name @ nat_text (length body) @ CR # behind \<and>
        length name = length CONTENT_LENGTH \<and>
        strstr (map to_lower response) (map to_lower CONTENT_LENGTH) = Some (length before))"

lemma length_constants [simp]: "length HEADER_TERMINATOR = 4" "length CONTENT_LENGTH = 16"
  by (simp_all add: HEADER_TERMINATOR_def CONTENT_LENGTH_def)

lemma strtol_nat_text: "n < 2 ^ 63 \<Longrightarrow> strtol (nat_text n @ CR # s) = Some (int n)"
  by (rule strtol_number) (simp_all add: isdigit_def)

lemma receive_header_framed:
  assumes "framed response headers body" "length response < 2 ^ 31"
  shows "buffer_rep b p \<Longrightarrow> p @ concat cs = response \<Longrightarrow> [] \<notin> set cs \<Longrightarrow> length p < length headers \<Longrightarrow>
    \<exists>ds b' q. receive_header (map Some cs @ rs) b header_end = Done (b', int (length headers), int (length body)) (map Some ds @ rs) \<and>
      buffer_rep b' q \<and> q @ concat ds = response \<and> [] \<notin> set ds"
proof (induction cs arbitrary: b p header_end)
  case Nil
  then show ?case using assms(1) by (simp add: framed_def)
next
  case (Cons c cs)
  let ?p = "p @ c"
  have resp: "?p @ concat cs = response" using Cons.prems(2) by simp
  have short: "length ?p < 2 ^ 31" using assms(2) resp by (metis length_append le_add1 le_less_trans)
  obtain b1 where b1: "buffer_add b c (length c) = Inr b1" "buffer_rep b1 ?p" using bb.rep_add [OF Cons.prems(1)] by blast
  have ht: "strstr (?p @ concat cs) HEADER_TERMINATOR = Some (length headers - 4)" and h4: "4 \<le> length headers"
    using assms(1) unfolding resp framed_def by blast+
  have f1: "buffer_find b1 HEADER_TERMINATOR 4 = Inr (case strstr ?p HEADER_TERMINATOR of None \<Rightarrow> -1 | Some i \<Rightarrow> int i)"
    using bb.rep_find [OF b1(2) short, of HEADER_TERMINATOR] by simp
  have c: "c \<noteq> []" using Cons.prems(3) by auto
  show ?case
  proof (cases "length ?p < length headers")
    case True
    have "strstr ?p HEADER_TERMINATOR = None"
    proof (cases "strstr ?p HEADER_TERMINATOR")
      case (Some i)
      then have "i = length headers - 4" using ht strstr_append [OF Some, of "concat cs"] by simp
      moreover have "i + 4 \<le> length ?p" using strstr_bound [OF Some] by simp
      ultimately show ?thesis using True h4 by simp
    qed simp
    then have f: "receive_header (map Some (c # cs) @ rs) b header_end = receive_header (map Some cs @ rs) b1 (-1)"
      using b1(1) f1 c by simp
    show ?thesis unfolding f using Cons.IH [OF b1(2) resp _ True, of "-1"] Cons.prems(3) by simp
  next
    case False
    obtain before name behind where hd: "headers = before @ name @ nat_text (length body) @ CR # behind"
      "length name = 16" "strstr (map to_lower response) (map to_lower CONTENT_LENGTH) = Some (length before)"
      using assms(1) by (auto simp: framed_def)
    have "response = headers @ body" using assms(1) by (simp add: framed_def)
    then have p: "?p = headers @ drop (length headers) ?p"
      using resp False by (metis append_eq_append_conv_if append_take_drop_id not_less)
    have t: "strstr ?p HEADER_TERMINATOR = Some (length headers - 4)"
      using strstr_prefix [OF ht] False h4 by simp
    have low: "map to_lower ?p @ map to_lower (concat cs) = map to_lower response"
      unfolding map_append [symmetric] resp ..
    have "length before + 16 \<le> length ?p" using hd(1,2) False by simp
    then have "strstr (map to_lower ?p) (map to_lower CONTENT_LENGTH) = Some (length before)"
      by (intro strstr_prefix [OF hd(3) [folded low]]) simp
    then have f2: "buffer_find_insensitive b1 CONTENT_LENGTH 16 = Inr (int (length before))"
      using bb.rep_find_insensitive [OF b1(2) short, of CONTENT_LENGTH] by simp
    have "drop (length before + 16) ?p = nat_text (length body) @ CR # behind @ drop (length headers) ?p"
      using hd(1,2) by (subst p) simp
    then have "strtol (drop (length before + 16) (storage b1)) = Some (int (length body))"
      using strtol_nat_text [of "length body"] assms b1(2) by (simp add: buffer_rep_def framed_def)
    then have "receive_header (map Some (c # cs) @ rs) b header_end = Done (b1, int (length headers), int (length body)) (map Some cs @ rs)"
      using b1(1) f1 f2 t c h4 assms by (simp add: to_int32_id framed_def)
    with b1(2) resp Cons.prems(3) show ?thesis by (intro exI [of _ cs] exI [of _ b1] exI [of _ ?p]) simp
  qed
qed

lemma receive_body_all:
  "buffer_rep b p \<Longrightarrow> p @ concat cs = response \<Longrightarrow> [] \<notin> set cs \<Longrightarrow>
   \<exists>b'. receive_body (map Some cs @ rs) b (length response) = Done b' rs \<and> buffer_rep b' response"
proof (induction cs arbitrary: b p)
  case Nil
  then show ?case by (subst receive_body.simps) (simp add: buffer_rep_def)
next
  case (Cons c cs)
  obtain b1 where b1: "buffer_add b c (length c) = Inr b1" "buffer_rep b1 (p @ c)" using bb.rep_add [OF Cons.prems(1)] by blast
  have c: "c \<noteq> []" using Cons.prems(3) by auto
  have "length p < length response" using Cons.prems(2) c by auto
  then have "receive_body (map Some (c # cs) @ rs) b (length response) = receive_body (map Some cs @ rs) b1 (length response)"
    using Cons.prems(1) b1(1) c by (subst receive_body.simps) (simp add: buffer_rep_def)
  with Cons.IH [OF b1(2)] Cons.prems(2,3) show ?case by simp
qed

lemma receive_framed:
  assumes "framed response headers body" "length response < 2 ^ 31" "concat cs = response" "[] \<notin> set cs"
  shows "receive_from_server (map Some cs @ rs) = Done (response @ [NUL]) rs"
proof -
  have l: "length response = length headers + length body" "0 < length headers" using assms(1) by (auto simp: framed_def)
  obtain ds b q where h: "receive_header (map Some cs @ rs) buffer_init 0 =
      Done (b, int (length headers), int (length body)) (map Some ds @ rs)"
    "buffer_rep b q" "q @ concat ds = response" "[] \<notin> set ds"
    using receive_header_framed [OF assms(1,2) bb.rep_new _ assms(4), of rs 0] assms(3) l(2) by auto
  obtain b' where b': "receive_body (map Some ds @ rs) b (length response) = Done b' rs" "buffer_rep b' response"
    using receive_body_all [OF h(2-4)] by blast
  have "nat ((int (length body) + int (length headers)) mod 2 ^ 64) = length response" using l assms(2) by simp
  moreover obtain b2 where "buffer_add b' [NUL] 1 = Inr b2" "buffer_rep b2 (response @ [NUL])"
    using bb.rep_add [OF b'(2), of "[NUL]"] by auto
  ultimately show ?thesis using h(1) b'(1) by (simp add: receive_from_server_def buffer_rep_def)
qed

section \<open>The cookie of a response\<close>

lemma cookie_loop_skip:
  assumes "LF \<notin> set l" "strstr l ''Set-Cookie:'' = None"
  shows "cookie_loop cookie (l @ LF # s) = cookie_loop cookie s"
proof (cases "l = []")
  case True
  then show ?thesis by (subst (1 2) cookie_loop.simps) (simp add: strtok_skip)
next
  case False
  have "strtok [LF] (l @ LF # s) = Some (l, s)" using False assms(1) by (intro strtok_token) auto
  with assms(2) show ?thesis by (subst cookie_loop.simps) simp
qed

lemma cookie_loop_skips:
  "\<forall>l \<in> set ls. LF \<notin> set l \<and> strstr l ''Set-Cookie:'' = None \<Longrightarrow>
   cookie_loop cookie (concat (map (\<lambda>l. l @ [LF]) ls) @ s) = cookie_loop cookie s"
  by (induction ls) (simp_all add: cookie_loop_skip)

text \<open>A line with a cookie: the value up to its semicolon is the result, whatever follows.\<close>

lemma cookie_loop_found:
  assumes "c \<noteq> []" "set c \<inter> {CHR '' '', CHR '';'', LF} = {}" "LF \<notin> set attrs"
  shows "cookie_loop cookie (''Set-Cookie: '' @ c @ '';'' @ attrs @ LF # s) = Some (Some c)"
proof -
  let ?l = "''Set-Cookie: '' @ c @ '';'' @ attrs"
  have tok: "strtok [LF] (?l @ LF # s) = Some (?l, s)" using assms by (intro strtok_token) auto
  have f: "strstr ?l ''Set-Cookie:'' \<noteq> None" by (simp add: starts_with_def)
  have c1: "strtok '';'' ?l = Some (''Set-Cookie: '' @ c, attrs)"
    using strtok_token(1) [of "''Set-Cookie: '' @ c" "'';''" "CHR '';''" attrs] assms(2) by auto
  have c2: "strtok '':'' (''Set-Cookie: '' @ c) = Some (''Set-Cookie'', '' '' @ c)"
    using strtok_token(1) [of "''Set-Cookie''" "'':''" "CHR '':''" "'' '' @ c"] by simp
  have c3: "strtok '' '' ('' '' @ c) = Some (c, [])"
    using strtok_token(2) [of c "'' ''" "CHR '' ''"] assms(1,2) by (auto simp: strtok_skip)
  have "cookie_loop cookie (?l @ LF # s) = cookie_loop (Some (Some c)) []"
    using tok f c1 c2 c3 by (subst cookie_loop.simps) (simp add: strtok_call_def)
  also have "... = Some (Some c)" by (subst cookie_loop.simps) (simp add: strtok_def)
  finally show ?thesis by simp
qed

text \<open>Without a cookie in any line the variable is never set.\<close>

lemma cookie_loop_none:
  "strstr s ''Set-Cookie:'' = None \<Longrightarrow> cookie_loop cookie s = cookie"
proof (induction s arbitrary: cookie rule: length_induct)
  case (1 s)
  show ?case
  proof (cases "strtok [LF] s")
    case None
    then show ?thesis by (subst cookie_loop.simps) simp
  next
    case (Some tr)
    obtain t r where tr: "strtok [LF] s = Some (t, r)" using Some by (cases tr) simp
    obtain a b a' where s: "s = a @ t @ b" "s = a' @ r" using strtok_Some(4,5) [OF tr] by blast
    have "strstr t ''Set-Cookie:'' = None" using strstr_sub [of a t b] 1(2) s(1) by simp
    moreover have "strstr r ''Set-Cookie:'' = None" using strstr_sub [of a' r "[]"] 1(2) s(2) by simp
    ultimately show ?thesis using 1(1) strtok_Some(2) [OF tr] tr by (subst cookie_loop.simps) simp
  qed
qed

end
