(* ===== verification/Client.thy ===== *)
theory Client
  imports Transport JsonApi
begin

text \<open>
  The command loop of \<^verbatim>\<open>Tema_3/client.c\<close>. The state holds the two pointers the loop keeps, the
  cookie and the token, and the world: the text on standard input, what each connection to come
  will do, the bytes sent and the text printed. Input holds no terminator characters.
\<close>

definition LEN :: nat where "LEN = 100"
definition BOOKLEN :: nat where "BOOKLEN = 50"
definition URLLEN :: nat where "URLLEN = 50"

text \<open>
  \<open>cookie\<close> is \<open>None\<close> where the pointer has no value, \<open>Some None\<close> where it is null. A connection that
  cannot be opened is \<open>None\<close>; an open one has the results of its writes and of its reads.
\<close>

type_synonym connection = "int list \<times> reads"

record client =
  cookie :: "string option option"
  jwt :: "string option"
  stdin :: string
  connections :: "connection option list"
  requests :: "string list"
  printed :: string

text \<open>
  A command comes back with a value and the new state, ends the program through \<open>error\<close>, waits for
  a connection, or accesses memory it must not.
\<close>

datatype 'a outcome = Ok 'a client | Exited | Blocked | Crash c_error

type_synonym 'a action = "client \<Rightarrow> 'a outcome"

definition act :: "'a action \<Rightarrow> ('a \<Rightarrow> 'b action) \<Rightarrow> 'b action" where
  "act m f s = (case m s of Ok x s \<Rightarrow> f x s | Exited \<Rightarrow> Exited | Blocked \<Rightarrow> Blocked | Crash e \<Rightarrow> Crash e)"

definition computed :: "'a c_result \<Rightarrow> 'a action" where
  "computed r s = (case r of Inl e \<Rightarrow> Crash e | Inr x \<Rightarrow> Ok x s)"

definition print_text :: "string \<Rightarrow> unit action" where
  "print_text t s = Ok () (s\<lparr>printed := printed s @ t\<rparr>)"

section \<open>Input\<close>

text \<open>\<open>fgets\<close>: up to \<open>n - 1\<close> characters, the newline among them; nothing at the end of the input.\<close>

definition fgets :: "nat \<Rightarrow> string \<Rightarrow> (string \<times> string) option" where
  "fgets n s =
     (if s = [] then None
      else let m = min (n - 1) (length (takeWhile (\<lambda>c. c \<noteq> LF) s) + 1) in Some (take m s, drop m s))"

text \<open>
  \<open>strtok(line, "\n")\<close> for its effect on the line: the newline behind the first token is
  overwritten. A line of newlines alone has no token and stays.
\<close>

definition cut_newline :: "string \<Rightarrow> string" where
  "cut_newline s = takeWhile (\<lambda>c. c = LF) s @ takeWhile (\<lambda>c. c \<noteq> LF) (dropWhile (\<lambda>c. c = LF) s)"

text \<open>
  A line read into a buffer of \<open>n\<close> bytes that held \<open>old\<close>, which is \<open>None\<close> where \<open>malloc\<close> left it
  without a value.
\<close>

definition read_line :: "string option \<Rightarrow> nat \<Rightarrow> string action" where
  "read_line old n s =
     (case fgets n (stdin s) of
        Some (line, rest) \<Rightarrow> Ok (cut_newline line) (s\<lparr>stdin := rest\<rparr>)
      | None \<Rightarrow> (case old of None \<Rightarrow> Crash BadPointer | Some t \<Rightarrow> Ok (cut_newline t) s))"

section \<open>Requests\<close>

text \<open>A connection that is there is what \<open>open_socket\<close> opens to the host on port 8080; where it ends the program there is none.\<close>

definition HOST :: string where "HOST = ''34.118.48.238''"

definition open_connection :: "connection action" where
  "open_connection s =
     (case connections s of [] \<Rightarrow> Blocked
      | None # cs \<Rightarrow> Exited
      | Some c # cs \<Rightarrow> Ok c (s\<lparr>connections := cs\<rparr>))"

text \<open>\<open>send_to_server\<close>, then \<open>receive_from_server\<close>; the response is used as a C string.\<close>

definition exchange :: "connection \<Rightarrow> string \<Rightarrow> string action" where
  "exchange c message s =
     (case send_to_server (fst c) message of
        Waiting \<Rightarrow> Blocked | Exits \<Rightarrow> Exited | Fails e \<Rightarrow> Crash e
      | Done pieces bs \<Rightarrow>
          let s = s\<lparr>requests := requests s @ [concat pieces]\<rparr>
          in (case receive_from_server (snd c) of
                Waiting \<Rightarrow> Blocked | Exits \<Rightarrow> Exited | Fails e \<Rightarrow> Crash e
              | Done response rs \<Rightarrow> Ok (takeWhile (\<lambda>c. c \<noteq> NUL) response) s))"

text \<open>A cookie without a value must not be read.\<close>

definition the_cookie :: "string option action" where
  "the_cookie s = (case cookie s of None \<Rightarrow> Crash BadPointer | Some c \<Rightarrow> Ok c s)"

definition the_jwt :: "string option action" where
  "the_jwt s = Ok (jwt s) s"

section \<open>Bodies\<close>

text \<open>
  The status of a setter is not looked at: where it fails, the object is as before. The
  members are read through their indices, as the serializer does.
\<close>

definition or_same :: "'o \<Rightarrow> 'o option c_result \<Rightarrow> 'o c_result" where
  "or_same obj r = c_bind r (\<lambda>res. case res of None \<Rightarrow> Inr obj | Some obj' \<Rightarrow> Inr obj')"

fun members_from :: "'v json_object \<Rightarrow> nat \<Rightarrow> nat \<Rightarrow> (string \<times> 'v) list c_result" where
  "members_from obj i 0 = Inr []"
| "members_from obj i (Suc k) =
     c_bind (read_slot (names obj) i) (\<lambda>n.
     c_bind (read_slot (ovalues obj) i) (\<lambda>v.
     c_bind (members_from obj (Suc i) k) (\<lambda>ms. Inr ((n, v) # ms))))"

definition object_text :: "'n numlib \<Rightarrow> 'n json_value json_object \<Rightarrow> string c_result" where
  "object_text L obj =
     c_bind (members_from obj 0 (ocount obj)) (\<lambda>ms.
       case json_serialize_to_string_pretty L True (Some (VObject ms)) of None \<Rightarrow> Inl NullDeref | Some t \<Rightarrow> Inr t)"

definition credentials_body :: "'n numlib \<Rightarrow> string \<Rightarrow> string \<Rightarrow> string c_result" where
  "credentials_body L user pass =
     c_bind (or_same json_object_init (json_object_set_string json_object_init ''username'' (Some user))) (\<lambda>obj.
     c_bind (or_same obj (json_object_set_string obj ''password'' (Some pass))) (\<lambda>obj.
       object_text L obj))"

text \<open>The body of a new book; \<open>num_of\<close> converts an \<open>int\<close> to a \<open>double\<close>.\<close>

record book =
  title :: string
  author :: string
  genre :: string
  page_count :: string
  publisher :: string

definition book_body :: "'n numlib \<Rightarrow> (int \<Rightarrow> 'n) \<Rightarrow> book \<Rightarrow> string c_result" where
  "book_body L num_of bk =
     c_bind (or_same json_object_init (json_object_set_string json_object_init ''title'' (Some (title bk)))) (\<lambda>obj.
     c_bind (or_same obj (json_object_set_string obj ''author'' (Some (author bk)))) (\<lambda>obj.
     c_bind (or_same obj (json_object_set_string obj ''genre'' (Some (genre bk)))) (\<lambda>obj.
     c_bind (or_same obj (json_object_set_string obj ''publisher'' (Some (publisher bk)))) (\<lambda>obj.
     c_bind (or_same obj (json_object_set_number L obj ''page_count'' (num_of (atoi (page_count bk))))) (\<lambda>obj.
       object_text L obj)))))"

section \<open>Commands\<close>

text \<open>A field is prompted for and read into a cleared buffer.\<close>

definition ask :: "string \<Rightarrow> string option \<Rightarrow> nat \<Rightarrow> string action" where
  "ask prompt old n = act (print_text prompt) (\<lambda>_. read_line old n)"

definition post_credentials :: "'n numlib \<Rightarrow> string \<Rightarrow> string action" where
  "post_credentials L url =
     act (ask ''username:'' (Some []) LEN) (\<lambda>user.
     act (ask ''password:'' (Some []) LEN) (\<lambda>pass.
     act (print_text [LF]) (\<lambda>_.
     act (computed (credentials_body L user pass)) (\<lambda>body.
     act (computed (compute_post_request HOST url None ''application/json'' body None)) (\<lambda>message.
     act open_connection (\<lambda>c.
     act (exchange c message) (\<lambda>response.
     act (print_text (response @ [LF] @ [LF])) (\<lambda>_ s. Ok response s))))))))"

definition register_command :: "'n numlib \<Rightarrow> unit action" where
  "register_command L = act (post_credentials L ''/api/v1/tema/auth/register'') (\<lambda>_ s. Ok () s)"

definition login_command :: "'n numlib \<Rightarrow> unit action" where
  "login_command L =
     act the_cookie (\<lambda>c.
       if c \<noteq> None then print_text ''Already logged in!\<newline>''
       else act (post_credentials L ''/api/v1/tema/auth/login'') (\<lambda>response s.
         if strstr response ''error'' = None then Ok () (s\<lparr>cookie := get_cookies response\<rparr>) else Ok () s))"

text \<open>The lines of the response with a token in them; as for cookies, the search goes on in the same line.\<close>

function jwt_loop :: "string option \<Rightarrow> string \<Rightarrow> string option" where
  "jwt_loop t s =
     (case strtok [LF] s of None \<Rightarrow> t
      | Some (token, rest) \<Rightarrow>
          if strstr token ''token'' \<noteq> None
          then let (c1, r1) = strtok_call '':'' token;
                   (c2, r2) = strtok_call [DQUOTE] r1
            in jwt_loop c2 r2
          else jwt_loop t rest)"
  by pat_completeness auto
termination
proof (relation "measure (\<lambda>(t, s). length s)", goal_cases)
  case (2 t s tok token rest x c1 r1 y c2 r2)
  have e: "strtok_call '':'' token = (c1, r1)" "strtok_call [DQUOTE] r1 = (c2, r2)" using 2 by simp_all
  have "token \<noteq> []" "length token \<le> length s" using strtok_Some 2(1,2) by blast+
  moreover have "length r1 < length token" using strtok_call_length(2) [of token "'':''"] \<open>token \<noteq> []\<close> e(1) by simp
  moreover have "length r2 \<le> length r1" using strtok_call_length(1) [of "[DQUOTE]" r1] e(2) by simp
  ultimately show ?case by auto
qed (use strtok_Some in auto)

declare jwt_loop.simps [simp del]

definition enter_library_command :: "unit action" where
  "enter_library_command =
     act open_connection (\<lambda>c.
     act the_cookie (\<lambda>ck.
     act (computed (compute_get_request HOST ''/api/v1/tema/library/access'' ck None)) (\<lambda>message.
     act (exchange c message) (\<lambda>response.
     act (print_text (response @ [LF] @ [LF])) (\<lambda>_ s. Ok () (s\<lparr>jwt := jwt_loop (jwt s) response\<rparr>))))))"

definition get_books_command :: "unit action" where
  "get_books_command =
     act (print_text [LF]) (\<lambda>_.
     act open_connection (\<lambda>c.
     act the_cookie (\<lambda>ck.
     act the_jwt (\<lambda>t.
     act (computed (compute_get_request HOST ''/api/v1/tema/library/books'' ck t)) (\<lambda>message.
     act (exchange c message) (\<lambda>response.
       print_text (response @ [LF] @ [LF])))))))"

definition book_url :: "string \<Rightarrow> string c_result" where
  "book_url bid =
     (let url = ''/api/v1/tema/library/books/'' @ bid
      in if length url < URLLEN then Inr url else Inl OutOfBounds)"

definition get_book_command :: "unit action" where
  "get_book_command =
     act (ask ''id='' None LEN) (\<lambda>bid.
     act (print_text [LF]) (\<lambda>_.
     act (computed (book_url bid)) (\<lambda>url.
     act open_connection (\<lambda>c.
     act the_jwt (\<lambda>t.
     act (computed (compute_get_request HOST url None t)) (\<lambda>message.
     act (exchange c message) (\<lambda>response.
       print_text (response @ [LF] @ [LF]))))))))"

definition read_book :: "book action" where
  "read_book =
     act (ask ''title:'' None BOOKLEN) (\<lambda>ti.
     act (ask ''author:'' None BOOKLEN) (\<lambda>au.
     act (ask ''genre:'' None BOOKLEN) (\<lambda>ge.
     act (ask ''publisher:'' None BOOKLEN) (\<lambda>pu.
     act (ask ''page_count:'' None BOOKLEN) (\<lambda>pc s.
       Ok \<lparr>title = ti, author = au, genre = ge, page_count = pc, publisher = pu\<rparr> s)))))"

definition add_book_command :: "'n numlib \<Rightarrow> (int \<Rightarrow> 'n) \<Rightarrow> unit action" where
  "add_book_command L num_of =
     act read_book (\<lambda>bk.
     act (print_text [LF]) (\<lambda>_.
     act (computed (book_body L num_of bk)) (\<lambda>body.
     act the_jwt (\<lambda>t.
     act (computed (compute_post_request HOST ''/api/v1/tema/library/books'' t ''application/json'' body None)) (\<lambda>message.
     act open_connection (\<lambda>c.
     act (exchange c message) (\<lambda>response.
       print_text (response @ [LF]))))))))"

definition del_book_command :: "unit action" where
  "del_book_command =
     act (ask ''id='' None LEN) (\<lambda>bid.
     act (print_text [LF]) (\<lambda>_.
     act (computed (book_url bid)) (\<lambda>url.
     act open_connection (\<lambda>c.
     act the_jwt (\<lambda>t.
     act (computed (compute_del_request HOST url None t)) (\<lambda>message.
     act (exchange c message) (\<lambda>response.
       print_text (response @ [LF]))))))))"

definition logout_command :: "unit action" where
  "logout_command =
     act open_connection (\<lambda>c.
     act (print_text (''Logging out.....'' @ [LF] @ [LF])) (\<lambda>_.
     act the_cookie (\<lambda>ck.
     act (computed (compute_get_request HOST ''/api/v1/tema/auth/logout'' ck None)) (\<lambda>message.
     act (exchange c message) (\<lambda>response.
     act (print_text (response @ [LF])) (\<lambda>_ s. Ok () (s\<lparr>cookie := Some None, jwt := None\<rparr>)))))))"

text \<open>One round of the loop; the result is whether the loop goes on.\<close>

definition run_command :: "'n numlib \<Rightarrow> (int \<Rightarrow> 'n) \<Rightarrow> string \<Rightarrow> unit action" where
  "run_command L num_of command =
     (if command = ''register'' then register_command L
      else if command = ''login'' then login_command L
      else if command = ''enter_library'' then enter_library_command
      else if command = ''get_books'' then get_books_command
      else if command = ''get_book'' then get_book_command
      else if command = ''add_book'' then add_book_command L num_of
      else if command = ''del_book'' then del_book_command
      else if command = ''logout'' then logout_command
      else print_text ''Bad command, try again!\<newline>'')"

definition client_step :: "'n numlib \<Rightarrow> (int \<Rightarrow> 'n) \<Rightarrow> bool action" where
  "client_step L num_of =
     act (read_line (Some []) LEN) (\<lambda>command.
       if starts_with ''exit'' command then (\<lambda>s. Ok False s)
       else act (run_command L num_of command) (\<lambda>_ s. Ok True s))"

text \<open>At most \<open>n\<close> rounds of the loop.\<close>

fun client_run :: "'n numlib \<Rightarrow> (int \<Rightarrow> 'n) \<Rightarrow> nat \<Rightarrow> bool action" where
  "client_run L num_of 0 = (\<lambda>s. Ok True s)"
| "client_run L num_of (Suc n) =
     act (client_step L num_of) (\<lambda>go. if go then client_run L num_of n else (\<lambda>s. Ok False s))"

definition client_init :: "string \<Rightarrow> connection option list \<Rightarrow> client" where
  "client_init inp cs = \<lparr>cookie = Some None, jwt = None, stdin = inp, connections = cs, requests = [], printed = []\<rparr>"

end
