(* ===== verification/WebProps.thy ===== *)
theory WebProps
  imports Client JsonProps
begin

text \<open>
  The properties of the HTTP client of \<^verbatim>\<open>Tema_3\<close>: its buffer, its requests, sending and
  receiving, and the command loop.
\<close>

section \<open>Buffer and requests\<close>

text \<open>
  C37: Whatever chunks a buffer is filled with, a search finds the first occurrence in their
  concatenation and \<open>-1\<close> where there is none, with or without regard to case; no access leaves the
  buffer.
\<close>

theorem buffer_find_first:
  assumes "buffer_rep b s" "length s + length t < 2 ^ 31"
  shows "\<exists>b'. buffer_add b t (length t) = Inr b' \<and> buffer_rep b' (s @ t) \<and>
    (\<forall>u. buffer_find b' u (length u) = Inr (case strstr (s @ t) u of None \<Rightarrow> -1 | Some i \<Rightarrow> int i) \<and>
      buffer_find_insensitive b' u (length u) =
        Inr (case strstr (map to_lower (s @ t)) (map to_lower u) of None \<Rightarrow> -1 | Some i \<Rightarrow> int i))"
proof -
  obtain b' where b': "buffer_add b t (length t) = Inr b'" "buffer_rep b' (s @ t)" using bb.rep_add [OF assms(1)] by blast
  have "length (s @ t) < 2 ^ 31" using assms(2) by simp
  with b' bb.rep_find [OF b'(2)] bb.rep_find_insensitive [OF b'(2)] show ?thesis by blast
qed

theorem buffer_find_first_witness:
  "\<exists>b'. buffer_add buffer_init ''abcab'' 5 = Inr b' \<and> buffer_find b' ''ca'' 2 = Inr 2 \<and>
    buffer_find_insensitive b' ''AB'' 2 = Inr 0 \<and> buffer_find b' ''x'' 1 = Inr (-1)"
proof -
  obtain b' where b': "buffer_add buffer_init ''abcab'' (length ''abcab'') = Inr b'"
    "\<forall>u. buffer_find b' u (length u) = Inr (case strstr ([] @ ''abcab'') u of None \<Rightarrow> -1 | Some i \<Rightarrow> int i) \<and>
      buffer_find_insensitive b' u (length u) =
        Inr (case strstr (map to_lower ([] @ ''abcab'')) (map to_lower u) of None \<Rightarrow> -1 | Some i \<Rightarrow> int i)"
    using buffer_find_first [OF bb.rep_new, of "''abcab''"] by auto
  have "strstr ([] @ ''abcab'') ''ca'' = Some 2" "strstr ([] @ ''abcab'') ''x'' = None"
    "strstr (map to_lower ([] @ ''abcab'')) (map to_lower ''AB'') = Some 0" by code_simp+
  with b'(1) b'(2) [rule_format, of "''ca''"] b'(2) [rule_format, of "''x''"] b'(2) [rule_format, of "''AB''"]
  show ?thesis by (intro exI [of _ b'] conjI) (simp_all add: eval_nat_numeral)
qed

text \<open>
  C21: A POST request whose fields hold no carriage return is framed: its headers end at the first
  empty line, its body follows, and its length header gives the body's length in decimal. It is
  built exactly when every line stays below \<open>LINELEN\<close> and the whole below \<open>BUFLEN\<close>; otherwise the
  program writes outside a buffer.
\<close>

theorem post_request_framed:
  assumes "CR \<notin> set host" "CR \<notin> set url" "CR \<notin> set content_type" "\<forall>t. token = Some t \<longrightarrow> CR \<notin> set t"
    "\<forall>c. cookies = Some c \<longrightarrow> CR \<notin> set c"
  shows "let ls = post_lines host url token content_type body cookies in
    if fits ls (length body + 4)
    then \<exists>m. compute_post_request host url token content_type body cookies = Inr m \<and>
      strstr m (CRLF @ CRLF) = Some (length (lines_text ls) - 2) \<and>
      drop (length (lines_text ls) + 2) m = body @ CRLF \<and>
      ''Content-Length: '' @ nat_text (length body) \<in> set ls
    else compute_post_request host url token content_type body cookies = Inl OutOfBounds"
proof -
  let ?ls = "post_lines host url token content_type body cookies"
  have "CR \<notin> set (nat_text (length body))" using nat_text_digits [of CR] by (auto simp: isdigit_def)
  then have "\<forall>l \<in> set ?ls. l \<noteq> [] \<and> CR \<notin> set l"
    using assms by (auto simp: post_lines_def header_line_def split: option.splits)
  then have "strstr (lines_text ?ls @ CRLF @ body @ CRLF) (CRLF @ CRLF) = Some (length (lines_text ?ls) - 2)"
    by (intro strstr_lines) (simp_all add: post_lines_def)
  then show ?thesis
    by (simp add: compute_post_request_eq Let_def) (simp add: post_lines_def)
qed

theorem post_request_framed_witness:
  "\<exists>m. compute_post_request ''h'' ''/'' None ''text/plain'' ''body'' None = Inr m \<and>
     strstr m (CRLF @ CRLF) = Some 69 \<and> drop 73 m = ''body'' @ CRLF"
proof -
  let ?ls = "post_lines ''h'' ''/'' None ''text/plain'' ''body'' None"
  have ls: "?ls = [''POST / HTTP/1.1'', ''Host: h'', ''Content-Type: text/plain'', ''Content-Length: 4'']"
    by (simp add: post_lines_def header_line_def nat_text.simps) code_simp
  have "fits ?ls (length ''body'' + 4)" unfolding ls by (simp add: fits_def LINELEN_def BUFLEN_def)
  moreover have "length (lines_text ?ls) = 71" unfolding ls by simp
  ultimately show ?thesis
    using post_request_framed [of "''h''" "''/''" "''text/plain''" None None "''body''"] by (simp add: Let_def) blast
qed

section \<open>Sending and receiving\<close>

text \<open>
  C38: However few bytes each \<open>write\<close> takes, as long as it takes some, a message is sent whole, in
  order and once, within as many calls as it has bytes.
\<close>

theorem send_delivers_message:
  assumes "\<forall>b \<in> set bs. 0 < b" "length message \<le> length bs" "message \<noteq> []"
  shows "\<exists>pieces bs'. send_to_server bs message = Done pieces bs' \<and> concat pieces = message"
  using send_loop_all [of 0 message "[]" bs] assms by (simp add: send_to_server_def)

theorem send_delivers_message_witness:
  "\<exists>pieces bs'. send_to_server [2, 1, 7] ''abc'' = Done pieces bs' \<and> concat pieces = ''abc''"
  by (rule send_delivers_message) simp_all

text \<open>
  C13: A response with its length in a header is received whole and exactly, in whatever pieces it
  arrives, even cut within the empty line or the length; what arrives behind it is left on the
  connection, and a terminator is put behind it.
\<close>

theorem receive_any_chunks:
  assumes "framed response headers body" "length response < 2 ^ 31" "concat chunks = response" "[] \<notin> set chunks"
  shows "receive_from_server (map Some chunks @ rs) = Done (response @ [NUL]) rs"
  using assms by (rule receive_framed)

definition demo_headers :: string where
  "demo_headers = ''HTTP/1.1 200 OK'' @ CRLF @ ''content-length: 2'' @ CRLF @ CRLF"

theorem receive_any_chunks_witness:
  "receive_from_server (map Some [take 10 (demo_headers @ ''ok''), drop 10 (demo_headers @ ''ok'')] @ []) =
     Done ((demo_headers @ ''ok'') @ [NUL]) []"
proof (rule receive_any_chunks [of "demo_headers @ ''ok''" demo_headers "''ok''"])
  have "strstr (map to_lower (demo_headers @ ''ok'')) (map to_lower CONTENT_LENGTH) = Some 17"
    "strstr (demo_headers @ ''ok'') HEADER_TERMINATOR = Some 34" "length demo_headers = 38" by code_simp+
  moreover have "demo_headers = (''HTTP/1.1 200 OK'' @ CRLF) @ ''content-length: '' @ nat_text (length ''ok'') @ CR # LF # CRLF"
    by (simp add: demo_headers_def nat_text.simps) code_simp
  ultimately show "framed (demo_headers @ ''ok'') demo_headers ''ok''"
    unfolding framed_def by (intro conjI exI [of _ "''HTTP/1.1 200 OK'' @ CRLF"] exI [of _ "''content-length: ''"] exI [of _ "LF # CRLF"]) simp_all
qed (simp_all add: demo_headers_def)

text \<open>
  From a response with lines before it that hold no cookie, the cookie taken is the value up
  to the semicolon, whatever follows; without a cookie in the response the result is a pointer
  that was never set.
\<close>

theorem cookie_of_response:
  assumes "\<forall>l \<in> set ls. LF \<notin> set l \<and> strstr l ''Set-Cookie:'' = None"
    "c \<noteq> []" "set c \<inter> {CHR '' '', CHR '';'', LF} = {}" "LF \<notin> set attrs"
  shows "get_cookies (concat (map (\<lambda>l. l @ [LF]) ls) @ ''Set-Cookie: '' @ c @ '';'' @ attrs @ LF # s) = Some (Some c) \<and>
    (\<forall>r. strstr r ''Set-Cookie:'' = None \<longrightarrow> get_cookies r = None)"
  unfolding get_cookies_def cookie_loop_skips [OF assms(1)]
  using cookie_loop_found [OF assms(2-4)] cookie_loop_none by blast

theorem cookie_of_response_witness:
  "get_cookies (''HTTP/1.1 200 OK\<newline>Set-Cookie: id=x; Path=/\<newline>ok'') = Some (Some ''id=x'')"
proof -
  have "strstr ''HTTP/1.1 200 OK'' ''Set-Cookie:'' = None" by code_simp
  then show ?thesis using cookie_of_response [of "[''HTTP/1.1 200 OK'']" "''id=x''" "'' Path=/''" "''ok''"] by simp
qed

section \<open>The command loop\<close>

text \<open>A connection that takes every write and answers with a framed response of text.\<close>

definition serves :: "connection \<Rightarrow> string \<Rightarrow> bool" where
  "serves c response \<longleftrightarrow> (\<forall>b \<in> set (fst c). 0 < b) \<and> BUFLEN \<le> length (fst c) \<and> NUL \<notin> set response \<and>
     (\<exists>headers body chunks rs. framed response headers body \<and> length response < 2 ^ 31 \<and>
        concat chunks = response \<and> [] \<notin> set chunks \<and> snd c = map Some chunks @ rs)"

lemma exchange_serves:
  assumes "serves c response" "message \<noteq> []" "length message < BUFLEN"
  shows "exchange c message s = Ok response (s\<lparr>requests := requests s @ [message]\<rparr>)"
proof -
  obtain headers body chunks rs where r: "framed response headers body" "length response < 2 ^ 31"
    "concat chunks = response" "[] \<notin> set chunks" "snd c = map Some chunks @ rs" "NUL \<notin> set response"
    using assms(1) by (auto simp: serves_def)
  obtain pieces bs' where "send_to_server (fst c) message = Done pieces bs'" "concat pieces = message"
    using send_loop_all [of 0 message "[]" "fst c"] assms by (auto simp: send_to_server_def serves_def)
  moreover have "takeWhile (\<lambda>c. c \<noteq> NUL) (response @ [NUL]) = response"
    using r(6) by (subst takeWhile_append2) auto
  ultimately show ?thesis using receive_framed [OF r(1-4)] r(5) by (simp add: exchange_def)
qed

lemma act_simps [simp]:
  "m s = Ok x s' \<Longrightarrow> act m f s = f x s'"
  "m s = Crash e \<Longrightarrow> act m f s = Crash e"
  by (simp_all add: act_def)

lemma computed_simps [simp]: "computed (Inr x) s = Ok x s" "computed (Inl e) s = Crash e"
  by (simp_all add: computed_def)

text \<open>A line of input, without its newline.\<close>

definition line_ok :: "nat \<Rightarrow> string \<Rightarrow> bool" where
  "line_ok n l \<longleftrightarrow> l \<noteq> [] \<and> LF \<notin> set l \<and> length l + 1 < n"

lemma read_line_ok:
  assumes "line_ok n l" "stdin s = l @ LF # r"
  shows "read_line old n s = Ok l (s\<lparr>stdin := r\<rparr>)"
proof -
  have tw: "takeWhile (\<lambda>c. c \<noteq> LF) (l @ LF # r) = l" "takeWhile (\<lambda>c. c \<noteq> LF) (l @ [LF]) = l"
    using assms(1) by (subst takeWhile_append2; force simp: line_ok_def)+
  have "min (n - 1) (length l + 1) = length l + 1"
    using assms(1) unfolding line_ok_def by (intro min_absorb2) linarith
  then have "fgets n (l @ LF # r) = Some (l @ [LF], r)"
    using assms(1) tw(1) by (simp add: fgets_def Let_def line_ok_def)
  moreover have "cut_newline (l @ [LF]) = l"
    using assms(1) tw(2) by (cases l) (auto simp: cut_newline_def line_ok_def)
  ultimately show ?thesis using assms(2) by (simp add: read_line_def)
qed

lemma read_line_end: "stdin s = [] \<Longrightarrow> read_line (Some t) n s = Ok (cut_newline t) s"
  by (simp add: read_line_def fgets_def)

text \<open>
  At the end of the input the loop does not stop: it takes the cleared buffer for a command and
  prints the error message in every round, for as many rounds as it is given.
\<close>

theorem client_spins_at_end_of_input:
  "stdin s = [] \<Longrightarrow> client_run L num_of n s =
     Ok True (s\<lparr>printed := printed s @ concat (replicate n ''Bad command, try again!\<newline>'')\<rparr>)"
proof (induction n arbitrary: s)
  case (Suc n)
  have "client_step L num_of s = Ok True (s\<lparr>printed := printed s @ ''Bad command, try again!\<newline>''\<rparr>)"
    using read_line_end [OF Suc.prems, of "[]" LEN]
    by (simp add: client_step_def cut_newline_def starts_with_def run_command_def print_text_def)
  with Suc show ?case by simp
qed simp

theorem client_spins_at_end_of_input_witness:
  "client_run int_lib (\<lambda>i. i) 2 (client_init [] []) =
     Ok True ((client_init [] [])\<lparr>printed := ''Bad command, try again!\<newline>Bad command, try again!\<newline>''\<rparr>)"
  using client_spins_at_end_of_input [of "client_init [] []" int_lib "\<lambda>i. i" 2] by (simp add: client_init_def numeral_2_eq_2)

text \<open>The books of the library by number.\<close>

definition books_url :: string where "books_url = ''/api/v1/tema/library/books/''"

lemma fits_length: "fits ls 2 \<Longrightarrow> length (lines_text ls @ CRLF) < BUFLEN"
  by (simp add: fits_def)

text \<open>
  For a book whose number has at most 22 characters, the client asks the server with a GET
  request on the book's address that carries its token and no cookie, and keeps its credentials. A
  longer number, which its input buffer of 100 bytes takes, runs over the 50 bytes of the address;
  the same holds for the removal of a book.
\<close>

theorem get_book_request:
  assumes "line_ok LEN bid" "stdin s = bid @ LF # r" "connections s = Some c # cs" "serves c response"
    "fits (request_lines ''GET'' HOST (books_url @ bid) None (jwt s)) 2"
  shows "if length bid \<le> 22
    then \<exists>s'. get_book_command s = Ok () s' \<and> cookie s' = cookie s \<and> jwt s' = jwt s \<and> stdin s' = r \<and>
      requests s' = requests s @ [lines_text (request_lines ''GET'' HOST (books_url @ bid) None (jwt s)) @ CRLF]
    else get_book_command s = Crash OutOfBounds \<and> del_book_command s = Crash OutOfBounds"
proof -
  let ?s = "s\<lparr>printed := printed s @ ''id='', stdin := r\<rparr>"
  have rd: "ask ''id='' None LEN s = Ok bid ?s"
    using read_line_ok [OF assms(1), of "s\<lparr>printed := printed s @ ''id=''\<rparr>" r None] assms(2)
    by (simp add: ask_def act_def print_text_def)
  have url: "book_url bid = (if length bid \<le> 22 then Inr (books_url @ bid) else Inl OutOfBounds)"
    by (simp add: book_url_def books_url_def URLLEN_def)
  show ?thesis
  proof (cases "length bid \<le> 22")
    case True
    let ?m = "lines_text (request_lines ''GET'' HOST (books_url @ bid) None (jwt s)) @ CRLF"
    have g: "compute_get_request HOST (books_url @ bid) None (jwt s) = Inr ?m"
      using assms(5) by (simp add: compute_get_request_eq)
    have "exchange c ?m s' = Ok response (s'\<lparr>requests := requests s' @ [?m]\<rparr>)" for s'
      using exchange_serves [OF assms(4) _ fits_length [OF assms(5)]] by simp
    with True rd url g assms(3) show ?thesis
      by (simp add: get_book_command_def print_text_def open_connection_def the_jwt_def)
  next
    case False
    with rd url show ?thesis by (simp add: get_book_command_def del_book_command_def print_text_def)
  qed
qed

text \<open>Responses for the instances, one byte written at a time and the response read at once.\<close>

definition demo_response :: "string \<Rightarrow> string \<Rightarrow> string" where
  "demo_response header body = ''HTTP/1.1 200 OK'' @ CRLF @ ''Content-Length: '' @ nat_text (length body) @ CRLF @ header @ CRLF @ body"

definition demo_connection :: "string \<Rightarrow> connection" where
  "demo_connection response = (replicate BUFLEN 1, [Some response])"

lemma serves_demo:
  assumes "NUL \<notin> set (header @ body)" "length header + length body < 1000" 
    "strstr (demo_response header body) HEADER_TERMINATOR = Some (length (nat_text (length body)) + length header + 33)"
    "strstr (map to_lower (demo_response header body)) (map to_lower CONTENT_LENGTH) = Some 17"
  shows "serves (demo_connection (demo_response header body)) (demo_response header body)"
proof -
  let ?h = "(''HTTP/1.1 200 OK'' @ CRLF) @ ''Content-Length: '' @ nat_text (length body) @ CR # (LF # header @ CRLF)"
  have r: "demo_response header body = ?h @ body" by (simp add: demo_response_def)
  have "framed (demo_response header body) ?h body"
    unfolding framed_def
  proof (intro conjI exI)
    show "?h = (''HTTP/1.1 200 OK'' @ CRLF) @ ''Content-Length: '' @ nat_text (length body) @ CR # (LF # header @ CRLF)" ..
  qed (use assms(3,4) r in simp_all)
  note fr = this
  have "length (nat_text (length body)) \<le> 3" using assms(2) by (intro nat_text_length) simp_all
  then have len: "length (demo_response header body) < 2 ^ 31" using assms(2) by (simp add: demo_response_def)
  have "NUL \<notin> set (nat_text (length body))" using nat_text_digits [of NUL] by (auto simp: isdigit_def)
  then have nul: "NUL \<notin> set (demo_response header body)" using assms(1) by (simp add: demo_response_def)
  have "demo_response header body \<noteq> []" by (simp add: demo_response_def)
  then have "\<exists>headers body' chunks rs. framed (demo_response header body) headers body' \<and> length (demo_response header body) < 2 ^ 31 \<and>
      concat chunks = demo_response header body \<and> [] \<notin> set chunks \<and>
      snd (demo_connection (demo_response header body)) = map Some chunks @ rs"
    using fr len by (intro exI [of _ ?h] exI [of _ body] exI [of _ "[demo_response header body]"] exI [of _ "[]"])
      (simp add: demo_connection_def)
  with nul show ?thesis by (simp add: serves_def demo_connection_def)
qed

definition demo_books :: string where
  "demo_books = demo_response [] ''[]''"

lemma serves_books: "serves (demo_connection demo_books) demo_books"
proof -
  have "strstr demo_books HEADER_TERMINATOR = Some 34"
    "strstr (map to_lower demo_books) (map to_lower CONTENT_LENGTH) = Some 17" "length (nat_text (length ''[]'')) = 1" by code_simp+
  then show ?thesis unfolding demo_books_def by (intro serves_demo) simp_all
qed

definition demo_client :: client where
  "demo_client = (client_init ''7\<newline>'' [Some (demo_connection demo_books)])\<lparr>jwt := Some ''t''\<rparr>"

theorem get_book_request_witness:
  "\<exists>s'. get_book_command demo_client = Ok () s' \<and> jwt s' = Some ''t'' \<and>
     requests s' = [lines_text [''GET /api/v1/tema/library/books/7 HTTP/1.1'', ''Host: 34.118.48.238'', ''Authorization: Bearer t''] @ CRLF]"
proof -
  have ls: "request_lines ''GET'' HOST (books_url @ ''7'') None (Some ''t'') =
      [''GET /api/v1/tema/library/books/7 HTTP/1.1'', ''Host: 34.118.48.238'', ''Authorization: Bearer t'']"
    by (simp add: request_lines_def header_line_def HOST_def books_url_def)
  have "fits (request_lines ''GET'' HOST (books_url @ ''7'') None (jwt demo_client)) 2"
    by (simp add: demo_client_def ls) (simp add: fits_def LINELEN_def BUFLEN_def)
  moreover have "line_ok LEN ''7''" by (simp add: line_ok_def LEN_def)
  ultimately show ?thesis
    using get_book_request [of "''7''" demo_client "[]" "demo_connection demo_books" "[]" demo_books] serves_books
    by (auto simp: demo_client_def client_init_def ls)
qed

end
