(* ===== verification/SessionProps.thy ===== *)
theory SessionProps
  imports WebProps
begin

text \<open>
  Whole sessions of the client of \<^verbatim>\<open>Tema_3\<close>: the body it sends is read back by the JSON parser, and
  the credentials one command obtains are presented by the next.
\<close>

section \<open>Bodies\<close>

lemma set_absent:
  assumes "obj_rep obj ms" "name \<notin> fst ` set ms"
  shows "\<exists>obj'. json_object_set_value obj name False v = Inr (Some obj') \<and> obj_rep obj' (ms @ [(name, v)])"
proof (rule find_name_cases [OF assms(1), of name])
  fix j
  assume "map_of ms name = Some (snd (ms ! j))"
  with assms(2) show ?thesis by (metis map_of_SomeD fst_conv image_eqI)
next
  assume "find_name (names obj) name 0 (ocount obj) = Inr None"
  then show ?thesis using addn_rep [OF assms(1), of name v] assms(2) by (simp add: json_object_set_value_def)
qed

lemma members_from_rep:
  assumes "obj_rep obj ms"
  shows "i + k = length ms \<Longrightarrow> members_from obj i k = Inr (drop i ms)"
proof (induction k arbitrary: i)
  case (Suc k)
  then have "members_from obj (Suc i) k = Inr (drop (Suc i) ms)" "i < length ms" by simp_all
  moreover have "drop i ms = (fst (ms ! i), snd (ms ! i)) # drop (Suc i) ms" using Suc.prems by (simp add: Cons_nth_drop_Suc)
  ultimately show ?case using read_slot_rep [OF assms, of i] by simp
qed simp

lemma object_text_rep:
  "obj_rep obj ms \<Longrightarrow> object_text L obj = Inr (json_text L True True 0 (VObject ms))"
  using members_from_rep [of obj ms 0 "length ms"] obj_repD(1) [of obj ms]
  by (simp add: object_text_def json_serialize_to_string_pretty_def json_serialize_to_buffer_pretty_def
      json_serialization_size_pretty_def json_serialize_to_buffer_r_def serialize_eq append_string_def)

lemma set_string_absent:
  assumes "obj_rep obj ms" "name \<notin> fst ` set ms" "is_valid_utf8 s (length s)"
  shows "\<exists>obj'. or_same obj (json_object_set_string obj name (Some s)) = Inr obj' \<and> obj_rep obj' (ms @ [(name, VString s)])"
  using set_absent [OF assms(1,2), of "VString s"] assms(3)
  by (auto simp: or_same_def json_object_set_string_def store_new_def json_value_init_string_def json_value_init_string_with_len_def)

definition credentials :: "string \<Rightarrow> string \<Rightarrow> 'n json_value" where
  "credentials user pass = VObject [(''username'', VString user), (''password'', VString pass)]"

lemma credentials_body_eq:
  assumes "is_valid_utf8 user (length user)" "is_valid_utf8 pass (length pass)"
  shows "credentials_body L user pass = Inr (json_text L True True 0 (credentials user pass))"
proof -
  obtain o1 where o1: "or_same json_object_init (json_object_set_string json_object_init ''username'' (Some user)) = Inr o1"
    "obj_rep o1 [(''username'', VString user :: 'a json_value)]"
    using set_string_absent [OF obj_rep_init _ assms(1), of "''username''"] by auto
  obtain o2 where "or_same o1 (json_object_set_string o1 ''password'' (Some pass)) = Inr o2"
    "obj_rep o2 [(''username'', VString user :: 'a json_value), (''password'', VString pass)]"
    using set_string_absent [OF o1(2) _ assms(2), of "''password''"] by auto
  with o1(1) show ?thesis by (simp add: credentials_body_def object_text_rep credentials_def)
qed



section \<open>Sessions\<close>

lemma length_quoted: "length (quoted esc s) \<le> 6 * length s + 2"
proof -
  have "length (escape_char esc c) \<le> 6" for c by (simp add: escape_char_def)
  then have "length (concat (map (escape_char esc) s)) \<le> 6 * length s"
    by (induction s) (simp_all add: add_mono)
  then show ?thesis by (simp add: quoted_def)
qed

lemma length_credentials:
  "length (json_text L True True 0 (credentials user pass)) \<le> 6 * length user + 6 * length pass + 200"
  using length_quoted [of True user] length_quoted [of True pass] length_quoted [of True "''username''"]
    length_quoted [of True "''password''"]
  by (simp add: credentials_def spaces_def)

lemma fits_post:
  assumes "length url \<le> 40" "length body \<le> 1500"
  shows "fits (post_lines HOST url None ''application/json'' body None) (length body + 4)"
proof -
  have "length (nat_text (length body)) \<le> 4" using assms(2) by (intro nat_text_length) simp_all
  with assms show ?thesis by (simp add: fits_def post_lines_def header_line_def LINELEN_def BUFLEN_def HOST_def)
qed

text \<open>The message a registration or a login sends.\<close>

definition credentials_message :: "'n numlib \<Rightarrow> string \<Rightarrow> string \<Rightarrow> string \<Rightarrow> string" where
  "credentials_message L url user pass =
     (let body = json_text L True True 0 (credentials user pass)
      in lines_text (post_lines HOST url None ''application/json'' body None) @ CRLF @ body @ CRLF)"

lemma ask_ok:
  assumes "line_ok n l" "stdin s = l @ LF # r"
  shows "ask prompt old n s = Ok l (s\<lparr>printed := printed s @ prompt, stdin := r\<rparr>)"
  using read_line_ok [OF assms(1), of "s\<lparr>printed := printed s @ prompt\<rparr>" r old] assms(2)
  by (simp add: ask_def act_def print_text_def)

lemma post_credentials_ok:
  assumes "line_ok LEN user" "line_ok LEN pass" "is_valid_utf8 user (length user)" "is_valid_utf8 pass (length pass)"
    "stdin s = user @ LF # pass @ LF # r" "connections s = Some c # cs" "serves c response" "length url \<le> 40"
  shows "\<exists>out. post_credentials L url s = Ok response (s\<lparr>stdin := r, connections := cs,
    requests := requests s @ [credentials_message L url user pass], printed := out\<rparr>)"
proof -
  let ?body = "json_text L True True 0 (credentials user pass)" and ?m = "credentials_message L url user pass"
  have "length user \<le> 98" "length pass \<le> 98" using assms(1,2) by (simp_all add: line_ok_def LEN_def)
  then have "length ?body \<le> 1500" using length_credentials [of L user pass] by linarith
  from fits_post [OF assms(8) this] have fits: "fits (post_lines HOST url None ''application/json'' ?body None) (length ?body + 4)" .
  then have m: "compute_post_request HOST url None ''application/json'' ?body None = Inr ?m" "length ?m < BUFLEN"
    by (simp_all add: compute_post_request_eq credentials_message_def Let_def fits_def)
  have "?m \<noteq> []" by (simp add: credentials_message_def Let_def)
  then have ex: "exchange c ?m s' = Ok response (s'\<lparr>requests := requests s' @ [?m]\<rparr>)" for s'
    using exchange_serves [OF assms(7)] m(2) by blast
  let ?s1 = "s\<lparr>printed := printed s @ ''username:'', stdin := pass @ LF # r\<rparr>"
  have r1: "ask ''username:'' (Some []) LEN s = Ok user ?s1" using ask_ok [OF assms(1,5)] .
  have r2: "ask ''password:'' (Some []) LEN ?s1 = Ok pass (?s1\<lparr>printed := printed ?s1 @ ''password:'', stdin := r\<rparr>)"
    by (rule ask_ok [OF assms(2)]) simp
  show ?thesis
    by (intro exI [of _ "printed s @ ''username:'' @ ''password:'' @ [LF] @ response @ [LF, LF]"])
      (use r1 r2 ex m(1) assms(6) in \<open>simp add: post_credentials_def print_text_def credentials_body_eq assms(3,4) open_connection_def\<close>)
qed

lemma client_step_ok:
  assumes "line_ok LEN command" "stdin s = command @ LF # r" "\<not> starts_with ''exit'' command"
    "run_command L num_of command (s\<lparr>stdin := r\<rparr>) = Ok () s'"
  shows "client_step L num_of s = Ok True s'"
  using read_line_ok [OF assms(1,2), of "Some []"] assms(3,4) by (simp add: client_step_def)

text \<open>The requests of a session.\<close>

definition get_text :: "string \<Rightarrow> string option \<Rightarrow> string option \<Rightarrow> string" where
  "get_text url ck t = lines_text (request_lines ''GET'' HOST url ck t) @ CRLF"

lemma get_ok:
  assumes "fits (request_lines ''GET'' HOST url ck t) 2"
  shows "compute_get_request HOST url ck t = Inr (get_text url ck t)"
    "serves c response \<Longrightarrow> exchange c (get_text url ck t) s = Ok response (s\<lparr>requests := requests s @ [get_text url ck t]\<rparr>)"
  using assms exchange_serves [OF _ _ fits_length [OF assms]]
  by (simp_all add: compute_get_request_eq get_text_def)

lemma login_ok:
  assumes "line_ok LEN user" "line_ok LEN pass" "is_valid_utf8 user (length user)" "is_valid_utf8 pass (length pass)"
    "stdin s = user @ LF # pass @ LF # r" "connections s = Some c # cs" "serves c response" "cookie s = Some None"
    "strstr response ''error'' = None"
  shows "\<exists>out. login_command L s = Ok () (s\<lparr>stdin := r, connections := cs, cookie := get_cookies response,
    requests := requests s @ [credentials_message L ''/api/v1/tema/auth/login'' user pass], printed := out\<rparr>)"
proof -
  obtain out where "post_credentials L ''/api/v1/tema/auth/login'' s = Ok response (s\<lparr>stdin := r, connections := cs,
      requests := requests s @ [credentials_message L ''/api/v1/tema/auth/login'' user pass], printed := out\<rparr>)"
    using post_credentials_ok [OF assms(1-7), of "''/api/v1/tema/auth/login''" L] by auto
  with assms(8,9) show ?thesis by (intro exI [of _ out]) (simp add: login_command_def the_cookie_def)
qed

lemma enter_library_ok:
  assumes "connections s = Some c # cs" "serves c response" "cookie s = Some ck"
    "fits (request_lines ''GET'' HOST ''/api/v1/tema/library/access'' ck None) 2"
  shows "\<exists>out. enter_library_command s = Ok () (s\<lparr>connections := cs, jwt := jwt_loop (jwt s) response,
    requests := requests s @ [get_text ''/api/v1/tema/library/access'' ck None], printed := out\<rparr>)"
  by (intro exI [of _ "printed s @ response @ [LF, LF]"]) (use assms get_ok [OF assms(4)] in \<open>simp add: enter_library_command_def open_connection_def the_cookie_def print_text_def\<close>)

lemma get_books_ok:
  assumes "connections s = Some c # cs" "serves c response" "cookie s = Some ck"
    "fits (request_lines ''GET'' HOST ''/api/v1/tema/library/books'' ck (jwt s)) 2"
  shows "\<exists>out. get_books_command s = Ok () (s\<lparr>connections := cs,
    requests := requests s @ [get_text ''/api/v1/tema/library/books'' ck (jwt s)], printed := out\<rparr>)"
  by (intro exI [of _ "(printed s @ [LF]) @ response @ [LF, LF]"]) (use assms get_ok [OF assms(4)] in \<open>simp add: get_books_command_def open_connection_def the_cookie_def the_jwt_def print_text_def\<close>)

text \<open>
  C8: A session. Where the server answers the login without an error and with a cookie, and the
  request for access with a token, the client sends, in this order, the credentials typed, a request
  for access with the cookie, and a request for the books with both, and keeps both; each response may
  arrive in any pieces, and the input behind the three commands is left for the next.
\<close>

theorem session_presents_credentials:
  assumes "line_ok LEN user" "line_ok LEN pass" "is_valid_utf8 user (length user)" "is_valid_utf8 pass (length pass)"
    "serves c1 r1" "strstr r1 ''error'' = None" "get_cookies r1 = Some (Some ck)"
    "serves c2 r2" "jwt_loop None r2 = Some t" "serves c3 r3"
    "fits (request_lines ''GET'' HOST ''/api/v1/tema/library/access'' (Some ck) None) 2"
    "fits (request_lines ''GET'' HOST ''/api/v1/tema/library/books'' (Some ck) (Some t)) 2"
  shows "\<exists>out. client_run L num_of 3
      (client_init (''login\<newline>'' @ user @ LF # pass @ LF # ''enter_library\<newline>get_books\<newline>'' @ inp) (Some c1 # Some c2 # Some c3 # cs)) =
    Ok True \<lparr>cookie = Some (Some ck), jwt = Some t, stdin = inp, connections = cs,
      requests = [credentials_message L ''/api/v1/tema/auth/login'' user pass,
        get_text ''/api/v1/tema/library/access'' (Some ck) None, get_text ''/api/v1/tema/library/books'' (Some ck) (Some t)],
      printed = out\<rparr>"
proof -
  have lines: "line_ok LEN ''login''" "line_ok LEN ''enter_library''" "line_ok LEN ''get_books''"
    by (simp_all add: line_ok_def LEN_def)
  let ?i3 = "''get_books'' @ LF # inp" and ?m1 = "credentials_message L ''/api/v1/tema/auth/login'' user pass"
    and ?m2 = "get_text ''/api/v1/tema/library/access'' (Some ck) None"
  let ?s0 = "client_init (''login'' @ LF # user @ LF # pass @ LF # ''enter_library'' @ LF # ?i3) (Some c1 # Some c2 # Some c3 # cs)"
  let ?i2 = "''enter_library'' @ LF # ?i3"
  obtain o1 where "login_command L (?s0\<lparr>stdin := user @ LF # pass @ LF # ?i2\<rparr>) =
      Ok () \<lparr>cookie = Some (Some ck), jwt = None, stdin = ?i2, connections = Some c2 # Some c3 # cs, requests = [?m1], printed = o1\<rparr>"
    (is "_ = Ok () ?s1")
    using login_ok [OF assms(1-4) _ _ assms(5) _ assms(6), of "?s0\<lparr>stdin := user @ LF # pass @ LF # ?i2\<rparr>" ?i2 _ L] assms(7)
    by (auto simp: client_init_def)
  then have st1: "client_step L num_of ?s0 = Ok True ?s1"
    by (intro client_step_ok [OF lines(1)]) (simp_all add: run_command_def starts_with_def client_init_def)
  obtain o2 where "enter_library_command (?s1\<lparr>stdin := ?i3\<rparr>) =
      Ok () \<lparr>cookie = Some (Some ck), jwt = Some t, stdin = ?i3, connections = Some c3 # cs, requests = [?m1, ?m2], printed = o2\<rparr>"
    (is "_ = Ok () ?s2")
    using enter_library_ok [OF _ assms(8) _ assms(11), of "?s1\<lparr>stdin := ?i3\<rparr>"] assms(9) by auto
  then have st2: "client_step L num_of ?s1 = Ok True ?s2"
    by (intro client_step_ok [OF lines(2)]) (simp_all add: run_command_def starts_with_def)
  obtain o3 where "get_books_command (?s2\<lparr>stdin := inp\<rparr>) =
      Ok () \<lparr>cookie = Some (Some ck), jwt = Some t, stdin = inp, connections = cs,
        requests = [?m1, ?m2, get_text ''/api/v1/tema/library/books'' (Some ck) (Some t)], printed = o3\<rparr>"
    (is "_ = Ok () ?s3")
    using get_books_ok [OF _ assms(10), of "?s2\<lparr>stdin := inp\<rparr>"] assms(12) by auto
  then have st3: "client_step L num_of ?s2 = Ok True ?s3"
    by (intro client_step_ok [OF lines(3)]) (simp_all add: run_command_def starts_with_def)
  have "client_run L num_of 3 ?s0 = Ok True ?s3"
    using st1 st2 st3 by (simp add: eval_nat_numeral)
  then show ?thesis by auto
qed

definition demo_login :: string where
  "demo_login = demo_response (''Set-Cookie: id=x; Path=/'' @ CRLF) ''ok''"

definition demo_access :: string where
  "demo_access = demo_response [] ([CHR ''{'', DQUOTE] @ ''token'' @ [DQUOTE, CHR '':'', DQUOTE] @ ''abc'' @ [DQUOTE, CHR ''}''])"

lemma serves_login: "serves (demo_connection demo_login) demo_login"
  "strstr demo_login ''error'' = None" "get_cookies demo_login = Some (Some ''id=x'')"
proof -
  have "strstr demo_login HEADER_TERMINATOR = Some 60" "length (nat_text (length ''ok'')) = 1"
    "strstr (map to_lower demo_login) (map to_lower CONTENT_LENGTH) = Some 17" by code_simp+
  then show "serves (demo_connection demo_login) demo_login"
    unfolding demo_login_def by (intro serves_demo) simp_all
  show "strstr demo_login ''error'' = None" "get_cookies demo_login = Some (Some ''id=x'')" by code_simp+
qed

lemma serves_access: "serves (demo_connection demo_access) demo_access" "jwt_loop None demo_access = Some ''abc''"
proof -
  have "strstr demo_access HEADER_TERMINATOR = Some 35"
    "length (nat_text (length ([CHR ''{'', DQUOTE] @ ''token'' @ [DQUOTE, CHR '':'', DQUOTE] @ ''abc'' @ [DQUOTE, CHR ''}'']))) = 2"
    "strstr (map to_lower demo_access) (map to_lower CONTENT_LENGTH) = Some 17" by code_simp+
  then show "serves (demo_connection demo_access) demo_access"
    unfolding demo_access_def by (intro serves_demo) simp_all
  show "jwt_loop None demo_access = Some ''abc''" by code_simp
qed

theorem session_presents_credentials_witness:
  "\<exists>s. client_run int_lib (\<lambda>i. i) 3
      (client_init (''login\<newline>ana\<newline>pw\<newline>enter_library\<newline>get_books\<newline>exit\<newline>'')
        [Some (demo_connection demo_login), Some (demo_connection demo_access), Some (demo_connection demo_books)]) = Ok True s \<and>
    requests s ! 2 = lines_text [''GET /api/v1/tema/library/books HTTP/1.1'', ''Host: 34.118.48.238'', ''Cookie: id=x; '',
      ''Authorization: Bearer abc''] @ CRLF \<and> stdin s = ''exit\<newline>''"
proof -
  have ls: "request_lines ''GET'' HOST ''/api/v1/tema/library/books'' (Some ''id=x'') (Some ''abc'') =
      [''GET /api/v1/tema/library/books HTTP/1.1'', ''Host: 34.118.48.238'', ''Cookie: id=x; '', ''Authorization: Bearer abc'']"
    "request_lines ''GET'' HOST ''/api/v1/tema/library/access'' (Some ''id=x'') None =
      [''GET /api/v1/tema/library/access HTTP/1.1'', ''Host: 34.118.48.238'', ''Cookie: id=x; '']"
    by (simp_all add: request_lines_def header_line_def HOST_def)
  have f: "fits (request_lines ''GET'' HOST ''/api/v1/tema/library/access'' (Some ''id=x'') None) 2"
    "fits (request_lines ''GET'' HOST ''/api/v1/tema/library/books'' (Some ''id=x'') (Some ''abc'')) 2"
    unfolding ls by (simp_all add: fits_def LINELEN_def BUFLEN_def)
  have l: "line_ok LEN ''ana''" "line_ok LEN ''pw''" by (simp_all add: line_ok_def LEN_def)
  have v: "is_valid_utf8 ''ana'' (length ''ana'')" "is_valid_utf8 ''pw'' (length ''pw'')" by (intro valid_ascii; simp)+
  obtain out where "client_run int_lib (\<lambda>i. i) 3
      (client_init (''login\<newline>'' @ ''ana'' @ LF # ''pw'' @ LF # ''enter_library\<newline>get_books\<newline>'' @ ''exit\<newline>'')
        [Some (demo_connection demo_login), Some (demo_connection demo_access), Some (demo_connection demo_books)]) =
    Ok True \<lparr>cookie = Some (Some ''id=x''), jwt = Some ''abc'', stdin = ''exit\<newline>'', connections = [],
      requests = [credentials_message int_lib ''/api/v1/tema/auth/login'' ''ana'' ''pw'',
        get_text ''/api/v1/tema/library/access'' (Some ''id=x'') None, get_text ''/api/v1/tema/library/books'' (Some ''id=x'') (Some ''abc'')],
      printed = out\<rparr>"
    using session_presents_credentials [OF l v serves_login serves_access serves_books f, of int_lib "\<lambda>i. i" "''exit\<newline>''" "[]"] by blast
  then show ?thesis by (simp add: get_text_def ls)
qed

section \<open>Tokens\<close>

lemma jwt_loop_skip:
  assumes "LF \<notin> set l" "strstr l ''token'' = None"
  shows "jwt_loop t (l @ LF # s) = jwt_loop t s"
proof (cases "l = []")
  case True
  then show ?thesis by (subst (1 2) jwt_loop.simps) (simp add: strtok_skip)
next
  case False
  have "strtok [LF] (l @ LF # s) = Some (l, s)" using False assms(1) by (intro strtok_token) auto
  with assms(2) show ?thesis by (subst jwt_loop.simps) simp
qed

lemma jwt_loop_skips:
  "\<forall>l \<in> set ls. LF \<notin> set l \<and> strstr l ''token'' = None \<Longrightarrow>
   jwt_loop t (concat (map (\<lambda>l. l @ [LF]) ls) @ s) = jwt_loop t s"
  by (induction ls) (simp_all add: jwt_loop_skip)

lemma jwt_loop_none: "strstr s ''token'' = None \<Longrightarrow> jwt_loop t s = t"
proof (induction s arbitrary: t rule: length_induct)
  case (1 s)
  show ?case
  proof (cases "strtok [LF] s")
    case None
    then show ?thesis by (subst jwt_loop.simps) simp
  next
    case (Some ur)
    obtain u r where ur: "strtok [LF] s = Some (u, r)" using Some by (cases ur) simp
    obtain a b a' where s: "s = a @ u @ b" "s = a' @ r" using strtok_Some(4,5) [OF ur] by blast
    have "strstr u ''token'' = None" using strstr_sub [of a u b] 1(2) s(1) by simp
    moreover have "strstr r ''token'' = None" using strstr_sub [of a' r "[]"] 1(2) s(2) by simp
    ultimately show ?thesis using 1(1) strtok_Some(2) [OF ur] ur by (subst jwt_loop.simps) simp
  qed
qed

text \<open>
  The token taken from a response is what stands in quotes behind the first colon of the first
  line with the word in it; a response without the word leaves the token as it was.
\<close>

theorem token_of_response:
  assumes "\<forall>l \<in> set ls. LF \<notin> set l \<and> strstr l ''token'' = None"
    "strstr key ''token'' \<noteq> None" "set key \<inter> {CHR '':'', LF} = {}"
    "t \<noteq> []" "set t \<inter> {DQUOTE, LF} = {}" "LF \<notin> set b" "strstr b ''token'' = None"
  shows "jwt_loop t0 (concat (map (\<lambda>l. l @ [LF]) ls) @ key @ CHR '':'' # DQUOTE # t @ DQUOTE # b) = Some t \<and>
    (\<forall>r. strstr r ''token'' = None \<longrightarrow> jwt_loop t0 r = t0)"
proof -
  let ?l = "key @ CHR '':'' # DQUOTE # t @ DQUOTE # b"
  have key: "key \<noteq> []" using assms(2) by auto
  have "strtok [LF] ?l = Some (?l, [])" using assms key by (intro strtok_token(2) [where d = LF]) auto
  moreover have "strstr ?l ''token'' \<noteq> None" using strstr_sub [of "[]" key _ "''token''"] assms(2) by fastforce
  moreover have "strtok '':'' ?l = Some (key, DQUOTE # t @ DQUOTE # b)" using key assms(3) by (intro strtok_token) auto
  moreover have "strtok [DQUOTE] (DQUOTE # t @ DQUOTE # b) = Some (t, b)"
    using strtok_token(1) [of t "[DQUOTE]" DQUOTE b] assms(4,5) by (auto simp: strtok_skip)
  ultimately have "jwt_loop t0 ?l = jwt_loop (Some t) b" by (subst jwt_loop.simps) (simp add: strtok_call_def)
  also have "... = Some t" using assms(7) by (rule jwt_loop_none)
  finally show ?thesis using jwt_loop_none by (simp add: jwt_loop_skips [OF assms(1)])
qed

theorem token_of_response_witness:
  "jwt_loop None (''OK\<newline>'' @ (CHR ''{'' # ''token'') @ CHR '':'' # DQUOTE # ''e.y'' @ DQUOTE # ''}'') = Some ''e.y''"
  using token_of_response [of "[''OK'']" "CHR ''{'' # ''token''" "''e.y''" "''}''" None]
  by (simp add: strstr.simps)

section \<open>Logging in twice and logging out\<close>

text \<open>
  Logging out presents the cookie once more and forgets both cookie and token, so that the client
  may log in again; while it holds a cookie a login asks for nothing and sends nothing.
\<close>

theorem logout_forgets:
  assumes "connections s = Some c # cs" "serves c response" "cookie s = Some ck"
    "fits (request_lines ''GET'' HOST ''/api/v1/tema/auth/logout'' ck None) 2"
  shows "(\<exists>out. logout_command s = Ok () (s\<lparr>connections := cs, cookie := Some None, jwt := None,
      requests := requests s @ [get_text ''/api/v1/tema/auth/logout'' ck None], printed := out\<rparr>)) \<and>
    (ck \<noteq> None \<longrightarrow> login_command L s = Ok () (s\<lparr>printed := printed s @ ''Already logged in!\<newline>''\<rparr>))"
proof -
  have "logout_command s = Ok () (s\<lparr>connections := cs, cookie := Some None, jwt := None,
      requests := requests s @ [get_text ''/api/v1/tema/auth/logout'' ck None],
      printed := (printed s @ ''Logging out.....'' @ [LF, LF]) @ response @ [LF]\<rparr>)"
    using assms get_ok [OF assms(4)] by (simp add: logout_command_def open_connection_def the_cookie_def print_text_def)
  with assms(3) show ?thesis by (simp add: login_command_def the_cookie_def print_text_def) blast
qed

theorem logout_forgets_witness:
  "\<exists>s. logout_command ((client_init [] [Some (demo_connection demo_books)])\<lparr>cookie := Some (Some ''id=x''), jwt := Some ''t''\<rparr>) = Ok () s \<and>
     cookie s = Some None \<and> jwt s = None"
proof -
  have "fits (request_lines ''GET'' HOST ''/api/v1/tema/auth/logout'' (Some ''id=x'') None) 2"
    by (simp add: request_lines_def header_line_def HOST_def fits_def LINELEN_def BUFLEN_def)
  with logout_forgets [OF _ serves_books,
      of "(client_init [] [Some (demo_connection demo_books)])\<lparr>cookie := Some (Some ''id=x''), jwt := Some ''t''\<rparr>" "[]" "Some ''id=x''" int_lib]
  show ?thesis by (auto simp: client_init_def)
qed

end
