(* ===== verification/StdMap.thy ===== *)
theory StdMap
  imports CString "HOL-Library.Char_ord" "HOL-Library.List_Lexorder"
begin

text \<open>
  \<open>std::map\<close> as the server of \<^verbatim>\<open>Tema_2\<close> uses it: a list of pairs in the order of the keys, which is
  the order of its iterators. Strings are ordered by their characters as unsigned bytes.
\<close>

type_synonym ('k, 'v) std_map = "('k \<times> 'v) list"

text \<open>Assignment through \<open>operator[]\<close>, \<open>insert\<close>, which keeps an entry that is there, and \<open>operator[]\<close> read.\<close>

fun map_put :: "'k::linorder \<Rightarrow> 'v \<Rightarrow> ('k, 'v) std_map \<Rightarrow> ('k, 'v) std_map" where
  "map_put k v [] = [(k, v)]"
| "map_put k v (p # m) =
     (if k < fst p then (k, v) # p # m else if k = fst p then (k, v) # m else p # map_put k v m)"

definition map_insert :: "'k::linorder \<Rightarrow> 'v \<Rightarrow> ('k, 'v) std_map \<Rightarrow> ('k, 'v) std_map" where
  "map_insert k v m = (if map_of m k = None then map_put k v m else m)"

definition map_at :: "'k::linorder \<Rightarrow> 'v \<Rightarrow> ('k, 'v) std_map \<Rightarrow> 'v" where
  "map_at k v m = (case map_of m k of None \<Rightarrow> v | Some w \<Rightarrow> w)"

text \<open>\<open>count\<close>, and a loop that stops at the first entry with a property: to change it, erase it, find it.\<close>

definition map_count :: "'k \<Rightarrow> ('k, 'v) std_map \<Rightarrow> nat" where
  "map_count k m = (if map_of m k = None then 0 else 1)"

fun update_first :: "('v \<Rightarrow> bool) \<Rightarrow> ('v \<Rightarrow> 'v) \<Rightarrow> ('k, 'v) std_map \<Rightarrow> ('k, 'v) std_map" where
  "update_first P f [] = []"
| "update_first P f (p # m) = (if P (snd p) then (fst p, f (snd p)) # m else p # update_first P f m)"

fun erase_first :: "('v \<Rightarrow> bool) \<Rightarrow> ('k, 'v) std_map \<Rightarrow> ('k, 'v) std_map" where
  "erase_first P [] = []"
| "erase_first P (p # m) = (if P (snd p) then m else p # erase_first P m)"

fun find_first :: "('v \<Rightarrow> bool) \<Rightarrow> ('k, 'v) std_map \<Rightarrow> ('k \<times> 'v) option" where
  "find_first P [] = None"
| "find_first P (p # m) = (if P (snd p) then Some p else find_first P m)"

text \<open>A loop over all entries that may change each.\<close>

definition update_all :: "('v \<Rightarrow> 'w) \<Rightarrow> ('k, 'v) std_map \<Rightarrow> ('k, 'w) std_map" where
  "update_all f m = map (\<lambda>p. (fst p, f (snd p))) m"

section \<open>The contract\<close>

definition in_order :: "('k::linorder, 'v) std_map \<Rightarrow> bool" where
  "in_order m \<longleftrightarrow> sorted_wrt (<) (map fst m)"

locale ordered_map =
  fixes ok :: "'m \<Rightarrow> bool"
    and look :: "'m \<Rightarrow> 'k \<Rightarrow> 'v option"
    and put :: "'k \<Rightarrow> 'v \<Rightarrow> 'm \<Rightarrow> 'm"
    and ins :: "'k \<Rightarrow> 'v \<Rightarrow> 'm \<Rightarrow> 'm"
  assumes ok_put: "ok m \<Longrightarrow> ok (put k v m)"
    and ok_ins: "ok m \<Longrightarrow> ok (ins k v m)"
    and look_put: "look (put k v m) j = (if j = k then Some v else look m j)"
    and look_ins: "look (ins k v m) j = (if j = k \<and> look m k = None then Some v else look m j)"
begin

text \<open>What an insertion finds stays, and a second one changes nothing.\<close>

lemma look_ins_same: "look (ins k v m) k = Some (case look m k of None \<Rightarrow> v | Some w \<Rightarrow> w)"
  by (simp add: look_ins split: option.split)

lemma look_ins_twice: "look (ins k w (ins k v m)) = look (ins k v m)"
  by (rule ext) (simp add: look_ins)

lemma look_put_put: "look (put k w (put k v m)) = look (put k w m)"
  by (rule ext) (simp add: look_put)

lemma look_other: "j \<noteq> k \<Longrightarrow> look (put k v m) j = look m j" "j \<noteq> k \<Longrightarrow> look (ins k v m) j = look m j"
  by (simp_all add: look_put look_ins)

end

lemma map_of_map_put: "map_of (map_put k v m) j = (if j = k then Some v else map_of m j)"
  by (induction m) auto

lemma keys_map_put: "fst ` set (map_put k v m) = insert k (fst ` set m)"
  by (induction m) auto

lemma set_map_put: "set (map_put k v m) \<subseteq> insert (k, v) (set m)"
  by (induction m) auto

lemma in_order_map_put: "in_order m \<Longrightarrow> in_order (map_put k v m)"
proof (induction m)
  case (Cons p m)
  have "\<forall>j \<in> set (map fst (map_put k v m)). fst p < j" if "fst p < k"
    using Cons.prems that keys_map_put [of k v m] by (auto simp: in_order_def)
  moreover have "in_order (map_put k v m)" using Cons by (simp add: in_order_def)
  ultimately show ?case using Cons.prems by (auto simp: in_order_def)
qed (simp add: in_order_def)

interpretation sm: ordered_map in_order map_of map_put map_insert
  by unfold_locales (auto simp: map_insert_def in_order_map_put map_of_map_put)

section \<open>The loops\<close>

lemma keys_update_first: "map fst (update_first P f m) = map fst m"
  by (induction m) auto

lemma keys_update_all [simp]: "map fst (update_all f m) = map fst m"
  by (simp add: update_all_def)

lemma map_of_update_all: "map_of (update_all f m) k = map_option f (map_of m k)"
  by (induction m) (auto simp: update_all_def)

lemma set_erase_first: "set (erase_first P m) \<subseteq> set m"
  by (induction m) auto

lemma in_order_same_keys: "map fst m' = map fst m \<Longrightarrow> in_order m' = in_order m"
  by (simp add: in_order_def)

lemma in_order_erase_first: "in_order m \<Longrightarrow> in_order (erase_first P m)"
  using set_erase_first by (induction m) (fastforce simp: in_order_def)+

lemma in_order_distinct: "in_order m \<Longrightarrow> distinct (map fst m)"
  by (simp add: in_order_def strict_sorted_iff)

lemma find_first_Some: "find_first P m = Some (k, v) \<Longrightarrow> (k, v) \<in> set m \<and> P v"
  by (induction m) (auto split: if_splits)

lemma find_first_None: "find_first P m = None \<longleftrightarrow> (\<forall>p \<in> set m. \<not> P (snd p))"
  by (induction m) auto

lemma set_update_first: "set (update_first P f m) \<subseteq> set m \<union> (\<lambda>p. (fst p, f (snd p))) ` set m"
  by (induction m) auto

lemma set_map_insert: "set (map_insert k v m) \<subseteq> insert (k, v) (set m)"
  using set_map_put [of k v m] by (auto simp: map_insert_def)

end
