(* ===== verification/Server.thy ===== *)
theory Server
  imports StdMap
begin

text \<open>
  The broker of \<^verbatim>\<open>Tema_2/server.cpp\<close>: three maps and the set of descriptors it selects on. One
  round of the inner loop handles one ready descriptor: an \<open>event\<close> is that descriptor with what the
  kernel delivers on it. A handler returns the new state and what it does to the world, in order.
\<close>

definition SERVER_BUFLEN :: nat where "SERVER_BUFLEN = 1600"

abbreviation NL :: char where "NL \<equiv> CHR 0x0A"

section \<open>Messages and clients\<close>

record udp_msg =
  utopic :: string
  utype :: char
  udata :: string

record tcp_msg_to_send =
  udp_cl_ip :: string
  udp_cl_port :: nat
  msg_udp :: udp_msg

record sclient =
  cid :: string
  connected :: bool
  sf :: char
  cfd :: nat

text \<open>The fields of a datagram, by their offsets in the packed structure.\<close>

definition udp_msg_at :: "string \<Rightarrow> udp_msg" where
  "udp_msg_at buff = \<lparr>utopic = take 50 buff, utype = char_at buff 50, udata = take 1500 (drop 51 buff)\<rparr>"

text \<open>
  The buffer is cleared before it is filled; a string in it ends at the first terminator, and
  reading one without a terminator goes past the buffer.
\<close>

definition filled :: "string \<Rightarrow> string" where
  "filled bytes = take SERVER_BUFLEN bytes @ replicate (SERVER_BUFLEN - length bytes) NUL"

definition c_text :: "string \<Rightarrow> string c_result" where
  "c_text buff = (if NUL \<in> set buff then Inr (takeWhile (\<lambda>c. c \<noteq> NUL) buff) else Inl OutOfBounds)"

type_synonym subscribers = "(string, sclient) std_map"

record server =
  topics_subs :: "(string, subscribers) std_map"
  clients :: "(string, sclient) std_map"
  msg_holder :: "(string, tcp_msg_to_send list) std_map"
  read_fds :: "nat list"
  maxfd :: nat

datatype effect = Send nat tcp_msg_to_send | Close nat | Output string

datatype event =
    Stdin string
  | Datagram string nat string
  | Connect nat string
  | FromClient nat string

section \<open>A datagram\<close>

text \<open>
  \<open>sf\<close> is compared as a string; the bytes behind it are the padding of a structure that was
  cleared. A message for a client that is away is stored under the identity in its entry.
\<close>

definition deliver :: "tcp_msg_to_send \<Rightarrow> sclient \<Rightarrow> (string, tcp_msg_to_send list) std_map \<times> effect list \<Rightarrow>
    (string, tcp_msg_to_send list) std_map \<times> effect list" where
  "deliver m c he =
     (if connected c then (fst he, snd he @ [Send (cfd c) m])
      else if sf c = CHR ''1'' then (map_put (cid c) (map_at (cid c) [] (fst he) @ [m]) (fst he), snd he)
      else he)"

definition handle_datagram :: "string \<Rightarrow> nat \<Rightarrow> string \<Rightarrow> server \<Rightarrow> (server \<times> effect list) c_result" where
  "handle_datagram ip port bytes s =
     (let buff = filled bytes
      in c_bind (c_text buff) (\<lambda>topic.
        if map_count topic (topics_subs s) > 0
        then let subs = map_at topic [] (topics_subs s)
          in if subs = [] then Inr (s, [])
             else let m = \<lparr>udp_cl_ip = ip, udp_cl_port = port, msg_udp = udp_msg_at buff\<rparr>;
                      (holder, effs) = fold (\<lambda>p. deliver m (snd p)) subs (msg_holder s, [])
               in Inr (s\<lparr>msg_holder := holder\<rparr>, effs)
        else Inr (s\<lparr>topics_subs := map_insert topic [] (topics_subs s)\<rparr>, [])))"

section \<open>A connection\<close>

definition update_subscribers :: "(sclient \<Rightarrow> bool) \<Rightarrow> (sclient \<Rightarrow> sclient) \<Rightarrow> server \<Rightarrow> server" where
  "update_subscribers P f s =
     s\<lparr>topics_subs := update_all (update_all (\<lambda>c. if P c then f c else c)) (topics_subs s)\<rparr>"

definition handle_connect :: "nat \<Rightarrow> string \<Rightarrow> server \<Rightarrow> (server \<times> effect list) c_result" where
  "handle_connect newsockfd bytes s =
     c_bind (c_text (filled bytes)) (\<lambda>id_cl.
       if length id_cl \<ge> 10 then Inl OutOfBounds
       else case map_of (clients s) id_cl of
         Some c \<Rightarrow>
           if \<not> connected c
           then let s = s\<lparr>read_fds := newsockfd # read_fds s, maxfd := max (maxfd s) newsockfd,
                          clients := map_put id_cl (c\<lparr>cfd := newsockfd, connected := True\<rparr>) (clients s)\<rparr>;
                    s = update_subscribers (\<lambda>c. cid c = id_cl) (\<lambda>c. c\<lparr>connected := True, cfd := newsockfd\<rparr>) s;
                    pending = map_at id_cl [] (msg_holder s)
             in Inr (s\<lparr>msg_holder := map_put id_cl [] (msg_holder s)\<rparr>,
                     map (Send newsockfd) pending @ [Output (''New client '' @ id_cl @ '' connected'')])
           else Inr (s, [Output (''Client '' @ id_cl @ '' already connected.\<newline>''), Close newsockfd])
       | None \<Rightarrow>
           Inr (s\<lparr>read_fds := newsockfd # read_fds s, maxfd := max (maxfd s) newsockfd,
                  msg_holder := map_insert id_cl [] (msg_holder s),
                  clients := map_insert id_cl \<lparr>cid = id_cl, connected = True, sf = NUL, cfd = newsockfd\<rparr> (clients s)\<rparr>,
                [Output (''New client '' @ id_cl @ '' connected'')]))"

section \<open>Data from a client\<close>

definition handle_exit :: "nat \<Rightarrow> server \<Rightarrow> server \<times> effect list" where
  "handle_exit i s =
     (let found = find_first (\<lambda>c. cfd c = i) (clients s);
          s = s\<lparr>read_fds := filter (\<lambda>fd. fd \<noteq> i) (read_fds s),
                clients := update_first (\<lambda>c. cfd c = i) (\<lambda>c. c\<lparr>connected := False\<rparr>) (clients s)\<rparr>
      in (update_subscribers (\<lambda>c. cfd c = i) (\<lambda>c. c\<lparr>connected := False\<rparr>) s,
          Close i # (case found of None \<Rightarrow> [] | Some p \<Rightarrow> [Output (''Client '' @ fst p @ '' disconnected.\<newline>'')])))"

definition unsubscribe :: "nat \<Rightarrow> string \<Rightarrow> server \<Rightarrow> server" where
  "unsubscribe i token s =
     (let topics = map_insert token [] (topics_subs s)
      in s\<lparr>topics_subs := map_put token (erase_first (\<lambda>c. cfd c = i) (map_at token [] topics)) topics\<rparr>)"

text \<open>
  The topic is created where it is missing. The first client with the descriptor is subscribed: its
  flag is overwritten with the first character of the token, and its entry is inserted.
\<close>

definition subscribe :: "nat \<Rightarrow> string \<Rightarrow> string option \<Rightarrow> server \<Rightarrow> server c_result" where
  "subscribe i topic token s =
     (let topics = map_insert topic [] (topics_subs s)
      in case find_first (\<lambda>c. cfd c = i) (clients s) of
           None \<Rightarrow> Inr (s\<lparr>topics_subs := topics\<rparr>)
         | Some (k, c) \<Rightarrow>
             (case token of None \<Rightarrow> Inl NullDeref
              | Some t \<Rightarrow>
                  let c = c\<lparr>sf := peek t\<rparr>
                  in Inr (s\<lparr>clients := map_put k c (clients s),
                            topics_subs := map_put topic (map_insert k c (map_at topic [] topics)) topics\<rparr>)))"

definition handle_command :: "nat \<Rightarrow> string \<Rightarrow> server \<Rightarrow> server c_result" where
  "handle_command i text s =
     (case strtok '' '' text of None \<Rightarrow> Inl NullDeref
      | Some (token, rest) \<Rightarrow>
          (case strtok '' '' rest of None \<Rightarrow> Inl NullDeref
           | Some (topic, rest) \<Rightarrow>
               if starts_with ''unsubscribe'' token then Inr (unsubscribe i topic s)
               else if length topic \<ge> 50 then Inl OutOfBounds
               else subscribe i topic (map_option fst (strtok '' '' rest)) s))"

definition handle_data :: "nat \<Rightarrow> string \<Rightarrow> server \<Rightarrow> (server \<times> effect list) c_result" where
  "handle_data i bytes s =
     (let buff = filled bytes
      in if starts_with ''exit'' buff then Inr (handle_exit i s)
         else c_bind (c_text buff) (\<lambda>text. c_bind (handle_command i text s) (\<lambda>s. Inr (s, []))))"

section \<open>The loop\<close>

text \<open>
  A line on standard input other than \<open>exit\<close> falls through to the branch for clients, where \<open>recv\<close>
  on a descriptor that is no socket fails and the program ends with an error.
\<close>

datatype step_result = Running server "effect list" | Stopped | Died | Fault c_error

definition handle_event :: "event \<Rightarrow> server \<Rightarrow> step_result" where
  "handle_event ev s =
     (let result = (\<lambda>r. case r of Inl e \<Rightarrow> Fault e | Inr (s, effs) \<Rightarrow> Running s effs)
      in case ev of
           Stdin line \<Rightarrow> if line = ''exit\<newline>'' then Stopped else Died
         | Datagram ip port bytes \<Rightarrow> result (handle_datagram ip port bytes s)
         | Connect newsockfd bytes \<Rightarrow> result (handle_connect newsockfd bytes s)
         | FromClient i bytes \<Rightarrow> result (handle_data i bytes s))"

definition server_init :: "nat \<Rightarrow> nat \<Rightarrow> server" where
  "server_init sockfd_udp sockfd_tcp =
     \<lparr>topics_subs = [], clients = [], msg_holder = [], read_fds = [0, sockfd_udp, sockfd_tcp],
      maxfd = sockfd_tcp\<rparr>"

fun run_events :: "event list \<Rightarrow> server \<Rightarrow> step_result" where
  "run_events [] s = Running s []"
| "run_events (ev # evs) s =
     (case handle_event ev s of
        Running s effs \<Rightarrow>
          (case run_events evs s of Running s effs' \<Rightarrow> Running s (effs @ effs') | r \<Rightarrow> r)
      | r \<Rightarrow> r)"

end
