(* ===== verification/ServerLoop.thy ===== *)
theory ServerLoop
  imports Server Inet
begin

text \<open>
  \<^verbatim>\<open>main\<close> of \<^verbatim>\<open>Tema_2/server.cpp\<close> around the handlers of \<open>Server\<close>: opening the sockets, and the loop over the rounds of
  \<open>select\<close>. What the calls of the system return is an argument: \<open>server_sys\<close> for the calls before the loop,
  one \<open>round_calls\<close> for every round.
\<close>

section \<open>Opening the sockets\<close>

text \<open>The results of \<open>bind\<close> may depend on the port.\<close>

record server_sys =
  socket_udp :: int
  socket_tcp :: int
  bind_udp :: "nat \<Rightarrow> int"
  bind_tcp :: "nat \<Rightarrow> int"
  listen_tcp :: int

definition start_server :: "string list \<Rightarrow> server_sys \<Rightarrow> (nat \<times> nat \<times> server) program" where
  "start_server argv k =
     die (length argv < 1)
       (case argv of
          _ # arg # _ \<Rightarrow>
            let portno = atoi arg; port = port_number portno
            in die (portno = 0) (die (socket_udp k = -1) (die (socket_tcp k = -1)
                 (die (bind_udp k port < 0) (die (bind_tcp k port < 0) (die (listen_tcp k < 0)
                   (Going (nat (socket_udp k), nat (socket_tcp k), server_init (nat (socket_udp k)) (nat (socket_tcp k)))))))))
        | _ \<Rightarrow> Crashed NullDeref)"

section \<open>A ready descriptor\<close>

text \<open>
  What the calls of one round return: \<open>select\<close>, the descriptors that have data, the line \<open>fgets\<close> stores, the sender and
  the bytes of \<open>recvfrom\<close>, the descriptor of \<open>accept\<close>, the bytes of \<open>recv\<close> on a descriptor; nothing where a call
  fails. A descriptor is read at most once in a round.
\<close>

record round_calls =
  select_ret :: int
  has_data :: "nat \<Rightarrow> bool"
  line_read :: string
  recvfrom_ret :: "(string \<times> nat \<times> string) option"
  accept_ret :: "nat option"
  recv_ret :: "nat \<Rightarrow> string option"

text \<open>\<open>select\<close> keeps those descriptors of the set that have data, below its first argument.\<close>

definition selected :: "round_calls \<Rightarrow> server \<Rightarrow> nat \<Rightarrow> bool" where
  "selected k s i \<longleftrightarrow> i \<in> set (read_fds s) \<and> i < maxfd s + 1 \<and> has_data k i"

definition handled :: "(server \<times> effect list) c_result \<Rightarrow> effect list \<times> server program" where
  "handled r = (case r of Inl e \<Rightarrow> ([], Crashed e) | Inr (s, effs) \<Rightarrow> (effs, Going s))"

text \<open>
  Standard input falls through to the later branches unless the line is \<open>exit\<close>. Where \<open>accept\<close> fails, \<open>recv\<close> on the
  descriptor \<open>-1\<close> fails too.
\<close>

definition handle_ready :: "nat \<Rightarrow> nat \<Rightarrow> round_calls \<Rightarrow> nat \<Rightarrow> server \<Rightarrow> effect list \<times> server program" where
  "handle_ready udp tcp k i s =
     (if i = 0 \<and> takeWhile (\<lambda>c. c \<noteq> NUL) (line_read k) = ''exit\<newline>'' then ([], Leaving)
      else if i = udp then
        (case recvfrom_ret k of None \<Rightarrow> ([], Exited 1)
         | Some (ip, port, bytes) \<Rightarrow> handled (handle_datagram ip port bytes s))
      else if i = tcp then
        (case accept_ret k of None \<Rightarrow> ([], Exited 1)
         | Some newsockfd \<Rightarrow>
             (case recv_ret k newsockfd of None \<Rightarrow> ([], Exited 1)
              | Some bytes \<Rightarrow> handled (handle_connect newsockfd bytes s)))
      else (case recv_ret k i of None \<Rightarrow> ([], Exited 1) | Some bytes \<Rightarrow> handled (handle_data i bytes s)))"

section \<open>Only a connection raises the highest descriptor\<close>

lemma handle_datagram_fds:
  "handle_datagram ip port bytes s = Inr (s', effs) \<Longrightarrow> maxfd s' = maxfd s \<and> read_fds s' = read_fds s"
  by (auto simp: handle_datagram_def Let_def c_bind_def split: sum.splits if_splits prod.splits)

lemma handle_data_fds:
  assumes "handle_data i bytes s = Inr (s', effs)"
  shows "maxfd s' = maxfd s" "set (read_fds s) - {i} \<subseteq> set (read_fds s')" "set (read_fds s') \<subseteq> set (read_fds s)"
  using assms
  by (auto simp: handle_data_def handle_exit_def handle_command_def unsubscribe_def subscribe_def update_subscribers_def
      Let_def c_bind_def split: sum.splits if_splits option.splits)

lemma handle_connect_fds:
  assumes "handle_connect fd bytes s = Inr (s', effs)"
  shows "maxfd s' = maxfd s \<and> read_fds s' = read_fds s \<or> maxfd s' = max (maxfd s) fd \<and> read_fds s' = fd # read_fds s"
  using assms
  by (auto simp: handle_connect_def update_subscribers_def Let_def c_bind_def split: sum.splits if_splits option.splits)

lemma handle_ready_maxfd:
  assumes "handle_ready udp tcp k i s = (effs, Going s')" "i \<noteq> tcp"
  shows "maxfd s' = maxfd s"
  using assms
  by (auto simp: handle_ready_def handled_def handle_data_fds dest!: handle_datagram_fds
      split: if_splits option.splits sum.splits)

section \<open>A round\<close>

definition prepend :: "effect list \<Rightarrow> effect list \<times> server program \<Rightarrow> effect list \<times> server program" where
  "prepend effs r = (effs @ fst r, snd r)"

text \<open>
  The loop over the descriptors reads \<open>maxfd\<close> anew in each turn. It ends because only the turn of the listening socket
  raises it.
\<close>

function select_round ::
    "nat \<Rightarrow> nat \<Rightarrow> round_calls \<Rightarrow> (nat \<Rightarrow> bool) \<Rightarrow> nat \<Rightarrow> server \<Rightarrow> effect list \<times> server program" where
  "select_round udp tcp k tmp_fds i s =
     (if i > maxfd s then ([], Going s)
      else if tmp_fds i then
        (case handle_ready udp tcp k i s of
           (effs, Going s') \<Rightarrow> prepend effs (select_round udp tcp k tmp_fds (Suc i) s')
         | r \<Rightarrow> r)
      else select_round udp tcp k tmp_fds (Suc i) s)"
  by pat_completeness auto
termination
proof (relation "measures [\<lambda>(udp, tcp, k, tmp, i, s). Suc tcp - i, \<lambda>(udp, tcp, k, tmp, i, s). Suc (maxfd s) - i]", goal_cases)
  case (2 udp tcp k tmp_fds i s effs r s')
  then have "maxfd s' = maxfd s" if "i \<noteq> tcp" using handle_ready_maxfd [of udp tcp k i s effs s'] that by simp
  with 2 show ?case by (cases "i \<le> tcp") auto
qed auto

declare select_round.simps [simp del]

definition server_round :: "nat \<Rightarrow> nat \<Rightarrow> round_calls \<Rightarrow> server \<Rightarrow> effect list \<times> server program" where
  "server_round udp tcp k s =
     (if select_ret k < 0 then ([], Exited 1) else select_round udp tcp k (selected k s) 0 s)"

section \<open>The program\<close>

text \<open>The sockets of the server are closed at the end, those of its clients are not.\<close>

fun server_loop :: "nat \<Rightarrow> nat \<Rightarrow> round_calls list \<Rightarrow> server \<Rightarrow> effect list \<times> server program" where
  "server_loop udp tcp [] s = ([], Going s)"
| "server_loop udp tcp (k # ks) s =
     (case server_round udp tcp k s of
        (effs, Going s') \<Rightarrow> prepend effs (server_loop udp tcp ks s')
      | (effs, Leaving) \<Rightarrow> (effs @ [Close tcp, Close udp], Exited 0)
      | r \<Rightarrow> r)"

definition server_main :: "string list \<Rightarrow> server_sys \<Rightarrow> round_calls list \<Rightarrow> effect list \<times> server program" where
  "server_main argv sys ks =
     (case start_server argv sys of
        Going (udp, tcp, s) \<Rightarrow> server_loop udp tcp ks s
      | Leaving \<Rightarrow> ([], Leaving)
      | Exited n \<Rightarrow> ([], Exited n)
      | Crashed e \<Rightarrow> ([], Crashed e))"

end
