(* ===== verification/ServerInv.thy ===== *)
theory ServerInv
  imports Server
begin

text \<open>
  The states the broker of \<^verbatim>\<open>Tema_2/server.cpp\<close> reaches: a step relation on events, the well-formedness
  of its maps, and the agreement of the entries under the topics with the table of clients.
\<close>

section \<open>Steps and reachable states\<close>

inductive server_step :: "server \<Rightarrow> event \<Rightarrow> effect list \<Rightarrow> server \<Rightarrow> bool" where
  running: "handle_event ev s = Running s' effs \<Longrightarrow> server_step s ev effs s'"

inductive reachable :: "server \<Rightarrow> bool" where
  start: "reachable (server_init u t)"
| step: "reachable s \<Longrightarrow> server_step s ev effs s' \<Longrightarrow> reachable s'"

inductive_cases running_elim: "server_step s ev effs s'"
inductive_simps server_step_iff: "server_step s ev effs s'"

text \<open>The kernel never hands out a descriptor number that a client had before.\<close>

definition fresh :: "event \<Rightarrow> server \<Rightarrow> bool" where
  "fresh ev s \<longleftrightarrow> (case ev of Connect fd _ \<Rightarrow> \<forall>p \<in> set (clients s). cfd (snd p) \<noteq> fd | _ \<Rightarrow> True)"

inductive reachable_fresh :: "server \<Rightarrow> bool" where
  start: "reachable_fresh (server_init u t)"
| step: "reachable_fresh s \<Longrightarrow> fresh ev s \<Longrightarrow> server_step s ev effs s' \<Longrightarrow> reachable_fresh s'"

lemma reachable_fresh_reachable: "reachable_fresh s \<Longrightarrow> reachable s"
  by (induction rule: reachable_fresh.induct) (auto intro: reachable.intros)

text \<open>The result of each handler, by event.\<close>

lemma server_step_cases:
  assumes "server_step s ev effs s'"
  obtains (datagram) ip port bytes where "ev = Datagram ip port bytes" "handle_datagram ip port bytes s = Inr (s', effs)"
  | (connect) fd bytes where "ev = Connect fd bytes" "handle_connect fd bytes s = Inr (s', effs)"
  | (data) i bytes where "ev = FromClient i bytes" "handle_data i bytes s = Inr (s', effs)"
  using assms by (cases ev) (auto simp: server_step_iff handle_event_def Let_def split: if_splits sum.splits)

section \<open>Well-formed states\<close>

definition subs_ok :: "server \<Rightarrow> subscribers \<Rightarrow> bool" where
  "subs_ok s subs \<longleftrightarrow> in_order subs \<and> (\<forall>p \<in> set subs. cid (snd p) = fst p \<and> map_of (clients s) (fst p) \<noteq> None)"

definition server_ok :: "server \<Rightarrow> bool" where
  "server_ok s \<longleftrightarrow> in_order (topics_subs s) \<and> in_order (clients s) \<and> in_order (msg_holder s) \<and>
     (\<forall>p \<in> set (clients s). cid (snd p) = fst p \<and> length (fst p) < 10 \<and> map_of (msg_holder s) (fst p) \<noteq> None) \<and>
     (\<forall>p \<in> set (topics_subs s). subs_ok s (snd p))"

lemma map_at_in: "map_at k d m = d \<or> (k, map_at k d m) \<in> set m"
  by (auto simp: map_at_def split: option.split dest: map_of_SomeD)

lemma subs_ok_Nil [simp]: "subs_ok s []"
  by (simp add: subs_ok_def in_order_def)

lemma subs_ok_at: "server_ok s \<Longrightarrow> subs_ok s (map_at t [] (topics_subs s))"
  using map_at_in [of t "[]" "topics_subs s"] by (auto simp: server_ok_def)

text \<open>Only the table of clients matters to a topic.\<close>

lemma subs_ok_mono:
  "subs_ok s subs \<Longrightarrow> (\<And>k. map_of (clients s) k \<noteq> None \<Longrightarrow> map_of (clients s') k \<noteq> None) \<Longrightarrow> subs_ok s' subs"
  by (auto simp: subs_ok_def)

lemma subs_ok_update_all: "subs_ok s subs \<Longrightarrow> (\<And>c. cid (f c) = cid c) \<Longrightarrow> subs_ok s (update_all f subs)"
  by (auto simp: subs_ok_def update_all_def in_order_def comp_def)

lemma map_of_update_first: "map_of (update_first P f m) k \<noteq> None \<longleftrightarrow> map_of m k \<noteq> None"
  using keys_update_first [of P f m] by (metis (mono_tags) map_of_eq_None_iff list.set_map)

subsection \<open>A datagram\<close>

text \<open>What is stored for a client.\<close>

abbreviation queue_of :: "(string, tcp_msg_to_send list) std_map \<Rightarrow> string \<Rightarrow> tcp_msg_to_send list" where
  "queue_of holder k \<equiv> map_at k [] holder"

definition wants_stored :: "sclient \<Rightarrow> bool" where
  "wants_stored c \<longleftrightarrow> \<not> connected c \<and> sf c = CHR ''1''"

lemma fold_deliver:
  "in_order (fst he) \<Longrightarrow>
   in_order (fst (fold (\<lambda>p. deliver m (snd p)) subs he)) \<and>
   (\<forall>k. map_of (fst he) k \<noteq> None \<longrightarrow> map_of (fst (fold (\<lambda>p. deliver m (snd p)) subs he)) k \<noteq> None) \<and>
   snd (fold (\<lambda>p. deliver m (snd p)) subs he) =
     snd he @ map (\<lambda>p. Send (cfd (snd p)) m) (filter (\<lambda>p. connected (snd p)) subs) \<and>
   (\<forall>k. queue_of (fst (fold (\<lambda>p. deliver m (snd p)) subs he)) k =
     queue_of (fst he) k @ map (\<lambda>_. m) (filter (\<lambda>p. wants_stored (snd p) \<and> cid (snd p) = k) subs))"
proof (induction subs arbitrary: he)
  case (Cons p subs)
  let ?he = "deliver m (snd p) he"
  have "in_order (fst ?he)" using Cons.prems sm.ok_put by (auto simp: deliver_def)
  from Cons.IH [OF this] show ?case
    by (auto simp: deliver_def wants_stored_def map_at_def sm.look_put)
qed simp

lemmas fold_deliver_order = fold_deliver [THEN conjunct1]
  and fold_deliver_keys = fold_deliver [THEN conjunct2, THEN conjunct1, rule_format]
  and fold_deliver_effects = fold_deliver [THEN conjunct2, THEN conjunct2, THEN conjunct1]
  and fold_deliver_queue = fold_deliver [THEN conjunct2, THEN conjunct2, THEN conjunct2, rule_format]

text \<open>With the identity as the key, a client is stored a message at most once.\<close>

lemma filter_key:
  assumes "subs_ok s subs"
  shows "map (\<lambda>_. m) (filter (\<lambda>p. wants_stored (snd p) \<and> cid (snd p) = k) subs) =
    (case map_of subs k of Some c \<Rightarrow> if wants_stored c then [m] else [] | None \<Rightarrow> [])"
proof -
  have "distinct (map fst subs)" "\<forall>p \<in> set subs. cid (snd p) = fst p"
    using assms in_order_distinct by (auto simp: subs_ok_def)
  then show ?thesis
  proof (induction subs)
    case (Cons p subs)
    show ?case
    proof (cases "fst p = k")
      case True
      have "filter (\<lambda>q. wants_stored (snd q) \<and> cid (snd q) = k) subs = []"
        using Cons.prems True by (auto simp: filter_empty_conv image_iff)
      with True Cons.prems(2) show ?thesis by (cases p) auto
    next
      case False
      with Cons show ?thesis by (cases p) auto
    qed
  qed simp
qed

lemma server_ok_topics:
  assumes "server_ok s" "in_order ts" "\<forall>p \<in> set ts. subs_ok s (snd p)"
  shows "server_ok (s\<lparr>topics_subs := ts\<rparr>)"
proof -
  have "subs_ok (s\<lparr>topics_subs := ts\<rparr>) u" if "subs_ok s u" for u using that by (auto simp: subs_ok_def)
  with assms show ?thesis by (auto simp: server_ok_def)
qed

lemma server_ok_clients:
  assumes "server_ok s" "in_order cs" "\<And>k. map_of (clients s) k \<noteq> None \<Longrightarrow> map_of cs k \<noteq> None"
    "\<forall>p \<in> set cs. cid (snd p) = fst p \<and> length (fst p) < 10 \<and> map_of (msg_holder s) (fst p) \<noteq> None"
  shows "server_ok (s\<lparr>clients := cs\<rparr>)"
proof -
  have "subs_ok (s\<lparr>clients := cs\<rparr>) u" if "subs_ok s u" for u using that assms(3) by (auto simp: subs_ok_def)
  with assms show ?thesis by (auto simp: server_ok_def)
qed

lemma server_ok_holder:
  assumes "server_ok s" "in_order h" "\<And>k. map_of (msg_holder s) k \<noteq> None \<Longrightarrow> map_of h k \<noteq> None"
  shows "server_ok (s\<lparr>msg_holder := h\<rparr>)"
proof -
  have "subs_ok (s\<lparr>msg_holder := h\<rparr>) u" if "subs_ok s u" for u using that by (auto simp: subs_ok_def)
  with assms show ?thesis by (auto simp: server_ok_def)
qed

lemma server_ok_fds [simp]: "server_ok (s\<lparr>read_fds := fds\<rparr>) = server_ok s" "server_ok (s\<lparr>maxfd := m\<rparr>) = server_ok s"
  by (simp_all add: server_ok_def subs_ok_def)

lemma handle_datagram_cases:
  assumes "handle_datagram ip port bytes s = Inr (s', effs)"
  obtains (created) t where "c_text (filled bytes) = Inr t" "map_of (topics_subs s) t = None"
      "s' = s\<lparr>topics_subs := map_insert t [] (topics_subs s)\<rparr>" "effs = []"
  | (published) t subs he where "c_text (filled bytes) = Inr t" "map_of (topics_subs s) t = Some subs"
      "he = fold (\<lambda>p. deliver \<lparr>udp_cl_ip = ip, udp_cl_port = port, msg_udp = udp_msg_at (filled bytes)\<rparr> (snd p)) subs (msg_holder s, [])"
      "s' = s\<lparr>msg_holder := fst he\<rparr>" "effs = snd he"
proof -
  obtain t where t: "c_text (filled bytes) = Inr t"
    using assms by (cases "c_text (filled bytes)") (simp_all add: handle_datagram_def Let_def)
  show thesis
  proof (cases "map_of (topics_subs s) t")
    case None
    with assms t show thesis by (intro created [of t]) (auto simp: handle_datagram_def map_count_def Let_def)
  next
    case (Some subs)
    let ?m = "\<lparr>udp_cl_ip = ip, udp_cl_port = port, msg_udp = udp_msg_at (filled bytes)\<rparr>"
    let ?he = "fold (\<lambda>p. deliver ?m (snd p)) subs (msg_holder s, [])"
    have "s' = s\<lparr>msg_holder := fst ?he\<rparr> \<and> effs = snd ?he"
      using assms t Some by (cases "subs = []") (auto simp: handle_datagram_def map_count_def map_at_def Let_def case_prod_beta)
    with t Some show thesis by (intro published) auto
  qed
qed

lemma datagram_ok:
  assumes "server_ok s" "handle_datagram ip port bytes s = Inr (s', effs)"
  shows "server_ok s'"
  using assms(2)
proof (cases rule: handle_datagram_cases)
  case (created t)
  have "\<forall>p \<in> set (map_insert t [] (topics_subs s)). subs_ok s (snd p)"
    using assms(1) set_map_insert [of t "[]" "topics_subs s"] by (fastforce simp: server_ok_def)
  with assms(1) show ?thesis unfolding created(3) by (intro server_ok_topics) (simp_all add: server_ok_def sm.ok_ins)
next
  case (published t subs he)
  have i: "in_order (fst (msg_holder s, [] :: effect list))" using assms(1) by (simp add: server_ok_def)
  show ?thesis
    unfolding published(3,4)
    by (rule server_ok_holder [OF assms(1)]) (rule fold_deliver_order [OF i], rule fold_deliver_keys [OF i], simp)
qed

subsection \<open>A connection\<close>

lemma subs_ok_update_subscribers:
  "(\<And>c. cid (f c) = cid c) \<Longrightarrow> \<forall>p \<in> set (topics_subs s). subs_ok s (snd p) \<Longrightarrow>
   \<forall>p \<in> set (topics_subs (update_subscribers P f s)). subs_ok s (snd p)"
  by (auto simp: update_subscribers_def update_all_def intro!: subs_ok_update_all [unfolded update_all_def])

lemma update_subscribers_simps [simp]:
  "clients (update_subscribers P f s) = clients s" "msg_holder (update_subscribers P f s) = msg_holder s"
  "read_fds (update_subscribers P f s) = read_fds s"
  "map fst (topics_subs (update_subscribers P f s)) = map fst (topics_subs s)"
  by (simp_all add: update_subscribers_def)

lemma server_ok_update_subscribers:
  "(\<And>c. cid (f c) = cid c) \<Longrightarrow> server_ok s \<Longrightarrow> server_ok (update_subscribers P f s)"
  using subs_ok_update_subscribers [of f s P] subs_ok_mono [of s _ "update_subscribers P f s"]
  by (auto simp: server_ok_def in_order_def)

text \<open>The three outcomes of a connection.\<close>

definition reconnected :: "nat \<Rightarrow> string \<Rightarrow> sclient \<Rightarrow> server \<Rightarrow> server" where
  "reconnected fd k c s =
     (update_subscribers (\<lambda>c. cid c = k) (\<lambda>c. c\<lparr>connected := True, cfd := fd\<rparr>)
       (s\<lparr>read_fds := fd # read_fds s, maxfd := max (maxfd s) fd, clients := map_put k (c\<lparr>cfd := fd, connected := True\<rparr>) (clients s)\<rparr>))
     \<lparr>msg_holder := map_put k [] (msg_holder s)\<rparr>"

definition registered :: "nat \<Rightarrow> string \<Rightarrow> server \<Rightarrow> server" where
  "registered fd k s =
     s\<lparr>read_fds := fd # read_fds s, maxfd := max (maxfd s) fd, msg_holder := map_insert k [] (msg_holder s),
       clients := map_insert k \<lparr>cid = k, connected = True, sf = NUL, cfd = fd\<rparr> (clients s)\<rparr>"

lemma handle_connect_cases:
  assumes "handle_connect fd bytes s = Inr (s', effs)"
  obtains (away) k c where "c_text (filled bytes) = Inr k" "length k < 10" "map_of (clients s) k = Some c" "\<not> connected c"
      "s' = reconnected fd k c s" "effs = map (Send fd) (queue_of (msg_holder s) k) @ [Output (''New client '' @ k @ '' connected'')]"
  | (refused) k c where "c_text (filled bytes) = Inr k" "length k < 10" "map_of (clients s) k = Some c" "connected c" "s' = s"
      "effs = [Output (''Client '' @ k @ '' already connected.\<newline>''), Close fd]"
  | (new) k where "c_text (filled bytes) = Inr k" "length k < 10" "map_of (clients s) k = None" "s' = registered fd k s"
      "effs = [Output (''New client '' @ k @ '' connected'')]"
proof -
  obtain k where k: "c_text (filled bytes) = Inr k" "length k < 10"
    using assms by (cases "c_text (filled bytes)") (auto simp: handle_connect_def split: if_splits)
  consider c where "map_of (clients s) k = Some c" "\<not> connected c" | c where "map_of (clients s) k = Some c" "connected c"
    | "map_of (clients s) k = None" by (cases "map_of (clients s) k") auto
  then show thesis
  proof cases
    case 1
    with k assms show thesis
      by (intro away) (auto simp: handle_connect_def reconnected_def Let_def)
  next
    case 2
    with k assms show thesis by (intro refused) (auto simp: handle_connect_def)
  next
    case 3
    with k assms show thesis by (intro new) (auto simp: handle_connect_def registered_def)
  qed
qed

lemma connect_ok:
  assumes "server_ok s" "handle_connect fd bytes s = Inr (s', effs)"
  shows "server_ok s'"
  using assms(2)
proof (cases rule: handle_connect_cases)
  case (away k c)
  let ?c = "c\<lparr>cfd := fd, connected := True\<rparr>"
  have c: "cid c = k" "map_of (msg_holder s) k \<noteq> None"
    using assms(1) map_of_SomeD [OF away(3)] by (auto simp: server_ok_def)
  have "server_ok (s\<lparr>clients := map_put k ?c (clients s)\<rparr>)"
    using assms(1) c away(2) set_map_put [of k ?c "clients s"]
    by (intro server_ok_clients) (auto simp: server_ok_def sm.ok_put sm.look_put)
  then have "server_ok (s\<lparr>read_fds := fd # read_fds s, maxfd := max (maxfd s) fd, clients := map_put k ?c (clients s)\<rparr>)"
    by (simp add: server_ok_def subs_ok_def)
  then have "server_ok (update_subscribers (\<lambda>c. cid c = k) (\<lambda>c. c\<lparr>connected := True, cfd := fd\<rparr>)
      (s\<lparr>read_fds := fd # read_fds s, maxfd := max (maxfd s) fd, clients := map_put k ?c (clients s)\<rparr>))"
    by (intro server_ok_update_subscribers) simp_all
  then show ?thesis
    unfolding away(5) reconnected_def
    by (rule server_ok_holder) (use assms(1) in \<open>auto simp: server_ok_def sm.ok_put sm.look_put\<close>)
next
  case (refused k c)
  with assms(1) show ?thesis by simp
next
  case (new k)
  let ?c = "\<lparr>cid = k, connected = True, sf = NUL, cfd = fd\<rparr>"
  let ?s = "s\<lparr>msg_holder := map_insert k [] (msg_holder s)\<rparr>"
  have h: "server_ok ?s"
    using assms(1) by (intro server_ok_holder) (auto simp: server_ok_def sm.ok_ins sm.look_ins)
  have "server_ok (?s\<lparr>clients := map_insert k ?c (clients s)\<rparr>)"
  proof (rule server_ok_clients [OF h])
    show "in_order (map_insert k ?c (clients s))" using assms(1) by (simp add: server_ok_def sm.ok_ins)
    show "map_of (clients ?s) j \<noteq> None \<Longrightarrow> map_of (map_insert k ?c (clients s)) j \<noteq> None" for j by (simp add: sm.look_ins)
    have "map_of (msg_holder ?s) k \<noteq> None" by (simp add: sm.look_ins_same)
    then show "\<forall>p \<in> set (map_insert k ?c (clients s)). cid (snd p) = fst p \<and> length (fst p) < 10 \<and> map_of (msg_holder ?s) (fst p) \<noteq> None"
      using h new(2) set_map_insert [of k ?c "clients s"] by (fastforce simp: server_ok_def)
  qed
  then show ?thesis
    unfolding new(4) registered_def by (simp add: server_ok_def subs_ok_def)
qed

subsection \<open>Data from a client\<close>

lemma exit_ok: "server_ok s \<Longrightarrow> server_ok (fst (handle_exit i s))"
proof -
  assume ok: "server_ok s"
  let ?f = "\<lambda>c. c\<lparr>connected := False\<rparr>" and ?P = "\<lambda>c. cfd c = i"
  let ?s = "s\<lparr>clients := update_first ?P ?f (clients s)\<rparr>"
  have "server_ok ?s"
  proof (rule server_ok_clients [OF ok])
    show "in_order (update_first ?P ?f (clients s))"
      using ok by (simp add: server_ok_def in_order_same_keys [OF keys_update_first])
    show "map_of (update_first ?P ?f (clients s)) k \<noteq> None" if "map_of (clients s) k \<noteq> None" for k
      using that by (rule map_of_update_first [THEN iffD2])
    show "\<forall>p \<in> set (update_first ?P ?f (clients s)). cid (snd p) = fst p \<and> length (fst p) < 10 \<and> map_of (msg_holder s) (fst p) \<noteq> None"
      using ok set_update_first [of ?P ?f "clients s"] by (fastforce simp: server_ok_def)
  qed
  then have "server_ok (s\<lparr>read_fds := filter (\<lambda>fd. fd \<noteq> i) (read_fds s), clients := update_first ?P ?f (clients s)\<rparr>)"
    by (simp add: server_ok_def subs_ok_def)
  from server_ok_update_subscribers [OF _ this, of ?f ?P] show ?thesis
    by (simp add: handle_exit_def Let_def)
qed

lemma map_at_insert [simp]: "map_at k d (map_insert k d m) = map_at k d m"
  by (simp add: map_at_def sm.look_ins_same split: option.split)

lemma topics_put_ok:
  assumes "server_ok s" "subs_ok s subs"
  shows "server_ok (s\<lparr>topics_subs := map_put t subs (map_insert t [] (topics_subs s))\<rparr>)"
  using assms set_map_put [of t subs "map_insert t [] (topics_subs s)"] set_map_insert [of t "[]" "topics_subs s"]
  by (intro server_ok_topics) (fastforce simp: server_ok_def sm.ok_put sm.ok_ins)+

lemma unsubscribe_ok: "server_ok s \<Longrightarrow> server_ok (unsubscribe i t s)"
proof -
  assume ok: "server_ok s"
  let ?subs = "map_at t [] (topics_subs s)"
  have "subs_ok s (erase_first (\<lambda>c. cfd c = i) ?subs)"
    using subs_ok_at [OF ok, of t] set_erase_first [of "\<lambda>c. cfd c = i" ?subs] in_order_erase_first
    by (fastforce simp: subs_ok_def)
  from topics_put_ok [OF ok this] show ?thesis by (simp add: unsubscribe_def Let_def)
qed

lemma subscribe_ok:
  assumes "server_ok s" "subscribe i t token s = Inr s'"
  shows "server_ok s'"
proof (cases "find_first (\<lambda>c. cfd c = i) (clients s)")
  case None
  have "\<forall>p \<in> set (map_insert t [] (topics_subs s)). subs_ok s (snd p)"
    using assms(1) set_map_insert [of t "[]" "topics_subs s"] by (fastforce simp: server_ok_def)
  then have "server_ok (s\<lparr>topics_subs := map_insert t [] (topics_subs s)\<rparr>)"
    using assms(1) by (intro server_ok_topics) (simp_all add: server_ok_def sm.ok_ins)
  with assms(2) None show ?thesis by (simp add: subscribe_def)
next
  case (Some kc)
  obtain k c where kc: "kc = (k, c)" by (cases kc)
  have kin: "(k, c) \<in> set (clients s)" using find_first_Some [of _ "clients s" k c] Some by (simp add: kc)
  obtain tok where tok: "token = Some tok" using assms(2) Some by (cases token) (simp_all add: subscribe_def kc Let_def)
  let ?c = "c\<lparr>sf := peek tok\<rparr>"
  let ?s = "s\<lparr>clients := map_put k ?c (clients s)\<rparr>"
  have ok: "server_ok ?s"
  proof (rule server_ok_clients [OF assms(1)])
    show "in_order (map_put k ?c (clients s))" using assms(1) by (simp add: server_ok_def sm.ok_put)
    show "map_of (clients s) j \<noteq> None \<Longrightarrow> map_of (map_put k ?c (clients s)) j \<noteq> None" for j by (simp add: sm.look_put)
    show "\<forall>p \<in> set (map_put k ?c (clients s)). cid (snd p) = fst p \<and> length (fst p) < 10 \<and> map_of (msg_holder s) (fst p) \<noteq> None"
      using assms(1) kin set_map_put [of k ?c "clients s"] by (fastforce simp: server_ok_def)
  qed
  let ?subs = "map_insert k ?c (map_at t [] (topics_subs s))"
  have "cid c = k" using assms(1) kin by (auto simp: server_ok_def)
  then have "subs_ok ?s ?subs"
    using subs_ok_at [OF ok, of t] set_map_insert [of k ?c "map_at t [] (topics_subs s)"] sm.ok_ins
    by (fastforce simp: subs_ok_def sm.look_put)
  from topics_put_ok [OF ok this, of t] have "server_ok (?s\<lparr>topics_subs := map_put t ?subs (map_insert t [] (topics_subs s))\<rparr>)" by simp
  with assms(2) Some tok show ?thesis by (simp add: subscribe_def kc Let_def)
qed

lemma handle_data_cases:
  assumes "handle_data i bytes s = Inr (s', effs)"
  obtains (leave) "starts_with ''exit'' (filled bytes)" "(s', effs) = handle_exit i s"
  | (unsubscribe) t where "s' = unsubscribe i t s" "effs = []"
  | (subscribe) t token where "subscribe i t token s = Inr s'" "effs = []" "length t < 50"
proof (cases "starts_with ''exit'' (filled bytes)")
  case True
  with assms show thesis by (intro leave) (simp_all add: handle_data_def)
next
  case False
  obtain ct where ct: "c_text (filled bytes) = Inr ct" "handle_command i ct s = Inr s'" "effs = []"
    using assms False by (auto simp: handle_data_def c_bind_eq_Inr)
  from ct(2) show thesis
    using unsubscribe subscribe ct(3) by (auto simp: handle_command_def not_le split: option.splits if_splits)
qed

lemma data_ok: "server_ok s \<Longrightarrow> handle_data i bytes s = Inr (s', effs) \<Longrightarrow> server_ok s'"
proof (erule handle_data_cases)
  assume "server_ok s" "(s', effs) = handle_exit i s"
  then show "server_ok s'" using exit_ok [of s i] by (metis fst_conv)
qed (auto intro: unsubscribe_ok subscribe_ok)

lemma server_init_ok: "server_ok (server_init u t)"
  by (simp add: server_ok_def server_init_def in_order_def)

lemma server_step_ok: "server_step s ev effs s' \<Longrightarrow> server_ok s \<Longrightarrow> server_ok s'"
  by (erule server_step_cases) (blast intro: datagram_ok connect_ok data_ok)+

lemma reachable_ok: "reachable s \<Longrightarrow> server_ok s"
  by (induction rule: reachable.induct) (auto intro: server_init_ok server_step_ok)

end
