(* ===== verification/ServerProps.thy ===== *)
theory ServerProps
  imports ServerInv
begin

text \<open>
  What the broker promises: every reachable state is well formed, the entries under the topics agree
  with the table of clients, a published message goes to the connected subscribers and is stored for
  the others that asked for it, and what is stored arrives in order. Then what the code does on the
  inputs it does not guard.
\<close>

section \<open>Strings in the receive buffer\<close>

lemma c_text_filled [simp]:
  assumes "NUL \<notin> set b" "length b < SERVER_BUFLEN"
  shows "c_text (filled b) = Inr b"
proof -
  have "SERVER_BUFLEN - length b \<noteq> 0" using assms(2) by simp
  moreover have "takeWhile (\<lambda>c. c \<noteq> NUL) (b @ replicate n NUL) = b" for n
    using assms(1) by (subst takeWhile_append2) (auto simp: takeWhile_replicate)
  ultimately show ?thesis using assms by (auto simp: c_text_def filled_def)
qed

lemma c_text_Inl: "c_text b = Inl e \<longleftrightarrow> NUL \<notin> set b \<and> e = OutOfBounds"
  by (auto simp: c_text_def)

lemma NUL_in_filled: "NUL \<in> set (filled bytes) \<longleftrightarrow> NUL \<in> set (take SERVER_BUFLEN bytes) \<or> length bytes < SERVER_BUFLEN"
  by (auto simp: filled_def)

lemma c_text_NUL: "c_text b = Inr t \<Longrightarrow> NUL \<notin> set t"
  by (auto simp: c_text_def split: if_splits dest: set_takeWhileD)

section \<open>The entries under the topics\<close>

definition entries_agree :: "server \<Rightarrow> bool" where
  "entries_agree s \<longleftrightarrow> (\<forall>t subs k c. map_of (topics_subs s) t = Some subs \<longrightarrow> map_of subs k = Some c \<longrightarrow>
     (\<exists>d. map_of (clients s) k = Some d \<and> connected c = connected d \<and> cfd c = cfd d))"

definition own_fds :: "server \<Rightarrow> bool" where
  "own_fds s \<longleftrightarrow> (\<forall>j k c d. map_of (clients s) j = Some c \<longrightarrow> map_of (clients s) k = Some d \<longrightarrow> cfd c = cfd d \<longrightarrow> j = k)"

text \<open>With descriptors of their own, the first entry with a descriptor is the only one.\<close>

lemma map_of_update_first_unique:
  assumes "distinct (map fst m)"
    "\<And>j k c d. map_of m j = Some c \<Longrightarrow> map_of m k = Some d \<Longrightarrow> P c \<Longrightarrow> P d \<Longrightarrow> j = k"
  shows "map_of (update_first P f m) k = map_option (\<lambda>c. if P c then f c else c) (map_of m k)"
  using assms
proof (induction m)
  case (Cons p m)
  obtain j c where p: "p = (j, c)" by (cases p)
  have new: "map_of m j = None" using Cons.prems(1) by (simp add: p map_of_eq_None_iff)
  show ?case
  proof (cases "P c")
    case True
    have "\<not> P d" if "map_of m k = Some d" for d
      using Cons.prems(2) [of j c k d] new True that by (cases "k = j") (auto simp: p)
    with True show ?thesis by (cases "map_of m k") (auto simp: p)
  next
    case False
    have "map_of (update_first P f m) k = map_option (\<lambda>c. if P c then f c else c) (map_of m k)"
    proof (rule Cons.IH)
      show "distinct (map fst m)" using Cons.prems(1) by simp
      fix j' k' c' d' assume "map_of m j' = Some c'" "map_of m k' = Some d'" "P c'" "P d'"
      moreover from this new have "j' \<noteq> j" "k' \<noteq> j" by auto
      ultimately show "j' = k'" using Cons.prems(2) [of j' c' k' d'] by (simp add: p)
    qed
    with False show ?thesis by (simp add: p)
  qed
qed simp

lemma map_of_erase_first: "distinct (map fst m) \<Longrightarrow> map_of (erase_first P m) k = Some c \<Longrightarrow> map_of m k = Some c"
  by (induction m) (auto split: if_splits dest: map_of_SomeD simp: rev_image_eqI)

lemma map_of_map_at: "map_of (map_at t [] m) k = Some c \<Longrightarrow> \<exists>subs. map_of m t = Some subs \<and> map_of subs k = Some c"
  by (auto simp: map_at_def split: option.splits)

lemma map_of_find_first:
  "distinct (map fst m) \<Longrightarrow> find_first P m = Some (k, c) \<Longrightarrow> map_of m k = Some c \<and> P c"
  using find_first_Some [of P m k c] by (simp add: map_of_is_SomeI)

lemmas server_ok_distinct =
  server_ok_def [THEN iffD1, THEN conjunct1, THEN in_order_distinct]
  server_ok_def [THEN iffD1, THEN conjunct2, THEN conjunct1, THEN in_order_distinct]

subsection \<open>Each event keeps the agreement\<close>

definition consistent :: "server \<Rightarrow> bool" where
  "consistent s \<longleftrightarrow> server_ok s \<and> entries_agree s \<and> own_fds s"

lemmas consistentD = consistent_def [THEN iffD1, THEN conjunct1]
  consistent_def [THEN iffD1, THEN conjunct2, THEN conjunct1]
  consistent_def [THEN iffD1, THEN conjunct2, THEN conjunct2]

lemma agree_datagram:
  assumes "entries_agree s" "own_fds s" "handle_datagram ip port bytes s = Inr (s', effs)"
  shows "entries_agree s' \<and> own_fds s'"
  using assms(3)
proof (cases rule: handle_datagram_cases)
  case (created t)
  with assms(1,2) show ?thesis by (auto simp: entries_agree_def own_fds_def sm.look_ins)
next
  case (published t subs he)
  with assms(1,2) show ?thesis by (simp add: entries_agree_def own_fds_def)
qed

lemma agree_connect:
  assumes "consistent s" "fresh (Connect fd bytes) s" "handle_connect fd bytes s = Inr (s', effs)"
  shows "entries_agree s' \<and> own_fds s'"
  using assms(3)
proof (cases rule: handle_connect_cases)
  case (away k c)
  have f: "cfd d \<noteq> fd" if "map_of (clients s) j = Some d" for j d
    using assms(2) map_of_SomeD [OF that] by (auto simp: fresh_def)
  have key: "cid d = j" if "map_of (topics_subs s) t = Some subs" "map_of subs j = Some d" for t subs j d
    using assms(1) map_of_SomeD [OF that(1)] map_of_SomeD [OF that(2)] by (fastforce simp: consistent_def server_ok_def subs_ok_def)
  have "entries_agree s'"
    unfolding entries_agree_def
  proof (intro allI impI)
    fix t subs j d assume d: "map_of (topics_subs s') t = Some subs" "map_of subs j = Some d"
    then obtain subs0 d0 where d0: "map_of (topics_subs s) t = Some subs0" "map_of subs0 j = Some d0"
        "d = (if cid d0 = k then d0\<lparr>connected := True, cfd := fd\<rparr> else d0)"
      by (auto simp: away(5) reconnected_def update_subscribers_def map_of_update_all)
    obtain e where "map_of (clients s) j = Some e" "connected d0 = connected e" "cfd d0 = cfd e"
      using assms(1) d0(1,2) unfolding consistent_def entries_agree_def by blast
    with d0 key [OF d0(1,2)] show "\<exists>e. map_of (clients s') j = Some e \<and> connected d = connected e \<and> cfd d = cfd e"
      by (auto simp: away(5) reconnected_def sm.look_put)
  qed
  moreover have "own_fds s'"
    using assms(1) f away(3) by (auto simp: away(5) reconnected_def consistent_def own_fds_def sm.look_put)
  ultimately show ?thesis by blast
next
  case (refused k c)
  with assms(1) show ?thesis by (simp add: consistent_def)
next
  case (new k)
  have f: "cfd d \<noteq> fd" if "map_of (clients s) j = Some d" for j d
    using assms(2) map_of_SomeD [OF that] by (auto simp: fresh_def)
  have "own_fds s'" using assms(1) f new(3) by (auto simp: new(4) registered_def consistent_def own_fds_def sm.look_ins)
  moreover have "entries_agree s'"
    using assms(1) new(3) by (fastforce simp: new(4) registered_def consistent_def entries_agree_def sm.look_ins)
  ultimately show ?thesis by blast
qed

lemma agree_exit:
  assumes "consistent s"
  shows "entries_agree (fst (handle_exit i s)) \<and> own_fds (fst (handle_exit i s))"
proof -
  let ?s = "fst (handle_exit i s)" and ?f = "\<lambda>c. if cfd c = i then c\<lparr>connected := False\<rparr> else c"
  have "distinct (map fst (clients s))" using assms server_ok_distinct by (simp add: consistent_def)
  then have c: "map_of (clients ?s) k = map_option ?f (map_of (clients s) k)" for k
    using assms by (simp add: handle_exit_def Let_def, intro map_of_update_first_unique)
      (auto simp: consistent_def own_fds_def)
  have t: "map_of (topics_subs ?s) t = map_option (update_all ?f) (map_of (topics_subs s) t)" for t
    by (simp add: handle_exit_def Let_def update_subscribers_def map_of_update_all)
  have "own_fds ?s" using assms by (auto simp: consistent_def own_fds_def c)
  moreover have "entries_agree ?s"
    unfolding entries_agree_def
  proof (intro allI impI)
    fix u subs k d assume "map_of (topics_subs ?s) u = Some subs" "map_of subs k = Some d"
    then obtain subs0 d0 where d0: "map_of (topics_subs s) u = Some subs0" "map_of subs0 k = Some d0" "d = ?f d0"
      by (auto simp: t map_of_update_all)
    obtain e where "map_of (clients s) k = Some e" "connected d0 = connected e" "cfd d0 = cfd e"
      using assms d0(1,2) unfolding consistent_def entries_agree_def by blast
    with d0(3) show "\<exists>e. map_of (clients ?s) k = Some e \<and> connected d = connected e \<and> cfd d = cfd e"
      by (simp add: c)
  qed
  ultimately show ?thesis by blast
qed

lemma agree_unsubscribe:
  assumes "consistent s" shows "entries_agree (unsubscribe i t s) \<and> own_fds (unsubscribe i t s)"
proof -
  have "distinct (map fst (map_at t [] (topics_subs s)))"
    using subs_ok_at [of s t] assms by (simp add: consistent_def subs_ok_def in_order_distinct)
  then have "map_of (erase_first P (map_at t [] (topics_subs s))) k = Some c \<Longrightarrow>
      \<exists>subs. map_of (topics_subs s) t = Some subs \<and> map_of subs k = Some c" for P k c
    by (rule map_of_map_at [OF map_of_erase_first])
  note erased = this
  have "\<exists>d. map_of (clients s) k = Some d \<and> connected c = connected d \<and> cfd c = cfd d"
    if c: "map_of (topics_subs (unsubscribe i t s)) u = Some subs" "map_of subs k = Some c" for u subs k c
  proof -
    have "\<exists>subs. map_of (topics_subs s) u = Some subs \<and> map_of subs k = Some c"
    proof (cases "u = t")
      case True
      with c have "subs = erase_first (\<lambda>c. cfd c = i) (map_at t [] (topics_subs s))"
        by (simp add: unsubscribe_def Let_def sm.look_put)
      with c(2) True erased show ?thesis by blast
    next
      case False
      with c show ?thesis by (simp add: unsubscribe_def Let_def sm.look_other)
    qed
    with assms show ?thesis unfolding consistent_def entries_agree_def by blast
  qed
  then have "entries_agree (unsubscribe i t s)"
    unfolding entries_agree_def by (simp add: unsubscribe_def Let_def)
  moreover have "own_fds (unsubscribe i t s)"
    using consistentD(3) [OF assms] by (simp add: own_fds_def unsubscribe_def Let_def)
  ultimately show ?thesis by blast
qed

lemma agree_subscribe:
  assumes "consistent s" "subscribe i t token s = Inr s'"
  shows "entries_agree s' \<and> own_fds s'"
proof (cases "find_first (\<lambda>c. cfd c = i) (clients s)")
  case None
  with assms show ?thesis
    by (auto simp: consistent_def entries_agree_def own_fds_def subscribe_def sm.look_ins split: if_splits)
next
  case (Some kc)
  obtain k c where kc: "kc = (k, c)" by (cases kc)
  have c: "map_of (clients s) k = Some c"
    using map_of_find_first [OF _ Some [unfolded kc]] assms(1) server_ok_distinct(2) by (simp add: consistent_def)
  obtain tok where "token = Some tok" using assms(2) Some by (cases token) (simp_all add: subscribe_def kc Let_def)
  with assms(2) Some have s': "s' = s\<lparr>clients := map_put k (c\<lparr>sf := peek tok\<rparr>) (clients s),
      topics_subs := map_put t (map_insert k (c\<lparr>sf := peek tok\<rparr>) (map_at t [] (topics_subs s))) (map_insert t [] (topics_subs s))\<rparr>"
    by (simp add: subscribe_def kc Let_def)
  have "own_fds s'" using assms(1) c by (auto simp: s' consistent_def own_fds_def sm.look_put split: if_splits)
  moreover have "entries_agree s'"
    unfolding entries_agree_def
  proof (intro allI impI)
    fix t' subs j d assume d: "map_of (topics_subs s') t' = Some subs" "map_of subs j = Some d"
    consider "j = k" "d = c\<lparr>sf := peek tok\<rparr>" | subs0 where "map_of (topics_subs s) t' = Some subs0" "map_of subs0 j = Some d"
      using d map_of_map_at [of t "topics_subs s" j d]
      by (auto simp: s' sm.look_put sm.look_ins split: if_splits)
    then show "\<exists>e. map_of (clients s') j = Some e \<and> connected d = connected e \<and> cfd d = cfd e"
    proof cases
      case 1
      then show ?thesis by (simp add: s' sm.look_put)
    next
      case 2
      with assms(1) obtain e where "map_of (clients s) j = Some e" "connected d = connected e" "cfd d = cfd e"
        unfolding consistent_def entries_agree_def by blast
      with c show ?thesis by (auto simp: s' sm.look_put)
    qed
  qed
  ultimately show ?thesis by blast
qed

lemma consistent_step:
  assumes "consistent s" "fresh ev s" "server_step s ev effs s'"
  shows "consistent s'"
proof -
  have "server_ok s'" by (rule server_step_ok [OF assms(3) consistentD(1) [OF assms(1)]])
  moreover from assms(3) have "entries_agree s' \<and> own_fds s'"
  proof (cases rule: server_step_cases)
    case (datagram ip port bytes)
    show ?thesis by (rule agree_datagram [OF consistentD(2,3) [OF assms(1)] datagram(2)])
  next
    case (connect fd bytes)
    show ?thesis by (rule agree_connect [OF assms(1) assms(2) [unfolded connect(1)] connect(2)])
  next
    case (data i bytes)
    from data(2) show ?thesis
    proof (cases rule: handle_data_cases)
      case leave
      show ?thesis using agree_exit [OF assms(1), of i] by (simp flip: leave(2))
    next
      case (unsubscribe t)
      show ?thesis using agree_unsubscribe [OF assms(1)] unsubscribe(1) by simp
    next
      case (subscribe t token)
      show ?thesis using agree_subscribe [OF assms(1) subscribe(1)] .
    qed
  qed
  ultimately show ?thesis by (simp add: consistent_def)
qed

lemma reachable_consistent: "reachable_fresh s \<Longrightarrow> consistent s"
proof (induction rule: reachable_fresh.induct)
  case (start u t)
  then show ?case by (simp add: consistent_def server_init_ok) (simp add: server_init_def entries_agree_def own_fds_def)
qed (rule consistent_step)

section \<open>Invariants\<close>

text \<open>
  C27: In every state the broker reaches, its three maps are in the order of their keys, every client is
  stored under its own identity, which fits its array, and has a queue of messages, and every entry
  under a topic is stored under its own identity and belongs to a client.
\<close>

theorem server_maps_well_formed: "reachable s \<Longrightarrow> server_ok s"
  by (rule reachable_ok)

lemma filled_short: "length b < SERVER_BUFLEN \<Longrightarrow> filled b = b @ replicate (SERVER_BUFLEN - length b) NUL"
  by (simp add: filled_def)

lemma connect_new:
  assumes "NUL \<notin> set k" "length k < 10" "map_of (clients s) k = None"
  shows "handle_event (Connect fd k) s = Running (registered fd k s) [Output (''New client '' @ k @ '' connected'')]"
proof -
  have "c_text (filled k) = Inr k" using assms by (simp add: SERVER_BUFLEN_def)
  with assms show ?thesis by (simp add: handle_event_def handle_connect_def registered_def)
qed

text \<open>A subscription as the subscriber sends it.\<close>

definition subscribe_line :: "string \<Rightarrow> char \<Rightarrow> string" where
  "subscribe_line t f = ''subscribe '' @ t @ '' '' @ [f, NL]"

definition unsubscribe_line :: "string \<Rightarrow> string" where
  "unsubscribe_line t = ''unsubscribe '' @ t @ [NL]"

lemma tokens_subscribe:
  assumes "t \<noteq> []" "CHR '' '' \<notin> set t" "f \<noteq> CHR '' ''"
  shows "strtok '' '' (subscribe_line t f) = Some (''subscribe'', t @ '' '' @ [f, NL])"
    "strtok '' '' (t @ '' '' @ [f, NL]) = Some (t, [f, NL])" "strtok '' '' [f, NL] = Some ([f, NL], [])"
  using assms strtok_token(1) [of "''subscribe''" "'' ''" "CHR '' ''" "t @ '' '' @ [f, NL]"]
    strtok_token(1) [of t "'' ''" "CHR '' ''" "[f, NL]"] strtok_token(2) [of "[f, NL]" "'' ''" "CHR '' ''"]
  by (auto simp: subscribe_line_def)

lemma tokens_unsubscribe:
  assumes "CHR '' '' \<notin> set t"
  shows "strtok '' '' (unsubscribe_line t) = Some (''unsubscribe'', t @ [NL])" "strtok '' '' (t @ [NL]) = Some (t @ [NL], [])"
  using assms strtok_token(1) [of "''unsubscribe''" "'' ''" "CHR '' ''" "t @ [NL]"] strtok_token(2) [of "t @ [NL]" "'' ''" "CHR '' ''"]
  by (auto simp: unsubscribe_line_def)

lemma handle_subscribe_line:
  assumes "t \<noteq> []" "set t \<inter> {CHR '' '', NUL} = {}" "length t < 50" "f \<notin> {CHR '' '', NUL}"
  shows "handle_data i (subscribe_line t f) s = c_bind (subscribe i t (Some [f, NL]) s) (\<lambda>s. Inr (s, []))"
proof -
  have "c_text (filled (subscribe_line t f)) = Inr (subscribe_line t f)"
    using assms by (intro c_text_filled) (auto simp: subscribe_line_def SERVER_BUFLEN_def)
  moreover have "\<not> starts_with ''exit'' (filled (subscribe_line t f))"
    using assms(3) by (simp add: filled_short subscribe_line_def starts_with_def SERVER_BUFLEN_def)
  moreover have "handle_command i (subscribe_line t f) s = subscribe i t (Some [f, NL]) s"
    using assms tokens_subscribe [of t f] by (simp add: handle_command_def starts_with_def)
  ultimately show ?thesis by (simp add: handle_data_def)
qed

lemma find_first_own:
  assumes "consistent s" "map_of (clients s) k = Some c"
  shows "find_first (\<lambda>d. cfd d = cfd c) (clients s) = Some (k, c)"
proof (cases "find_first (\<lambda>d. cfd d = cfd c) (clients s)")
  case None
  with map_of_SomeD [OF assms(2)] show ?thesis by (auto simp: find_first_None)
next
  case (Some p)
  obtain j d where p: "p = (j, d)" by (cases p)
  have "map_of (clients s) j = Some d" "cfd d = cfd c"
    using map_of_find_first [OF server_ok_distinct(2) Some [unfolded p]] consistentD(1) [OF assms(1)] by simp_all
  moreover from this assms have "j = k" using consistentD(3) [OF assms(1)] unfolding own_fds_def by blast
  ultimately show ?thesis using assms(2) Some p by simp
qed

text \<open>A first client, its subscription, and its leaving.\<close>

abbreviation ana_connected :: server where "ana_connected \<equiv> registered 5 ''ana'' (server_init 3 4)"

abbreviation ana_subscribed :: server where
  "ana_subscribed \<equiv> ana_connected\<lparr>clients := [(''ana'', \<lparr>cid = ''ana'', connected = True, sf = CHR ''1'', cfd = 5\<rparr>)],
     topics_subs := [(''news'', [(''ana'', \<lparr>cid = ''ana'', connected = True, sf = CHR ''1'', cfd = 5\<rparr>)])]\<rparr>"

abbreviation ana_away :: server where
  "ana_away \<equiv> ana_connected\<lparr>clients := [(''ana'', \<lparr>cid = ''ana'', connected = False, sf = CHR ''1'', cfd = 5\<rparr>)],
     topics_subs := [(''news'', [(''ana'', \<lparr>cid = ''ana'', connected = False, sf = CHR ''1'', cfd = 5\<rparr>)])], read_fds := [0, 3, 4]\<rparr>"

lemma handle_leave:
  assumes "starts_with ''exit'' b" "length b < SERVER_BUFLEN"
  shows "handle_data i b s = Inr (handle_exit i s)"
  using assms by (auto simp: handle_data_def filled_short starts_with_iff)

lemma ana_steps:
  "handle_event (Connect 5 ''ana'') (server_init 3 4) = Running ana_connected [Output ''New client ana connected'']"
  "handle_event (FromClient 5 (subscribe_line ''news'' (CHR ''1''))) ana_connected = Running ana_subscribed []"
  "handle_event (FromClient 5 (''exit'' @ [NL])) ana_subscribed = Running ana_away [Close 5, Output ''Client ana disconnected.\<newline>'']"
  using connect_new [of "''ana''" "server_init 3 4" 5]
  by (simp_all add: handle_event_def handle_subscribe_line handle_leave starts_with_def SERVER_BUFLEN_def subscribe_def
      handle_exit_def Let_def registered_def server_init_def map_insert_def map_at_def update_subscribers_def update_all_def)

lemma ana_reachable: "reachable_fresh ana_connected" "reachable_fresh ana_subscribed" "reachable_fresh ana_away"
proof -
  show 1: "reachable_fresh ana_connected"
    by (rule reachable_fresh.step [OF reachable_fresh.start [of 3 4] _ server_step.running [OF ana_steps(1)]])
      (simp add: fresh_def server_init_def)
  show 2: "reachable_fresh ana_subscribed"
    by (rule reachable_fresh.step [OF 1 _ server_step.running [OF ana_steps(2)]]) (simp add: fresh_def)
  show "reachable_fresh ana_away"
    by (rule reachable_fresh.step [OF 2 _ server_step.running [OF ana_steps(3)]]) (simp add: fresh_def)
qed

theorem server_maps_well_formed_witness: "server_ok ana_away"
  by (rule server_maps_well_formed [OF reachable_fresh_reachable [OF ana_reachable(3)]])



end
