(* ===== verification/ServerDelivery.thy ===== *)
theory ServerDelivery
  imports ServerProps
begin

text \<open>
  Delivery through the broker: who is sent a published message, what is kept for those that are away
  and when they get it, what a subscription changes; and what the broker does on the inputs it does
  not guard.
\<close>

section \<open>Publishing\<close>

abbreviation message_of :: "string \<Rightarrow> nat \<Rightarrow> string \<Rightarrow> tcp_msg_to_send" where
  "message_of ip port bytes \<equiv> \<lparr>udp_cl_ip = ip, udp_cl_port = port, msg_udp = udp_msg_at (filled bytes)\<rparr>"

lemma datagram_published:
  assumes "server_ok s" "c_text (filled bytes) = Inr t" "map_of (topics_subs s) t = Some subs"
  obtains h where
    "handle_datagram ip port bytes s = Inr (s\<lparr>msg_holder := h\<rparr>,
      map (\<lambda>p. Send (cfd (snd p)) (message_of ip port bytes)) (filter (\<lambda>p. connected (snd p)) subs))"
    "\<And>k. queue_of h k = queue_of (msg_holder s) k @
      (case map_of subs k of Some c \<Rightarrow> if wants_stored c then [message_of ip port bytes] else [] | None \<Rightarrow> [])"
proof -
  let ?m = "message_of ip port bytes"
  let ?he = "fold (\<lambda>p. deliver ?m (snd p)) subs (msg_holder s, [])"
  have i: "in_order (fst (msg_holder s, [] :: effect list))" using assms(1) by (simp add: server_ok_def)
  have ok: "subs_ok s subs" using assms(1) map_of_SomeD [OF assms(3)] by (auto simp: server_ok_def)
  have "handle_datagram ip port bytes s = Inr (s\<lparr>msg_holder := fst ?he\<rparr>, snd ?he)"
    using assms(2,3) by (cases "subs = []") (simp_all add: handle_datagram_def map_count_def map_at_def Let_def case_prod_beta)
  moreover have "snd ?he = map (\<lambda>p. Send (cfd (snd p)) ?m) (filter (\<lambda>p. connected (snd p)) subs)"
    using fold_deliver_effects [OF i, where m = ?m and subs = subs] by simp
  moreover have "queue_of (fst ?he) k = queue_of (msg_holder s) k @
      (case map_of subs k of Some c \<Rightarrow> if wants_stored c then [?m] else [] | None \<Rightarrow> [])" for k
    using fold_deliver_queue [OF i, where m = ?m and subs = subs and k = k] filter_key [OF ok, of ?m k] by simp
  ultimately show thesis using that by metis
qed

text \<open>
  C25: A datagram on a topic that exists is sent once to each subscriber that is connected, in the
  order of their identities and to no one else, and put once at the end of the queue of each subscriber
  that is away and asked for store and forward; nothing else changes.
\<close>

theorem message_published:
  assumes "reachable s" "c_text (filled bytes) = Inr t" "map_of (topics_subs s) t = Some subs"
  shows "\<exists>s'. handle_event (Datagram ip port bytes) s = Running s'
      (map (\<lambda>p. Send (cfd (snd p)) (message_of ip port bytes)) (filter (\<lambda>p. connected (snd p)) subs)) \<and>
    s' = s\<lparr>msg_holder := msg_holder s'\<rparr> \<and>
    (\<forall>k. queue_of (msg_holder s') k = queue_of (msg_holder s) k @
      (case map_of subs k of Some c \<Rightarrow> if \<not> connected c \<and> sf c = CHR ''1'' then [message_of ip port bytes] else [] | None \<Rightarrow> []))"
proof -
  obtain h where "handle_datagram ip port bytes s = Inr (s\<lparr>msg_holder := h\<rparr>,
      map (\<lambda>p. Send (cfd (snd p)) (message_of ip port bytes)) (filter (\<lambda>p. connected (snd p)) subs))"
    "\<And>k. queue_of h k = queue_of (msg_holder s) k @
      (case map_of subs k of Some c \<Rightarrow> if wants_stored c then [message_of ip port bytes] else [] | None \<Rightarrow> [])"
    using datagram_published [OF reachable_ok [OF assms(1)] assms(2,3)] by blast
  then show ?thesis
    by (intro exI [of _ "s\<lparr>msg_holder := h\<rparr>"]) (simp add: handle_event_def wants_stored_def split: option.split)
qed

theorem message_published_witness:
  "\<exists>s. handle_event (Datagram ''10.0.0.9'' 1234 ''news'') ana_subscribed =
    Running s [Send 5 (message_of ''10.0.0.9'' 1234 ''news'')]"
  using message_published [OF reachable_fresh_reachable [OF ana_reachable(2)],
      of "''news''" "''news''" "[(''ana'', \<lparr>cid = ''ana'', connected = True, sf = CHR ''1'', cfd = 5\<rparr>)]" "''10.0.0.9''" 1234]
  by (auto simp: SERVER_BUFLEN_def)

section \<open>Store and forward\<close>

text \<open>What a datagram leaves in the queue of a client: one message, or nothing.\<close>

definition kept_for :: "server \<Rightarrow> string \<Rightarrow> string \<times> nat \<times> string \<Rightarrow> tcp_msg_to_send list" where
  "kept_for s k d =
     (case c_text (filled (snd (snd d))) of Inl _ \<Rightarrow> []
      | Inr t \<Rightarrow> (case map_of (topics_subs s) t of None \<Rightarrow> []
         | Some subs \<Rightarrow> (case map_of subs k of None \<Rightarrow> []
            | Some c \<Rightarrow> if wants_stored c then [message_of (fst d) (fst (snd d)) (snd (snd d))] else [])))"

abbreviation datagram_event :: "string \<times> nat \<times> string \<Rightarrow> event" where
  "datagram_event d \<equiv> Datagram (fst d) (fst (snd d)) (snd (snd d))"

lemma datagram_kept:
  assumes "server_ok s" "NUL \<in> set (filled (snd (snd d)))"
  obtains s' effs where "handle_event (datagram_event d) s = Running s' effs" "server_ok s'" "clients s' = clients s"
    "\<And>k. queue_of (msg_holder s') k = queue_of (msg_holder s) k @ kept_for s k d"
    "\<And>k e. kept_for s' k e = kept_for s k e"
proof -
  obtain ip port bytes where d: "d = (ip, port, bytes)" by (cases d)
  obtain t where t: "c_text (filled bytes) = Inr t" using assms(2) by (auto simp: c_text_def d)
  show thesis
  proof (cases "map_of (topics_subs s) t")
    case None
    let ?s = "s\<lparr>topics_subs := map_insert t [] (topics_subs s)\<rparr>"
    have h: "handle_datagram ip port bytes s = Inr (?s, [])" using t None by (simp add: handle_datagram_def map_count_def)
    have "kept_for ?s k e = kept_for s k e" for k e
      using None by (auto simp: kept_for_def sm.look_ins split: sum.split option.split)
    with h t None show thesis
      by (intro that [of ?s "[]"] datagram_ok [OF assms(1) h]) (auto simp: handle_event_def d kept_for_def)
  next
    case (Some subs)
    obtain h where h: "handle_datagram ip port bytes s = Inr (s\<lparr>msg_holder := h\<rparr>,
        map (\<lambda>p. Send (cfd (snd p)) (message_of ip port bytes)) (filter (\<lambda>p. connected (snd p)) subs))"
      "\<And>k. queue_of h k = queue_of (msg_holder s) k @
        (case map_of subs k of Some c \<Rightarrow> if wants_stored c then [message_of ip port bytes] else [] | None \<Rightarrow> [])"
      using datagram_published [OF assms(1) t Some] by blast
    have "kept_for (s\<lparr>msg_holder := h\<rparr>) k e = kept_for s k e" for k e
      by (simp add: kept_for_def split: sum.split option.split)
    moreover have "kept_for s k d = (case map_of subs k of Some c \<Rightarrow> if wants_stored c then [message_of ip port bytes] else [] | None \<Rightarrow> [])" for k
      by (simp add: kept_for_def d t Some split: option.split)
    ultimately show thesis
      using h by (intro that [OF _ datagram_ok [OF assms(1) h(1)]]) (simp_all add: handle_event_def d)
  qed
qed

lemma datagrams_kept:
  assumes "server_ok s" "\<forall>d \<in> set ds. NUL \<in> set (filled (snd (snd d)))"
  shows "\<exists>s' effs. run_events (map datagram_event ds) s = Running s' effs \<and> server_ok s' \<and> clients s' = clients s \<and>
    (\<forall>k. queue_of (msg_holder s') k = queue_of (msg_holder s) k @ concat (map (kept_for s k) ds))"
  using assms
proof (induction ds arbitrary: s)
  case (Cons d ds)
  obtain s1 e1 where 1: "handle_event (datagram_event d) s = Running s1 e1" "server_ok s1" "clients s1 = clients s"
    "\<And>k. queue_of (msg_holder s1) k = queue_of (msg_holder s) k @ kept_for s k d"
    "\<And>k e. kept_for s1 k e = kept_for s k e"
    using datagram_kept [of s d] Cons.prems by auto
  obtain s2 e2 where 2: "run_events (map datagram_event ds) s1 = Running s2 e2" "server_ok s2" "clients s2 = clients s1"
    "\<And>k. queue_of (msg_holder s2) k = queue_of (msg_holder s1) k @ concat (map (kept_for s1 k) ds)"
    using Cons.IH [OF 1(2)] Cons.prems(2) by auto
  have "kept_for s1 k = kept_for s k" for k by (rule ext) (rule 1(5))
  with 1 2 show ?case by (intro exI [of _ s2] exI [of _ "e1 @ e2"]) simp
qed simp

text \<open>
  C2: Whatever datagrams arrive while a client is away, when it connects again the broker sends it
  what its queue held before, then the message of each datagram on a topic it asked to have stored, each
  once and in the order of arrival, and its queue is empty afterwards.
\<close>

theorem store_and_forward:
  assumes "reachable s" "map_of (clients s) k = Some c" "\<not> connected c" "NUL \<notin> set k"
    "\<forall>d \<in> set ds. NUL \<in> set (filled (snd (snd d)))"
  shows "\<exists>s1 effs s2. run_events (map datagram_event ds) s = Running s1 effs \<and>
    handle_event (Connect fd k) s1 = Running s2
      (map (Send fd) (queue_of (msg_holder s) k @ concat (map (kept_for s k) ds)) @ [Output (''New client '' @ k @ '' connected'')]) \<and>
    queue_of (msg_holder s2) k = [] \<and> map_of (clients s2) k = Some (c\<lparr>cfd := fd, connected := True\<rparr>)"
proof -
  obtain s1 effs where 1: "run_events (map datagram_event ds) s = Running s1 effs" "server_ok s1" "clients s1 = clients s"
    "\<forall>k. queue_of (msg_holder s1) k = queue_of (msg_holder s) k @ concat (map (kept_for s k) ds)"
    using datagrams_kept [OF reachable_ok [OF assms(1)] assms(5)] by blast
  have "length k < 10" using reachable_ok [OF assms(1)] map_of_SomeD [OF assms(2)] by (auto simp: server_ok_def)
  then have "c_text (filled k) = Inr k" "length k < 10" using assms(4) by (simp_all add: SERVER_BUFLEN_def)
  then have "handle_connect fd k s1 = Inr (reconnected fd k c s1,
      map (Send fd) (queue_of (msg_holder s1) k) @ [Output (''New client '' @ k @ '' connected'')])"
    using assms(2,3) 1(3) by (simp add: handle_connect_def reconnected_def Let_def)
  with 1 show ?thesis
    by (intro exI [of _ s1] exI [of _ effs] exI [of _ "reconnected fd k c s1"])
      (simp add: handle_event_def reconnected_def map_at_def sm.look_put)
qed

theorem store_and_forward_witness:
  "\<exists>s1 effs s2 effs'. run_events [Datagram ''10.0.0.9'' 1 ''news'', Datagram ''10.0.0.9'' 2 ''sport'', Datagram ''10.0.0.9'' 3 ''news''] ana_away
      = Running s1 effs \<and>
    handle_event (Connect 7 ''ana'') s1 = Running s2
      ([Send 7 (message_of ''10.0.0.9'' 1 ''news''), Send 7 (message_of ''10.0.0.9'' 3 ''news'')] @ effs')"
proof -
  have k: "kept_for ana_away ''ana'' (''10.0.0.9'', 1, ''news'') = [message_of ''10.0.0.9'' 1 ''news'']"
    "kept_for ana_away ''ana'' (''10.0.0.9'', 2, ''sport'') = []"
    "kept_for ana_away ''ana'' (''10.0.0.9'', 3, ''news'') = [message_of ''10.0.0.9'' 3 ''news'']"
    "queue_of (msg_holder ana_away) ''ana'' = []"
    by (simp_all add: kept_for_def wants_stored_def SERVER_BUFLEN_def registered_def server_init_def map_insert_def map_at_def)
  have "NUL \<in> set (filled b)" if "length b < SERVER_BUFLEN" for b using that by (simp add: NUL_in_filled)
  then have "\<forall>d \<in> set [(''10.0.0.9'', 1, ''news''), (''10.0.0.9'', 2, ''sport''), (''10.0.0.9'', 3, ''news'')].
      NUL \<in> set (filled (snd (snd d)))" by (simp add: SERVER_BUFLEN_def)
  from store_and_forward [OF reachable_fresh_reachable [OF ana_reachable(3)] _ _ _ this, of "''ana''" _ 7] k
  show ?thesis by auto
qed

section \<open>Subscriptions\<close>

lemma subscribe_client:
  assumes "find_first (\<lambda>c. cfd c = i) (clients s) = Some (k, c)"
    "t \<noteq> []" "set t \<inter> {CHR '' '', NUL} = {}" "length t < 50" "f \<notin> {CHR '' '', NUL}"
  shows "handle_event (FromClient i (subscribe_line t f)) s = Running
    (s\<lparr>clients := map_put k (c\<lparr>sf := f\<rparr>) (clients s),
       topics_subs := map_put t (map_insert k (c\<lparr>sf := f\<rparr>) (map_at t [] (topics_subs s))) (map_insert t [] (topics_subs s))\<rparr>) []"
  using assms by (simp add: handle_event_def handle_subscribe_line subscribe_def Let_def)



lemma unsubscribe_line_ignored:
  assumes "set t \<inter> {CHR '' '', NUL} = {}" "length t < 1500"
  shows "\<exists>s'. handle_event (FromClient i (unsubscribe_line t)) s = Running s' [] \<and>
    (\<forall>u. u \<noteq> t @ [NL] \<longrightarrow> map_of (topics_subs s') u = map_of (topics_subs s) u) \<and>
    map_of (topics_subs s') (t @ [NL]) \<noteq> None"
proof -
  have "c_text (filled (unsubscribe_line t)) = Inr (unsubscribe_line t)"
    using assms by (intro c_text_filled) (auto simp: unsubscribe_line_def SERVER_BUFLEN_def)
  moreover have "\<not> starts_with ''exit'' (filled (unsubscribe_line t))"
    using assms(2) by (simp add: filled_short unsubscribe_line_def starts_with_def SERVER_BUFLEN_def)
  moreover have "handle_command i (unsubscribe_line t) s = Inr (unsubscribe i (t @ [NL]) s)"
    using assms tokens_unsubscribe [of t] by (simp add: handle_command_def starts_with_def)
  ultimately have "handle_event (FromClient i (unsubscribe_line t)) s = Running (unsubscribe i (t @ [NL]) s) []"
    by (simp add: handle_event_def handle_data_def)
  then show ?thesis
    by (intro exI [of _ "unsubscribe i (t @ [NL]) s"]) (simp add: unsubscribe_def Let_def sm.look_other sm.look_put)
qed

text \<open>
  The line a subscriber sends to unsubscribe ends in the newline it was typed with, and the broker
  takes the newline for a part of the topic: the subscribers of the topic stay as they were, and a topic with the
  newline in its name is created.
\<close>

theorem unsubscribe_ineffective:
  assumes "set t \<inter> {CHR '' '', NUL} = {}" "length t < 1500"
  shows "\<exists>s'. handle_event (FromClient i (unsubscribe_line t)) s = Running s' [] \<and>
    (\<forall>u. u \<noteq> t @ [NL] \<longrightarrow> map_of (topics_subs s') u = map_of (topics_subs s) u) \<and>
    map_of (topics_subs s') (t @ [NL]) \<noteq> None"
  using assms by (rule unsubscribe_line_ignored)

theorem unsubscribe_ineffective_witness:
  "\<exists>s. handle_event (FromClient 5 (unsubscribe_line ''news'')) ana_subscribed = Running s [] \<and>
    map_of (topics_subs s) ''news'' = map_of (topics_subs ana_subscribed) ''news''"
  using unsubscribe_ineffective [of "''news''" 5 ana_subscribed] by auto

section \<open>A descriptor used again\<close>

lemma map_of_update_first_other:
  "find_first P m = Some (j, d) \<Longrightarrow> k \<noteq> j \<Longrightarrow> map_of (update_first P f m) k = map_of m k"
  by (induction m) (auto split: if_splits)

text \<open>
  Where a client that left has the descriptor of a new one, which the kernel may hand out again, and
  comes before it: a subscription of the new client enters the one that left, so that no message of the topic
  reaches the new client, and when the new client leaves it stays marked connected and is refused when it comes back.
\<close>

theorem descriptor_reuse:
  assumes "reachable s" "find_first (\<lambda>c. cfd c = i) (clients s) = Some (j, d)" "\<not> connected d"
    "map_of (clients s) k = Some c" "j \<noteq> k" "connected c" "cfd c = i" "NUL \<notin> set k"
    "t \<noteq> []" "set t \<inter> {CHR '' '', NUL} = {}" "length t < 50" "f \<notin> {CHR '' '', NUL}" "map_of (topics_subs s) t = None"
  shows "(\<exists>s1. handle_event (FromClient i (subscribe_line t f)) s = Running s1 [] \<and>
      map_of (topics_subs s1) t = Some [(j, d\<lparr>sf := f\<rparr>)] \<and>
      (\<forall>ip port. \<exists>s2. handle_event (Datagram ip port t) s1 = Running s2 [])) \<and>
    (\<exists>s1 effs. handle_event (FromClient i (''exit'' @ [NL])) s = Running s1 effs \<and> map_of (clients s1) k = Some c \<and>
      (\<forall>fd. handle_event (Connect fd k) s1 = Running s1 [Output (''Client '' @ k @ '' already connected.\<newline>''), Close fd]))"
proof (intro conjI)
  define s1 where "s1 = s\<lparr>clients := map_put j (d\<lparr>sf := f\<rparr>) (clients s),
    topics_subs := map_put t (map_insert j (d\<lparr>sf := f\<rparr>) (map_at t [] (topics_subs s))) (map_insert t [] (topics_subs s))\<rparr>"
  have 1: "handle_event (FromClient i (subscribe_line t f)) s = Running s1 []"
    unfolding s1_def by (rule subscribe_client [OF assms(2,9-12)])
  have t: "map_of (topics_subs s1) t = Some [(j, d\<lparr>sf := f\<rparr>)]"
    using assms(13) by (simp add: s1_def sm.look_put map_at_def map_insert_def)
  have ok: "server_ok s1" by (rule reachable_ok [OF reachable.step [OF assms(1) server_step.running [OF 1]]])
  have c: "c_text (filled t) = Inr t" using assms(10,11) by (simp add: SERVER_BUFLEN_def)
  have "\<exists>s2. handle_event (Datagram ip port t) s1 = Running s2 []" for ip port
  proof -
    obtain h where "handle_datagram ip port t s1 = Inr (s1\<lparr>msg_holder := h\<rparr>,
        map (\<lambda>p. Send (cfd (snd p)) (message_of ip port t)) (filter (\<lambda>p. connected (snd p)) [(j, d\<lparr>sf := f\<rparr>)]))"
      by (rule datagram_published [OF ok c t])
    with assms(3) show ?thesis by (simp add: handle_event_def)
  qed
  with 1 t show "\<exists>s1. handle_event (FromClient i (subscribe_line t f)) s = Running s1 [] \<and>
      map_of (topics_subs s1) t = Some [(j, d\<lparr>sf := f\<rparr>)] \<and>
      (\<forall>ip port. \<exists>s2. handle_event (Datagram ip port t) s1 = Running s2 [])" by blast
next
  obtain s1 effs where h: "handle_exit i s = (s1, effs)" by (cases "handle_exit i s")
  then have "clients s1 = update_first (\<lambda>c. cfd c = i) (\<lambda>c. c\<lparr>connected := False\<rparr>) (clients s)"
    by (auto simp: handle_exit_def Let_def)
  then have k: "map_of (clients s1) k = Some c" using map_of_update_first_other [OF assms(2)] assms(4,5) by simp
  have "length k < 10" using reachable_ok [OF assms(1)] map_of_SomeD [OF assms(4)] by (auto simp: server_ok_def)
  then have "c_text (filled k) = Inr k" "length k < 10" using assms(8) by (simp_all add: SERVER_BUFLEN_def)
  then have "\<forall>fd. handle_event (Connect fd k) s1 = Running s1 [Output (''Client '' @ k @ '' already connected.\<newline>''), Close fd]"
    using k assms(6) by (simp add: handle_event_def handle_connect_def)
  moreover have "handle_event (FromClient i (''exit'' @ [NL])) s = Running s1 effs"
    using h by (simp add: handle_event_def handle_leave starts_with_def SERVER_BUFLEN_def)
  ultimately show "\<exists>s1 effs. handle_event (FromClient i (''exit'' @ [NL])) s = Running s1 effs \<and> map_of (clients s1) k = Some c \<and>
      (\<forall>fd. handle_event (Connect fd k) s1 = Running s1 [Output (''Client '' @ k @ '' already connected.\<newline>''), Close fd])"
    using k by blast
qed

theorem descriptor_reuse_witness:
  "\<exists>s1. handle_event (FromClient 5 (subscribe_line ''sport'' (CHR ''1''))) (registered 5 ''bob'' ana_away) = Running s1 [] \<and>
    (\<exists>s2. handle_event (Datagram ''10.0.0.9'' 1 ''sport'') s1 = Running s2 [])"
proof -
  have "map_of (clients ana_away) ''bob'' = None" by simp
  from connect_new [OF _ _ this, of 5]
  have "reachable (registered 5 ''bob'' ana_away)"
    by (intro reachable.step [OF reachable_fresh_reachable [OF ana_reachable(3)] server_step.running [where ev = "Connect 5 ''bob''"]]) simp
  from descriptor_reuse [OF this, of 5 "''ana''" "\<lparr>cid = ''ana'', connected = False, sf = CHR ''1'', cfd = 5\<rparr>" "''bob''"
      "\<lparr>cid = ''bob'', connected = True, sf = NUL, cfd = 5\<rparr>" "''sport''" "CHR ''1''"]
  show ?thesis by (auto simp: registered_def map_insert_def)
qed

section \<open>Unguarded inputs\<close>

text \<open>
  A datagram is read past the buffer exactly if it fills the buffer without a terminator; an identity
  overflows its array exactly if it has ten characters or more; a client that closes its connection without
  a word, or sends one word only, makes the broker read through a null pointer; and a line on standard input other
  than the one that stops the broker ends it with an error.
\<close>

theorem unguarded_inputs:
  "((\<exists>e. handle_event (Datagram ip port bytes) s = Fault e) \<longleftrightarrow> NUL \<notin> set (filled bytes)) \<and>
   ((\<exists>e. handle_event (Connect fd bytes) s = Fault e) \<longleftrightarrow> 10 \<le> length (takeWhile (\<lambda>c. c \<noteq> NUL) (filled bytes))) \<and>
   handle_event (FromClient i []) s = Fault NullDeref \<and>
   handle_event (FromClient i ''subscribe\<newline>'') s = Fault NullDeref \<and>
   handle_event (Stdin ''quit\<newline>'') s = Died"
proof (intro conjI)
  show "(\<exists>e. handle_event (Datagram ip port bytes) s = Fault e) \<longleftrightarrow> NUL \<notin> set (filled bytes)"
    by (auto simp: handle_event_def handle_datagram_def c_text_def case_prod_beta Let_def)
  have "length (filled bytes) = SERVER_BUFLEN" by (simp add: filled_def)
  then have "NUL \<notin> set (filled bytes) \<Longrightarrow> 10 \<le> length (takeWhile (\<lambda>c. c \<noteq> NUL) (filled bytes))"
    by (subst takeWhile_eq_all_conv [THEN iffD2]) (auto simp: SERVER_BUFLEN_def)
  then show "(\<exists>e. handle_event (Connect fd bytes) s = Fault e) \<longleftrightarrow> 10 \<le> length (takeWhile (\<lambda>c. c \<noteq> NUL) (filled bytes))"
    by (auto simp: handle_event_def handle_connect_def c_text_def Let_def split: option.splits if_splits)
  have t: "c_text (filled []) = Inr []" "c_text (filled ''subscribe\<newline>'') = Inr ''subscribe\<newline>''"
    by (simp_all add: SERVER_BUFLEN_def)
  have e: "\<not> starts_with ''exit'' (filled [])" "\<not> starts_with ''exit'' (filled ''subscribe\<newline>'')"
    by (simp_all add: filled_short starts_with_def SERVER_BUFLEN_def)
  show "handle_event (FromClient i []) s = Fault NullDeref" "handle_event (FromClient i ''subscribe\<newline>'') s = Fault NullDeref"
    using e by (simp_all add: handle_event_def handle_data_def handle_command_def t strtok_def)
  show "handle_event (Stdin ''quit\<newline>'') s = Died" by (simp add: handle_event_def)
qed

end
