(* ===== verification/ServerRuns.thy ===== *)
theory ServerRuns
  imports ServerLoop ServerDelivery
begin

text \<open>
  The broker's \<^verbatim>\<open>main\<close> against the runs over events of \<open>Server\<close>: a round of \<open>select\<close> is the run over its ready
  descriptors in ascending order, so what holds of runs holds of the program. The highest descriptor and the read set
  miss no client.
\<close>

section \<open>Rounds as runs\<close>

text \<open>What a ready descriptor is to the handlers, where the calls on it succeed.\<close>

definition event_at :: "nat \<Rightarrow> nat \<Rightarrow> round_calls \<Rightarrow> nat \<Rightarrow> event" where
  "event_at udp tcp k i =
     (if i = 0 then Stdin (takeWhile (\<lambda>c. c \<noteq> NUL) (line_read k))
      else if i = udp then (case the (recvfrom_ret k) of (ip, port, bytes) \<Rightarrow> Datagram ip port bytes)
      else if i = tcp then Connect (the (accept_ret k)) (the (recv_ret k (the (accept_ret k))))
      else FromClient i (the (recv_ret k i)))"

definition round_events :: "nat \<Rightarrow> nat \<Rightarrow> round_calls \<Rightarrow> server \<Rightarrow> event list" where
  "round_events udp tcp k s = map (event_at udp tcp k) (filter (selected k s) [0..<Suc (maxfd s)])"

text \<open>
  The call on a descriptor succeeds, except that \<open>recv\<close> on standard input, which is no socket, fails; and all calls of a
  round do so.
\<close>

definition call_ok :: "nat \<Rightarrow> nat \<Rightarrow> round_calls \<Rightarrow> nat \<Rightarrow> bool" where
  "call_ok udp tcp k i =
     (if i = 0 then recv_ret k 0 = None
      else if i = udp then recvfrom_ret k \<noteq> None
      else if i = tcp then accept_ret k \<noteq> None \<and> recv_ret k (the (accept_ret k)) \<noteq> None
      else recv_ret k i \<noteq> None)"

definition calls_ok :: "nat \<Rightarrow> nat \<Rightarrow> round_calls \<Rightarrow> server \<Rightarrow> bool" where
  "calls_ok udp tcp k s \<longleftrightarrow> 0 \<le> select_ret k \<and> list_all (call_ok udp tcp k) (filter (selected k s) [0..<Suc (maxfd s)])"

definition summary :: "effect list \<times> server program \<Rightarrow> step_result" where
  "summary r = (case snd r of
     Going s \<Rightarrow> Running s (fst r) | Leaving \<Rightarrow> Stopped | Exited n \<Rightarrow> if n = 0 then Stopped else Died | Crashed e \<Rightarrow> Fault e)"

lemma summary_simps [simp]:
  "summary (effs, Going s) = Running s effs" "summary (effs, Leaving) = Stopped" "summary (effs, Exited 0) = Stopped"
  "summary (effs, Exited (Suc n)) = Died" "summary (effs, Crashed e) = Fault e"
  by (simp_all add: summary_def)

lemma prepend_pair [simp]: "prepend effs (es, r) = (effs @ es, r)" "snd (prepend effs q) = snd q"
  by (simp_all add: prepend_def)

lemma summary_prepend: "summary (prepend effs r) = (case summary r of Running s e \<Rightarrow> Running s (effs @ e) | q \<Rightarrow> q)"
  by (cases r) (auto simp: summary_def prepend_def split: program.split)

lemma summary_handled:
  "summary (handled r) = (case r of Inl e \<Rightarrow> Fault e | Inr (s, effs) \<Rightarrow> Running s effs)"
  by (simp add: handled_def split: sum.split prod.split)

lemma handle_ready_event:
  assumes "call_ok udp tcp k i" "0 < udp" "udp < tcp"
  shows "summary (handle_ready udp tcp k i s) = handle_event (event_at udp tcp k i) s"
proof -
  consider "i = 0" | "i = udp" | "i = tcp" | "i \<notin> {0, udp, tcp}" by blast
  then show ?thesis
    using assms
    by cases (auto simp: call_ok_def handle_ready_def event_at_def handle_event_def summary_handled)
qed

lemma run_events_append:
  "run_events (as @ bs) s = (case run_events as s of
     Running s' effs \<Rightarrow> (case run_events bs s' of Running s'' effs' \<Rightarrow> Running s'' (effs @ effs') | r \<Rightarrow> r) | r \<Rightarrow> r)"
  by (induction as arbitrary: s) (auto split: step_result.split)

lemma handle_ready_cases:
  assumes "handle_ready udp tcp k i s = (effs, Going s')"
  obtains (datagram) ip port bytes where "handle_datagram ip port bytes s = Inr (s', effs)"
    | (connect) fd bytes where "i = tcp" "accept_ret k = Some fd" "handle_connect fd bytes s = Inr (s', effs)"
    | (data) bytes where "i \<noteq> udp" "i \<noteq> tcp" "handle_data i bytes s = Inr (s', effs)"
  using assms by (auto simp: handle_ready_def handled_def split: if_splits option.splits sum.splits)

lemma handle_ready_fds:
  assumes "handle_ready udp tcp k i s = (effs, Going s')"
  obtains (kept) "maxfd s' = maxfd s" "set (read_fds s) - ({i} - {udp, tcp}) \<subseteq> set (read_fds s')"
      "set (read_fds s') \<subseteq> set (read_fds s)"
  | (added) fd where "i = tcp" "accept_ret k = Some fd" "maxfd s' = max (maxfd s) fd" "read_fds s' = fd # read_fds s"
  using assms
proof (cases rule: handle_ready_cases)
  case datagram
  from handle_datagram_fds [OF this] show thesis by (intro kept) auto
next
  case (connect fd bytes)
  from handle_connect_fds [OF connect(3)] show thesis
  proof
    assume "maxfd s' = maxfd s \<and> read_fds s' = read_fds s"
    then show thesis by (intro kept) auto
  next
    assume "maxfd s' = max (maxfd s) fd \<and> read_fds s' = fd # read_fds s"
    with connect(1,2) show thesis by (intro added) auto
  qed
next
  case (data bytes)
  with handle_data_fds [OF data(3)] show thesis by (intro kept) auto
qed

lemma handle_ready_mono: "handle_ready udp tcp k i s = (effs, Going s') \<Longrightarrow> maxfd s \<le> maxfd s'"
  by (erule handle_ready_fds) auto

lemma select_round_events:
  assumes "\<And>j. ready j \<Longrightarrow> call_ok udp tcp k j" "0 < udp" "udp < tcp" "\<And>j. ready j \<Longrightarrow> j \<le> m" "m \<le> maxfd s"
  shows "summary (select_round udp tcp k ready i s) = run_events (map (event_at udp tcp k) (filter ready [i..<Suc m])) s"
  using assms
proof (induction udp tcp k ready i s rule: select_round.induct)
  case (1 udp tcp k ready i s)
  consider (past) "maxfd s < i" | (idle) "i \<le> maxfd s" "\<not> ready i" | (turn) "i \<le> maxfd s" "ready i" by linarith
  then show ?case
  proof cases
    case past
    with "1.prems"(5) show ?thesis by (subst select_round.simps) simp
  next
    case idle
    then have "filter ready [i..<Suc m] = filter ready [Suc i..<Suc m]" by (simp add: upt_rec [of i "Suc m"] del: upt_Suc)
    with idle 1 show ?thesis by (subst select_round.simps) simp
  next
    case turn
    then have l: "filter ready [i..<Suc m] = i # filter ready [Suc i..<Suc m]"
      using "1.prems"(4) by (simp add: upt_rec [of i "Suc m"] less_Suc_eq_le del: upt_Suc)
    have h: "handle_event (event_at udp tcp k i) s = summary (handle_ready udp tcp k i s)"
      using handle_ready_event [OF "1.prems"(1) [OF turn(2)] "1.prems"(2,3)] by simp
    obtain effs r where r: "handle_ready udp tcp k i s = (effs, r)" by fastforce
    show ?thesis
    proof (cases r)
      case (Going s')
      have "m \<le> maxfd s'" using handle_ready_mono r Going "1.prems"(5) by fastforce
      with turn r Going 1 have "summary (select_round udp tcp k ready (Suc i) s') =
          run_events (map (event_at udp tcp k) (filter ready [Suc i..<Suc m])) s'" by simp
      with turn r Going l h show ?thesis by (subst select_round.simps) (simp add: summary_prepend)
    qed (use turn r l h in \<open>subst select_round.simps, simp add: summary_def split: if_splits\<close>)+
  qed
qed

lemma server_round_events:
  assumes "calls_ok udp tcp k s" "0 < udp" "udp < tcp"
  shows "summary (server_round udp tcp k s) = run_events (round_events udp tcp k s) s"
proof -
  have "j < Suc (maxfd s)" if "selected k s j" for j using that by (simp add: selected_def)
  moreover from this have "call_ok udp tcp k j" if "selected k s j" for j
    using that assms(1) by (auto simp: calls_ok_def list_all_iff simp del: upt_Suc)
  ultimately have "summary (select_round udp tcp k (selected k s) 0 s) = run_events (round_events udp tcp k s) s"
    unfolding round_events_def by (intro select_round_events assms(2,3)) (auto simp: less_Suc_eq_le simp del: upt_Suc)
  with assms(1) show ?thesis by (simp add: server_round_def calls_ok_def)
qed

section \<open>The program\<close>

text \<open>The events of all rounds, and that the calls of each succeed, from what the handlers make of the state.\<close>

fun loop_events :: "nat \<Rightarrow> nat \<Rightarrow> round_calls list \<Rightarrow> server \<Rightarrow> event list" where
  "loop_events udp tcp [] s = []"
| "loop_events udp tcp (k # ks) s = round_events udp tcp k s @
     (case run_events (round_events udp tcp k s) s of Running s' effs \<Rightarrow> loop_events udp tcp ks s' | _ \<Rightarrow> [])"

fun loop_ok :: "nat \<Rightarrow> nat \<Rightarrow> round_calls list \<Rightarrow> server \<Rightarrow> bool" where
  "loop_ok udp tcp [] s = True"
| "loop_ok udp tcp (k # ks) s = (calls_ok udp tcp k s \<and>
     (case run_events (round_events udp tcp k s) s of Running s' effs \<Rightarrow> loop_ok udp tcp ks s' | _ \<Rightarrow> True))"

lemma select_round_ends: "snd (select_round udp tcp k ready i s) \<noteq> Exited 0"
proof (induction udp tcp k ready i s rule: select_round.induct)
  case (1 udp tcp k ready i s)
  have "snd (handle_ready udp tcp k i s) \<noteq> Exited 0"
    by (auto simp: handle_ready_def handled_def split: option.splits sum.splits prod.splits)
  with 1 show ?case
    by (subst select_round.simps) (auto simp: prepend_def split: program.splits prod.splits)
qed

lemma summary_cases:
  obtains s' effs where "r = (effs, Going s')" "summary r = Running s' effs"
  | "snd r = Leaving" "summary r = Stopped"
  | "snd r = Exited 0" "summary r = Stopped"
  | n where "snd r = Exited (Suc n)" "summary r = Died"
  | e where "snd r = Crashed e" "summary r = Fault e"
proof (cases r)
  case (Pair effs q)
  note r = this
  then show thesis using that
  proof (cases q)
    case (Exited n)
    with r that show thesis by (cases n) auto
  qed auto
qed

lemma server_loop_events:
  assumes "0 < udp" "udp < tcp" "loop_ok udp tcp ks s"
  shows "summary (server_loop udp tcp ks s) = run_events (loop_events udp tcp ks s) s \<and>
    (run_events (loop_events udp tcp ks s) s = Stopped \<longrightarrow>
      (\<exists>effs. server_loop udp tcp ks s = (effs @ [Close tcp, Close udp], Exited 0)))"
  using assms(3)
proof (induction ks arbitrary: s)
  case (Cons k ks)
  have e: "summary (server_round udp tcp k s) = run_events (round_events udp tcp k s) s"
    using server_round_events [OF _ assms(1,2)] Cons.prems by simp
  have n: "snd (server_round udp tcp k s) \<noteq> Exited 0"
    using select_round_ends by (simp add: server_round_def)
  show ?case
  proof (cases rule: summary_cases [of "server_round udp tcp k s"])
    case (1 s' effs)
    with e have "run_events (round_events udp tcp k s) s = Running s' effs" by simp
    with Cons.prems have "loop_ok udp tcp ks s'" by simp
    from Cons.IH [OF this] 1 e show ?thesis
      by (auto simp: run_events_append summary_prepend split: step_result.splits)
  next
    case 2
    with e show ?thesis by (cases "server_round udp tcp k s") simp
  next
    case 3
    with n show ?thesis by simp
  next
    case (4 n)
    with e show ?thesis by (cases "server_round udp tcp k s") simp
  next
    case (5 c)
    with e have "run_events (round_events udp tcp k s) s = Fault c" by simp
    with 5 show ?thesis by (cases "server_round udp tcp k s") simp
  qed
qed simp

section \<open>The read set\<close>

definition watching :: "nat \<Rightarrow> nat \<Rightarrow> server \<Rightarrow> bool" where
  "watching udp tcp s \<longleftrightarrow> reachable s \<and> {udp, tcp} \<subseteq> set (read_fds s) \<and> (\<forall>fd \<in> set (read_fds s). fd \<le> maxfd s)"

lemma handle_ready_step:
  assumes "handle_ready udp tcp k i s = (effs, Going s')"
  shows "\<exists>ev. server_step s ev effs s'"
  using assms
proof (cases rule: handle_ready_cases)
  case (datagram ip port bytes)
  then have "handle_event (Datagram ip port bytes) s = Running s' effs" by (simp add: handle_event_def)
  then show ?thesis by (blast intro: server_step.running)
next
  case (connect fd bytes)
  then have "handle_event (Connect fd bytes) s = Running s' effs" by (simp add: handle_event_def)
  then show ?thesis by (blast intro: server_step.running)
next
  case (data bytes)
  then have "handle_event (FromClient i bytes) s = Running s' effs" by (simp add: handle_event_def)
  then show ?thesis by (blast intro: server_step.running)
qed

lemma handle_ready_watching:
  assumes "watching udp tcp s" "handle_ready udp tcp k i s = (effs, Going s')"
  shows "watching udp tcp s'"
proof -
  obtain ev where "server_step s ev effs s'" using handle_ready_step [OF assms(2)] by blast
  then have "reachable s'" using assms(1) by (auto simp: watching_def intro: reachable.step)
  with assms show ?thesis by (elim handle_ready_fds) (auto simp: watching_def)
qed

lemma select_round_watching:
  "watching udp tcp s \<Longrightarrow> snd (select_round udp tcp k ready i s) = Going s' \<Longrightarrow> watching udp tcp s'"
proof (induction udp tcp k ready i s rule: select_round.induct)
  case (1 udp tcp k ready i s)
  show ?case
    using "1.prems"(2) [unfolded select_round.simps [of udp tcp k ready i s]] "1.IH" "1.prems"(1)
      handle_ready_watching [OF "1.prems"(1), of k i]
    by (auto split: if_splits program.splits prod.splits)
qed

lemma server_loop_watching:
  "watching udp tcp s \<Longrightarrow> snd (server_loop udp tcp ks s) = Going s' \<Longrightarrow> watching udp tcp s'"
proof (induction ks arbitrary: s)
  case (Cons k ks)
  then show ?case
    using select_round_watching [of udp tcp s k "selected k s" 0]
    by (auto simp: server_round_def split: program.splits prod.splits if_splits)
qed simp

section \<open>Clients are read\<close>

text \<open>The descriptor of every client that is connected is in the read set.\<close>

definition clients_watched :: "server \<Rightarrow> bool" where
  "clients_watched s \<longleftrightarrow> (\<forall>k c. map_of (clients s) k = Some c \<and> connected c \<longrightarrow> cfd c \<in> set (read_fds s))"

lemma clients_watched_connect:
  assumes "clients_watched s" "handle_connect fd bytes s = Inr (s', effs)"
  shows "clients_watched s'"
  using assms(2)
proof (cases rule: handle_connect_cases)
  case (away k c)
  with assms(1) show ?thesis
    by (auto simp: clients_watched_def reconnected_def sm.look_put update_subscribers_def split: if_splits)
next
  case (refused k c)
  with assms(1) show ?thesis by simp
next
  case (new k)
  with assms(1) show ?thesis
    by (auto simp: clients_watched_def registered_def sm.look_ins split: if_splits)
qed

lemma clients_watched_exit:
  assumes "clients_watched s" "consistent s"
  shows "clients_watched (fst (handle_exit i s))"
proof -
  let ?f = "\<lambda>c. if cfd c = i then c\<lparr>connected := False\<rparr> else c"
  have "distinct (map fst (clients s))" using assms server_ok_distinct by (simp add: consistent_def)
  then have m: "map_of (clients (fst (handle_exit i s))) k = map_option ?f (map_of (clients s) k)" for k
    using assms by (simp add: handle_exit_def Let_def, intro map_of_update_first_unique)
      (auto simp: consistent_def own_fds_def)
  have r: "set (read_fds (fst (handle_exit i s))) = set (read_fds s) - {i}"
    by (auto simp: handle_exit_def Let_def update_subscribers_def)
  show ?thesis
    unfolding clients_watched_def
  proof (intro allI impI)
    fix k c assume c: "map_of (clients (fst (handle_exit i s))) k = Some c \<and> connected c"
    then obtain z where z: "map_of (clients s) k = Some z" "c = ?f z" by (auto simp: m)
    with c have "cfd z \<noteq> i" "c = z" "connected z" by (auto split: if_splits)
    moreover have "cfd z \<in> set (read_fds s)" using assms(1) z(1) \<open>connected z\<close> unfolding clients_watched_def by blast
    ultimately show "cfd c \<in> set (read_fds (fst (handle_exit i s)))" by (simp add: r)
  qed
qed

lemma clients_watched_subscribe:
  assumes "clients_watched s" "server_ok s" "subscribe i t token s = Inr s'"
  shows "clients_watched s'"
proof (cases "find_first (\<lambda>c. cfd c = i) (clients s)")
  case None
  with assms show ?thesis by (auto simp: clients_watched_def subscribe_def)
next
  case (Some kc)
  obtain k c where kc: "kc = (k, c)" by (cases kc)
  have "map_of (clients s) k = Some c"
    using map_of_find_first [OF _ Some [unfolded kc]] assms(2) server_ok_distinct(2) by simp
  with assms(1,3) Some kc show ?thesis
    by (auto simp: clients_watched_def subscribe_def Let_def sm.look_put split: option.splits if_splits)
qed

lemma clients_watched_step:
  assumes "clients_watched s" "consistent s" "server_step s ev effs s'"
  shows "clients_watched s'"
  using assms(3)
proof (cases rule: server_step_cases)
  case (datagram ip port bytes)
  from datagram(2) have "clients s' = clients s" by (cases rule: handle_datagram_cases) simp_all
  with assms(1) handle_datagram_fds [OF datagram(2)] show ?thesis unfolding clients_watched_def by simp
next
  case (connect fd bytes)
  with assms(1) show ?thesis by (blast intro: clients_watched_connect)
next
  case (data i bytes)
  from data(2) show ?thesis
  proof (cases rule: handle_data_cases)
    case leave
    show ?thesis using clients_watched_exit [OF assms(1,2), of i] by (simp flip: leave(2))
  next
    case (unsubscribe t)
    with assms(1) show ?thesis by (simp add: clients_watched_def unsubscribe_def Let_def)
  next
    case (subscribe t token)
    show ?thesis using clients_watched_subscribe [OF assms(1) consistentD(1) [OF assms(2)] subscribe(1)] .
  qed
qed

lemma reachable_clients_watched: "reachable_fresh s \<Longrightarrow> clients_watched s"
proof (induction rule: reachable_fresh.induct)
  case (step s ev effs s')
  then show ?case by (blast intro: clients_watched_step reachable_consistent)
qed (simp add: clients_watched_def server_init_def)

section \<open>Descriptors that are not used again\<close>

text \<open>The clients' descriptors are among \<open>A\<close>, the ones accepted so far.\<close>

definition tracked :: "nat set \<Rightarrow> server \<Rightarrow> bool" where
  "tracked A s \<longleftrightarrow> reachable_fresh s \<and> (\<forall>p \<in> set (clients s). cfd (snd p) \<in> A)"

lemma tracked_mono: "tracked A s \<Longrightarrow> A \<subseteq> B \<Longrightarrow> tracked B s"
  by (auto simp: tracked_def)

lemma handle_data_cfds:
  assumes "handle_data i bytes s = Inr (s', effs)" "p' \<in> set (clients s')"
  shows "\<exists>p \<in> set (clients s). cfd (snd p') = cfd (snd p)"
  using assms(1)
proof (cases rule: handle_data_cases)
  case leave
  then have "clients s' = clients (fst (handle_exit i s))" by (metis fst_conv)
  then have "clients s' = update_first (\<lambda>c. cfd c = i) (\<lambda>c. c\<lparr>connected := False\<rparr>) (clients s)"
    by (simp add: handle_exit_def Let_def)
  with assms(2) have "p' \<in> set (clients s) \<union> (\<lambda>p. (fst p, snd p\<lparr>connected := False\<rparr>)) ` set (clients s)"
    using set_update_first [of "\<lambda>c. cfd c = i" "\<lambda>c. c\<lparr>connected := False\<rparr>" "clients s"] by auto
  then show ?thesis by force
next
  case (unsubscribe t)
  with assms(2) show ?thesis by (auto simp: unsubscribe_def Let_def)
next
  case (subscribe t token)
  show ?thesis
  proof (cases "find_first (\<lambda>c. cfd c = i) (clients s)")
    case None
    with subscribe assms(2) show ?thesis by (auto simp: subscribe_def)
  next
    case (Some kc)
    obtain k c where kc: "kc = (k, c)" by (cases kc)
    have c: "(k, c) \<in> set (clients s)" using Some kc find_first_Some by fastforce
    obtain t where "clients s' = map_put k (c\<lparr>sf := t\<rparr>) (clients s)"
      using subscribe(1) Some kc by (auto simp: subscribe_def Let_def split: option.splits)
    with assms(2) have "p' \<in> insert (k, c\<lparr>sf := t\<rparr>) (set (clients s))"
      using set_map_put [of k "c\<lparr>sf := t\<rparr>" "clients s"] by auto
    with c show ?thesis by force
  qed
qed

lemma handle_connect_cfds:
  assumes "handle_connect fd bytes s = Inr (s', effs)" "p' \<in> set (clients s')"
  shows "cfd (snd p') = fd \<or> p' \<in> set (clients s)"
  using assms(1)
proof (cases rule: handle_connect_cases)
  case (away k c)
  with assms(2) set_map_put [of k "c\<lparr>cfd := fd, connected := True\<rparr>" "clients s"] show ?thesis
    by (auto simp: reconnected_def)
next
  case (new k)
  with assms(2) set_map_insert [of k "\<lparr>cid = k, connected = True, sf = NUL, cfd = fd\<rparr>" "clients s"] show ?thesis
    by (auto simp: registered_def)
qed (use assms(2) in simp)

lemma handle_ready_tracked:
  assumes "tracked A s" "handle_ready udp tcp k i s = (effs, Going s')"
    and "i = tcp \<Longrightarrow> set_option (accept_ret k) \<inter> A = {}"
  shows "tracked (if i = tcp then A \<union> set_option (accept_ret k) else A) s'"
  using assms(2)
proof (cases rule: handle_ready_cases)
  case (datagram ip port bytes)
  then have "clients s' = clients s" by (cases rule: handle_datagram_cases) simp_all
  moreover have "server_step s (Datagram ip port bytes) effs s'"
    using datagram by (intro server_step.running) (simp add: handle_event_def)
  ultimately show ?thesis
    using assms(1) reachable_fresh.step [of s "Datagram ip port bytes"] by (auto simp: tracked_def fresh_def)
next
  case (connect fd bytes)
  have "server_step s (Connect fd bytes) effs s'"
    using connect by (intro server_step.running) (simp add: handle_event_def)
  moreover have "fresh (Connect fd bytes) s" using assms(1,3) connect by (auto simp: fresh_def tracked_def)
  ultimately have "reachable_fresh s'" using assms(1) by (auto simp: tracked_def intro: reachable_fresh.step)
  with assms(1) connect handle_connect_cfds [OF connect(3)] show ?thesis by (auto simp: tracked_def)
next
  case (data bytes)
  have "server_step s (FromClient i bytes) effs s'"
    using data by (intro server_step.running) (simp add: handle_event_def)
  then have "reachable_fresh s'"
    using assms(1) reachable_fresh.step [of s "FromClient i bytes"] by (simp add: tracked_def fresh_def)
  with assms(1) handle_data_cfds [OF data(3)] data(2) show ?thesis by (fastforce simp: tracked_def)
qed

lemma select_round_tracked:
  assumes "tracked (if i \<le> tcp then A else A \<union> set_option (accept_ret k)) s" "set_option (accept_ret k) \<inter> A = {}"
    and "snd (select_round udp tcp k ready i s) = Going s'"
  shows "tracked (A \<union> set_option (accept_ret k)) s'"
  using assms
proof (induction udp tcp k ready i s rule: select_round.induct)
  case (1 udp tcp k ready i s)
  let ?B = "A \<union> set_option (accept_ret k)"
  have step: "tracked (if Suc i \<le> tcp then A else ?B) s1" if "handle_ready udp tcp k i s = (effs, Going s1)" for effs s1
    using handle_ready_tracked [OF "1.prems"(1) that] "1.prems"(2)
    by (cases "i = tcp") (auto split: if_splits intro: tracked_mono)
  have skip: "tracked (if Suc i \<le> tcp then A else ?B) s"
    using "1.prems"(1) by (auto split: if_splits intro: tracked_mono)
  have past: "tracked ?B s" using "1.prems"(1) by (auto split: if_splits intro: tracked_mono)
  show ?case
    using "1.prems"(3) [unfolded select_round.simps [of udp tcp k ready i s]]
      "1.IH"(1) [OF _ _ _ _ step "1.prems"(2)] "1.IH"(2) [OF _ _ skip "1.prems"(2)] past
    by (auto split: if_splits program.splits prod.splits)
qed

text \<open>The descriptors the calls of \<open>accept\<close> return.\<close>

definition accepted :: "round_calls list \<Rightarrow> nat list" where
  "accepted ks = concat (map (\<lambda>k. case accept_ret k of None \<Rightarrow> [] | Some fd \<Rightarrow> [fd]) ks)"

lemma accepted_Cons: "set (accepted (k # ks)) = set_option (accept_ret k) \<union> set (accepted ks)"
    "distinct (accepted (k # ks)) \<Longrightarrow> set_option (accept_ret k) \<inter> set (accepted ks) = {} \<and> distinct (accepted ks)"
  by (auto simp: accepted_def split: option.splits)

lemma server_loop_tracked:
  assumes "tracked A s" "distinct (accepted ks)" "set (accepted ks) \<inter> A = {}" "snd (server_loop udp tcp ks s) = Going s'"
  shows "tracked (A \<union> set (accepted ks)) s'"
  using assms
proof (induction ks arbitrary: A s)
  case (Cons k ks)
  obtain effs s1 where s1: "server_round udp tcp k s = (effs, Going s1)" "snd (server_loop udp tcp ks s1) = Going s'"
    using Cons.prems(4) by (auto split: prod.splits program.splits)
  have "tracked (A \<union> set_option (accept_ret k)) s1"
  proof (rule select_round_tracked)
    show "tracked (if 0 \<le> tcp then A else A \<union> set_option (accept_ret k)) s" using Cons.prems(1) by simp
    show "set_option (accept_ret k) \<inter> A = {}" using Cons.prems(3) by (auto simp: accepted_Cons)
    show "snd (select_round udp tcp k (selected k s) 0 s) = Going s1"
      using s1(1) by (auto simp: server_round_def split: if_splits)
  qed
  from Cons.IH [OF this _ _ s1(2)] Cons.prems(2,3) accepted_Cons(2) [of k ks] show ?case
    by (auto simp: accepted_Cons(1) Un_assoc)
qed (simp add: accepted_def)

end
