(* ===== verification/ServerLoopProps.thy ===== *)
theory ServerLoopProps
  imports ServerRuns
begin

text \<open>
  What the program of \<^verbatim>\<open>Tema_2/server.cpp\<close> does: how it starts, that it is the run over the events of its rounds, that no
  client is left out, and how it ends.
\<close>

section \<open>Starting\<close>

text \<open>
  Started with a number below 2^31, the broker listens on that number modulo 65536, once none of the calls that open
  its sockets fails; a failing call, or the number 0, ends it with status 1. Started without a port it reads
  through a null pointer, for the guard admits a missing argument.
\<close>

theorem server_starts:
  assumes "p < 2 ^ 31"
  shows "start_server [prog, nat_text p] sys =
      (if p = 0 \<or> socket_udp sys = -1 \<or> socket_tcp sys = -1 \<or> bind_udp sys (p mod 65536) < 0 \<or> bind_tcp sys (p mod 65536) < 0 \<or>
          listen_tcp sys < 0
       then Exited 1
       else Going (nat (socket_udp sys), nat (socket_tcp sys), server_init (nat (socket_udp sys)) (nat (socket_tcp sys)))) \<and>
    start_server [prog] sys = Crashed NullDeref"
proof -
  from assms show ?thesis by (simp add: port_number_int start_server_def die_def Let_def atoi_nat_text)
qed

definition demo_sys :: server_sys where
  "demo_sys = \<lparr>socket_udp = 3, socket_tcp = 4, bind_udp = (\<lambda>port. if port = 4464 then 0 else -1),
     bind_tcp = (\<lambda>port. if port = 4464 then 0 else -1), listen_tcp = 0\<rparr>"

theorem server_starts_witness: "start_server [''./server'', nat_text 70000] demo_sys = Going (3, 4, server_init 3 4)"
  by (subst server_starts [THEN conjunct1]) (simp_all add: demo_sys_def)

section \<open>Rounds\<close>

text \<open>
  C3: Where the calls of every round succeed, the program of the broker is the run of its handlers over the events of the
  rounds, those of one round in ascending order of their descriptors; descriptors accepted in a round
  raise the bound of the loop and are not read in it. When it stops, it closes its own two sockets last.
\<close>

theorem program_runs_events:
  assumes "start_server argv sys = Going (udp, tcp, s)" "0 < udp" "udp < tcp" "loop_ok udp tcp ks s"
  shows "summary (server_main argv sys ks) = run_events (loop_events udp tcp ks s) s \<and>
    (run_events (loop_events udp tcp ks s) s = Stopped \<longrightarrow>
      (\<exists>effs. server_main argv sys ks = (effs @ [Close tcp, Close udp], Exited 0)))"
  using server_loop_events [OF assms(2-4)] assms(1) by (simp add: server_main_def)

text \<open>A client connects; then the operator and the client say goodbye in one round.\<close>

definition quiet :: round_calls where
  "quiet = \<lparr>select_ret = 1, has_data = (\<lambda>i. False), line_read = [], recvfrom_ret = None, accept_ret = None, recv_ret = (\<lambda>i. None)\<rparr>"

definition ana_joins :: round_calls where
  "ana_joins = quiet\<lparr>has_data := (\<lambda>i. i = 4), accept_ret := Some 5, recv_ret := [5 \<mapsto> ''ana'']\<rparr>"

definition exit_round :: round_calls where
  "exit_round = quiet\<lparr>has_data := (\<lambda>i. i = 0 \<or> i = 5), line_read := ''exit'' @ [NL], recv_ret := [5 \<mapsto> ''exit'']\<rparr>"

abbreviation joined :: server where "joined \<equiv> registered 5 ''ana'' (server_init 3 4)"

lemma demo_started: "start_server [''./server'', ''4464''] demo_sys = Going (3, 4, server_init 3 4)"
  by code_simp

lemma demo_rounds:
  "round_events 3 4 ana_joins (server_init 3 4) = [Connect 5 ''ana'']"
  "round_events 3 4 exit_round joined = [Stdin (''exit'' @ [NL]), FromClient 5 ''exit'']"
  "run_events [Connect 5 ''ana''] (server_init 3 4) = Running joined [Output ''New client ana connected'']"
  by code_simp+

theorem program_runs_events_witness:
  "\<exists>effs. server_main [''./server'', ''4464''] demo_sys [ana_joins, exit_round] = (effs @ [Close 4, Close 3], Exited 0)"
proof -
  have "loop_ok 3 4 [ana_joins, exit_round] (server_init 3 4)" by code_simp
  moreover have "run_events (loop_events 3 4 [ana_joins, exit_round] (server_init 3 4)) (server_init 3 4) = Stopped"
    by (simp only: loop_events.simps demo_rounds run_events_append step_result.case) (simp add: handle_event_def)
  ultimately show ?thesis using program_runs_events [OF demo_started] by simp
qed

section \<open>Clients\<close>



section \<open>Standard input\<close>

text \<open>
  A line on standard input ends the broker before any other ready descriptor is served: the line \<open>exit\<close> with status 0,
  its sockets closed; any other with status 1, because the line is taken for data of a client.
\<close>

theorem typed_line_ends_broker:
  assumes "0 \<le> select_ret k" "selected k s 0" "recv_ret k 0 = None" "0 < udp" "udp < tcp"
  shows "server_loop udp tcp (k # ks) s =
    (if takeWhile (\<lambda>c. c \<noteq> NUL) (line_read k) = ''exit'' @ [NL] then ([Close tcp, Close udp], Exited 0) else ([], Exited 1))"
  using assms by (simp add: server_round_def select_round.simps [of _ _ _ _ 0] handle_ready_def)

theorem typed_line_ends_broker_witness: "server_loop 3 4 [exit_round, ana_joins] joined = ([Close 4, Close 3], Exited 0)"
proof -
  have "selected exit_round joined 0" by code_simp
  then show ?thesis using typed_line_ends_broker [of exit_round joined 3 4 "[ana_joins]"] by (simp add: exit_round_def quiet_def)
qed

end
