(* ===== verification/Subscriber.thy ===== *)
theory Subscriber
  imports Server
begin

text \<open>
  The client of \<^verbatim>\<open>Tema_2/subscriber.cpp\<close>: the text of a message by its type, and the loop that sends what is
  typed and prints what arrives. Floating point numbers are the rationals they stand for, with the rounding
  of each operation written out; \<open>pow (10, p)\<close> is a parameter.
\<close>

section \<open>Numbers\<close>

text \<open>An unsigned number in network order, as \<open>ntohs\<close> and \<open>ntohl\<close> give it.\<close>

definition be_value :: "string \<Rightarrow> nat" where
  "be_value s = foldl (\<lambda>v c. 256 * v + uchar c) 0 s"

text \<open>The integer nearest to \<open>a / b\<close>, the even one of two.\<close>

definition round_even :: "nat \<Rightarrow> nat \<Rightarrow> nat" where
  "round_even a b =
     (let q = a div b; r = a mod b
      in if 2 * r < b then q else if b < 2 * r then Suc q else if even q then q else Suc q)"

text \<open>
  A quotient rounded to a significand of \<open>p\<close> bits, as the significand and the number of binary places: for quotients
  below \<open>2 ^ p\<close> and far from the least normal number, as all here are.
\<close>

function binary_places :: "nat \<Rightarrow> nat \<Rightarrow> nat \<Rightarrow> nat" where
  "binary_places p a b = (if a = 0 \<or> b * 2 ^ (p - 1) \<le> a then 0 else Suc (binary_places p (2 * a) b))"
  by auto
termination by (relation "measure (\<lambda>(p, a, b). b * 2 ^ (p - 1) - a)") auto

declare binary_places.simps [simp del]

definition float_div :: "nat \<Rightarrow> nat \<Rightarrow> nat \<Rightarrow> nat \<times> nat" where
  "float_div p a b = (let k = binary_places p a b in (round_even (a * 2 ^ k) b, k))"

section \<open>Formats\<close>

definition two_digits :: "nat \<Rightarrow> string" where
  "two_digits n = (if n < 10 then ''0'' else []) @ nat_text n"

text \<open>\<open>"%.2f"\<close> and \<open>"%.8g"\<close> of \<open>a / b\<close>.\<close>

definition fixed2_text :: "nat \<Rightarrow> nat \<Rightarrow> string" where
  "fixed2_text a b = (let v = round_even (100 * a) b in nat_text (v div 100) @ ''.'' @ two_digits (v mod 100))"

function exponent_up :: "nat \<Rightarrow> nat \<Rightarrow> nat" where
  "exponent_up a b = (if b = 0 \<or> a < 10 * b then 0 else Suc (exponent_up a (10 * b)))"
  by auto
termination by (relation "measure (\<lambda>(a, b). a - b)") auto

function exponent_down :: "nat \<Rightarrow> nat \<Rightarrow> nat" where
  "exponent_down a b = (if a = 0 \<or> b \<le> a then 0 else Suc (exponent_down (10 * a) b))"
  by auto
termination by (relation "measure (\<lambda>(a, b). b - a)") auto

declare exponent_up.simps [simp del] exponent_down.simps [simp del]

text \<open>Eight significant digits and the decimal exponent of the first.\<close>

definition significant8 :: "nat \<Rightarrow> nat \<Rightarrow> nat \<times> int" where
  "significant8 a b =
     (let (d, x) =
        (if b \<le> a then
           let j = exponent_up a b
           in (if j \<le> 7 then round_even (a * 10 ^ (7 - j)) b else round_even a (b * 10 ^ (j - 7)), int j)
         else let j = exponent_down a b in (round_even (a * 10 ^ (7 + j)) b, - int j))
      in if d = 10 ^ 8 then (10 ^ 7, x + 1) else (d, x))"

definition trim_fraction :: "string \<Rightarrow> string \<Rightarrow> string" where
  "trim_fraction whole frac =
     (let f = rev (dropWhile (\<lambda>c. c = CHR ''0'') (rev frac)) in if f = [] then whole else whole @ ''.'' @ f)"

definition general8_text :: "nat \<Rightarrow> nat \<Rightarrow> string" where
  "general8_text a b =
     (if a = 0 then ''0''
      else let (d, x) = significant8 a b; ds = nat_text d
        in if x < -4 \<or> 8 \<le> x then trim_fraction (take 1 ds) (drop 1 ds) @ ''e'' @ (if x < 0 then ''-'' else ''+'') @ two_digits (nat \<bar>x\<bar>)
           else if 0 \<le> x then trim_fraction (take (nat x + 1) ds) (drop (nat x + 1) ds)
           else trim_fraction ''0'' (replicate (nat (- x) - 1) (CHR ''0'') @ ds))"

section \<open>Decoding a message\<close>

definition sign_text :: "string \<Rightarrow> string" where
  "sign_text data = (if char_at data 0 = CHR 0x01 then ''-'' else [])"

definition decode :: "(nat \<Rightarrow> nat) \<Rightarrow> udp_msg \<Rightarrow> string c_result" where
  "decode pow10 m =
     (let data = udata m
      in if utype m = CHR 0x00 then Inr (sign_text data @ nat_text (be_value (take 4 (drop 1 data))))
         else if utype m = CHR 0x01 then
           (let (s, k) = float_div 24 (be_value (take 2 data)) 100 in Inr (fixed2_text s (2 ^ k)))
         else if utype m = CHR 0x02 then
           (let (s, k) = float_div 53 (be_value (take 4 (drop 1 data))) (pow10 (uchar (char_at data 5)))
            in Inr (sign_text data @ general8_text s (2 ^ k)))
         else c_text data)"

definition type_name :: "char \<Rightarrow> string" where
  "type_name c =
     (if c = CHR 0x00 then ''INT'' else if c = CHR 0x01 then ''SHORT_REAL'' else if c = CHR 0x02 then ''FLOAT'' else ''STRING'')"

text \<open>
  A message as it is received, of packed structures: the address, the port as a little-endian number, the
  topic, the type and the data. The structure is cleared first, so that what a short message lacks is zero.
\<close>

definition TCP_MSG_LEN :: nat where "TCP_MSG_LEN = 1569"

definition msg_rcvd :: "string \<Rightarrow> string" where
  "msg_rcvd bytes = take TCP_MSG_LEN bytes @ replicate (TCP_MSG_LEN - length bytes) NUL"

definition port_at :: "string \<Rightarrow> nat" where
  "port_at b = uchar (char_at b 16) + 256 * uchar (char_at b 17)"

definition received_udp :: "string \<Rightarrow> udp_msg" where
  "received_udp b = \<lparr>utopic = take 50 (drop 18 b), utype = char_at b 68, udata = drop 69 b\<rparr>"

text \<open>The line printed: address and topic are read to the first terminator from their place in the structure.\<close>

definition message_line :: "(nat \<Rightarrow> nat) \<Rightarrow> string \<Rightarrow> string c_result" where
  "message_line pow10 b =
     c_bind (decode pow10 (received_udp b)) (\<lambda>str.
     c_bind (c_text b) (\<lambda>ip.
     c_bind (c_text (drop 18 b)) (\<lambda>topic.
       Inr (ip @ '':'' @ nat_text (port_at b) @ '' - '' @ topic @ '' - '' @ type_name (char_at b 68) @
         '' - '' @ str @ [NL]))))"

section \<open>The loop\<close>

text \<open>
  A round reads a line, with nothing at the end of the input, or what one call of \<open>recv\<close> gives, with nothing
  where the connection was closed. What is sent is the whole buffer.
\<close>

datatype sub_event = Typed string | Received string

datatype sub_result = Listening "string list" string | Left "string list" | Broken "string list" c_error

definition hello :: "string \<Rightarrow> string c_result" where
  "hello id_client = (if length id_client \<ge> SERVER_BUFLEN then Inl OutOfBounds else Inr (filled id_client))"

definition handle_sub_event :: "(nat \<Rightarrow> nat) \<Rightarrow> sub_event \<Rightarrow> sub_result" where
  "handle_sub_event pow10 ev =
     (case ev of
        Typed input \<Rightarrow>
          let line = take (SERVER_BUFLEN - 2) input; str = takeWhile (\<lambda>c. c \<noteq> NUL) line
          in if str = ''exit'' @ [NL] then Left [filled line]
             else (case strtok '' '' str of None \<Rightarrow> Broken [filled line] NullDeref
                   | Some (token, _) \<Rightarrow> Listening [filled line]
                       (if token = ''subscribe'' then ''Subscribed to topic.\<newline>'' else ''Unsubscribed from topic.\<newline>''))
      | Received bytes \<Rightarrow>
          if bytes = [] then Left []
          else (case message_line pow10 (msg_rcvd bytes) of Inl e \<Rightarrow> Broken [] e | Inr s \<Rightarrow> Listening [] s))"

end
