(* ===== verification/SubscriberLoop.thy ===== *)
theory SubscriberLoop
  imports Subscriber ServerLoop Inet
begin

text \<open>
  \<^verbatim>\<open>main\<close> of \<^verbatim>\<open>Tema_2/subscriber.cpp\<close> around \<open>handle_sub_event\<close>: the arguments, the connection to the broker and the
  identity sent on it, and the rounds of \<open>select\<close>.
\<close>

section \<open>Connecting\<close>

text \<open>What \<open>socket\<close>, \<open>connect\<close> to an address and a port, and the first \<open>send\<close> return.\<close>

record sub_sys =
  sub_socket :: int
  sub_connect :: "nat \<Rightarrow> nat \<Rightarrow> int"
  sub_hello :: int

text \<open>The socket, and the buffer sent first.\<close>

definition start_subscriber :: "string list \<Rightarrow> sub_sys \<Rightarrow> (nat \<times> string) program" where
  "start_subscriber argv k =
     die (length argv < 4)
       (case argv of
          _ # id_client # ip # port # _ \<Rightarrow>
            die (sub_socket k < 0)
              (case inet_host ip of None \<Rightarrow> Exited 1
               | Some addr \<Rightarrow>
                   die (sub_connect k addr (port_number (atoi port)) < 0)
                     (case hello id_client of Inl e \<Rightarrow> Crashed e
                      | Inr buffer \<Rightarrow> die (sub_hello k < 0) (Going (nat (sub_socket k), buffer))))
        | _ \<Rightarrow> Exited 1)"

section \<open>Rounds\<close>

text \<open>
  What \<open>select\<close> returns and which of the two descriptors it reports, what is typed, what \<open>send\<close> returns, and the
  bytes of \<open>recv\<close>, or none where it fails.
\<close>

record sub_calls =
  sub_select :: int
  stdin_ready :: bool
  socket_ready :: bool
  typed :: string
  send_ret :: int
  received :: "string option"

text \<open>The buffers sent, the text printed, and how the program goes on.\<close>

type_synonym sub_trace = "string list \<times> string \<times> unit program"

definition sub_handled :: "sub_result \<Rightarrow> sub_trace" where
  "sub_handled r = (case r of
     Listening sent out \<Rightarrow> (sent, out, Going ())
   | Left sent \<Rightarrow> (sent, [], Leaving)
   | Broken sent e \<Rightarrow> (sent, [], Crashed e))"

definition sub_round :: "(nat \<Rightarrow> nat) \<Rightarrow> sub_calls \<Rightarrow> sub_trace" where
  "sub_round pow10 k =
     (if sub_select k < 0 then ([], [], Exited 1)
      else if stdin_ready k then
        (if send_ret k < 0 then ([], [], Exited 1) else sub_handled (handle_sub_event pow10 (Typed (typed k))))
      else if socket_ready k then
        (case received k of None \<Rightarrow> ([], [], Exited 1)
         | Some bytes \<Rightarrow> sub_handled (handle_sub_event pow10 (Received bytes)))
      else ([], [], Going ()))"

fun sub_loop :: "(nat \<Rightarrow> nat) \<Rightarrow> sub_calls list \<Rightarrow> sub_trace" where
  "sub_loop pow10 [] = ([], [], Going ())"
| "sub_loop pow10 (k # ks) =
     (case sub_round pow10 k of
        (sent, out, Going _) \<Rightarrow> (case sub_loop pow10 ks of (sent', out', r) \<Rightarrow> (sent @ sent', out @ out', r))
      | (sent, out, Leaving) \<Rightarrow> (sent, out, Exited 0)
      | r \<Rightarrow> r)"

definition subscriber_main :: "(nat \<Rightarrow> nat) \<Rightarrow> string list \<Rightarrow> sub_sys \<Rightarrow> sub_calls list \<Rightarrow> sub_trace" where
  "subscriber_main pow10 argv sys ks =
     (case start_subscriber argv sys of
        Going (sockfd_tcp, buffer) \<Rightarrow> (case sub_loop pow10 ks of (sent, out, r) \<Rightarrow> (buffer # sent, out, r))
      | Leaving \<Rightarrow> ([], [], Leaving)
      | Exited n \<Rightarrow> ([], [], Exited n)
      | Crashed e \<Rightarrow> ([], [], Crashed e))"

end
