(* ===== verification/SubscriberProps.thy ===== *)
theory SubscriberProps
  imports Subscriber ServerDelivery
begin

text \<open>
  What the subscriber prints, and the broker and the subscriber together: a published message is printed by
  a connected subscriber, a typed subscription reaches the broker, and what ends both.
\<close>

section \<open>Rounding\<close>

lemma round_even_bounds:
  assumes "0 < b"
  shows "2 * a \<le> 2 * (b * round_even a b) + b" "2 * (b * round_even a b) \<le> 2 * a + b"
proof -
  define q r where "q = a div b" and "r = a mod b"
  have a: "a = b * q + r" "r < b" using assms by (simp_all add: q_def r_def)
  have "round_even a b = (if 2 * r < b then q else if b < 2 * r then Suc q else if even q then q else Suc q)"
    by (simp add: round_even_def Let_def q_def r_def)
  then have "round_even a b = q \<and> 2 * r \<le> b \<or> round_even a b = Suc q \<and> b \<le> 2 * r" by simp
  then consider "round_even a b = q" "2 * r \<le> b" | "round_even a b = Suc q" "b \<le> 2 * r" by blast
  then have "2 * a \<le> 2 * (b * round_even a b) + b \<and> 2 * (b * round_even a b) \<le> 2 * a + b"
    using a by cases simp_all
  then show "2 * a \<le> 2 * (b * round_even a b) + b" "2 * (b * round_even a b) \<le> 2 * a + b" by simp_all
qed

lemma round_even_unique:
  assumes "2 * a < 2 * (b * n) + b" "2 * (b * n) < 2 * a + b"
  shows "round_even a b = n"
proof -
  let ?r = "round_even a b"
  have b: "0 < b" using assms by (cases b) auto
  have "2 * (b * ?r) < 2 * (b * n) + 2 * b" "2 * (b * n) < 2 * (b * ?r) + 2 * b"
    using round_even_bounds [OF b, of a] assms by linarith+
  then have "b * ?r < b * Suc n" "b * n < b * Suc ?r" by simp_all
  then have "?r < Suc n" "n < Suc ?r" by (simp_all only: mult_less_cancel1)
  then show ?thesis by simp
qed

lemma binary_places_enough: "0 < a \<Longrightarrow> b * 2 ^ (p - 1) \<le> a * 2 ^ binary_places p a b"
proof (induction p a b rule: binary_places.induct)
  case (1 p a b)
  show ?case
  proof (cases "b * 2 ^ (p - 1) \<le> a")
    case True
    then show ?thesis by (simp add: binary_places.simps)
  next
    case False
    with 1 have "b * 2 ^ (p - 1) \<le> 2 * a * 2 ^ binary_places p (2 * a) b" by simp
    with False 1 show ?thesis by (subst binary_places.simps) (simp add: ac_simps)
  qed
qed

text \<open>A 16-bit number over a hundred, in single precision, prints with the digits it has.\<close>

lemma fixed2_hundredths:
  assumes "n < 65536"
  shows "(let (s, k) = float_div 24 n 100 in fixed2_text s (2 ^ k)) = nat_text (n div 100) @ ''.'' @ two_digits (n mod 100)"
proof (cases "n = 0")
  case True
  then show ?thesis by (simp add: float_div_def binary_places.simps round_even_def fixed2_text_def)
next
  case False
  define k where "k = binary_places 24 n 100"
  define s where "s = round_even (n * 2 ^ k) 100"
  have "100 * 2 ^ 23 \<le> n * 2 ^ k" using binary_places_enough [of n 100 24] False by (simp add: k_def)
  also have "... \<le> 65536 * 2 ^ k" using assms by simp
  finally have k: "100 < (2 :: nat) ^ k" by simp
  have "2 * (n * 2 ^ k) \<le> 2 * (100 * s) + 100" "2 * (100 * s) \<le> 2 * (n * 2 ^ k) + 100"
    using round_even_bounds [of 100 "n * 2 ^ k"] by (simp_all add: s_def)
  with k have "2 * (100 * s) < 2 * (2 ^ k * n) + 2 ^ k" "2 * (2 ^ k * n) < 2 * (100 * s) + 2 ^ k"
    by (simp_all only: mult.commute [of n])
  then have "round_even (100 * s) (2 ^ k) = n" by (rule round_even_unique)
  then show ?thesis by (simp add: float_div_def fixed2_text_def k_def [symmetric] s_def [symmetric])
qed

section \<open>Numbers in a message\<close>

definition be_bytes :: "nat \<Rightarrow> nat \<Rightarrow> string" where
  "be_bytes w n = map (\<lambda>i. char_of (n div 256 ^ (w - 1 - i) mod 256)) [0..<w]"

lemma be_value_bytes: "n < 256 ^ 2 \<Longrightarrow> be_value (be_bytes 2 n) = n" "n < 256 ^ 4 \<Longrightarrow> be_value (be_bytes 4 n) = n"
proof -
  assume "n < 256 ^ 2"
  then show "be_value (be_bytes 2 n) = n"
    by (simp add: be_value_def be_bytes_def upt_rec [of _ 2])
next
  assume "n < 256 ^ 4"
  moreover have "n div 256 div 256 = n div 65536" "n div 65536 div 256 = n div 16777216" by (simp_all flip: div_mult2_eq)
  then have "16777216 * (n div 16777216) + 65536 * (n div 65536 mod 256) + 256 * (n div 256 mod 256) + n mod 256 = n"
    using mult_div_mod_eq [of 256 n] mult_div_mod_eq [of 256 "n div 256"] mult_div_mod_eq [of 256 "n div 65536"] by linarith
  ultimately show "be_value (be_bytes 4 n) = n"
    by (simp add: be_value_def be_bytes_def upt_rec [of _ 4])
qed

lemma length_be_bytes [simp]: "length (be_bytes w n) = w"
  by (simp add: be_bytes_def)

text \<open>
  C31: An INT prints its sign and its value, for every 32-bit value; a SHORT_REAL prints its hundredths
  exactly, the rounding of single precision notwithstanding.
\<close>

theorem number_texts:
  assumes "n < 2 ^ 32" "h < 2 ^ 16"
  shows "decode pow10 \<lparr>utopic = t, utype = CHR 0x00, udata = g # be_bytes 4 n @ r\<rparr> =
      Inr ((if g = CHR 0x01 then ''-'' else []) @ nat_text n) \<and>
    decode pow10 \<lparr>utopic = t, utype = CHR 0x01, udata = be_bytes 2 h @ r\<rparr> =
      Inr (nat_text (h div 100) @ ''.'' @ two_digits (h mod 100))"
  using assms be_value_bytes [of n] be_value_bytes [of h] fixed2_hundredths [of h]
  by (simp add: decode_def sign_text_def case_prod_beta)

theorem number_texts_witness:
  "decode (\<lambda>p. 10 ^ p) \<lparr>utopic = ''t'', utype = CHR 0x01, udata = be_bytes 2 2005 @ replicate 1498 NUL\<rparr> = Inr ''20.05''"
proof -
  have "nat_text 20 @ ''.'' @ two_digits 5 = ''20.05''" by code_simp
  with number_texts [of 0 2005 "\<lambda>p. 10 ^ p" "''t''" NUL "replicate 1498 NUL"] show ?thesis by simp
qed

section \<open>The broker and the subscriber\<close>

text \<open>A datagram: the topic padded to its array, the type, the data.\<close>

definition datagram_bytes :: "string \<Rightarrow> char \<Rightarrow> string \<Rightarrow> string" where
  "datagram_bytes t ty payload = t @ replicate (50 - length t) NUL @ ty # payload"

lemma takeWhile_text: "NUL \<notin> set t \<Longrightarrow> takeWhile (\<lambda>c. c \<noteq> NUL) (t @ NUL # x) = t"
  by (induction t) auto

lemma datagram_bytes_text:
  assumes "NUL \<notin> set t" "length t < 50" "length payload \<le> 1500"
  shows "c_text (filled (datagram_bytes t ty payload)) = Inr t"
    "c_text (take 50 (filled (datagram_bytes t ty payload)) @ r) = Inr t"
    "utype (udp_msg_at (filled (datagram_bytes t ty payload))) = ty"
    "udata (udp_msg_at (filled (datagram_bytes t ty payload))) = payload @ replicate (1500 - length payload) NUL"
    "utopic (udp_msg_at (filled (datagram_bytes t ty payload))) = take 50 (filled (datagram_bytes t ty payload))"
proof -
  have f: "filled (datagram_bytes t ty payload) =
      t @ replicate (50 - length t) NUL @ ty # payload @ replicate (1549 - length payload) NUL"
    using assms by (simp add: filled_short datagram_bytes_def SERVER_BUFLEN_def)
  have r: "replicate (50 - length t) NUL = NUL # replicate (49 - length t) NUL"
    using assms(2) by (simp add: Suc_diff_le flip: replicate_Suc)
  have front: "c_text (t @ NUL # x) = Inr t" for x
    using takeWhile_text [OF assms(1)] by (simp add: c_text_def)
  have "take 50 (t @ replicate (50 - length t) NUL @ x) = t @ replicate (50 - length t) NUL"
    "drop 50 (t @ replicate (50 - length t) NUL @ x) = x" for x
    using assms(2) by simp_all
  note parts = this
  show "c_text (filled (datagram_bytes t ty payload)) = Inr t" "c_text (take 50 (filled (datagram_bytes t ty payload)) @ r) = Inr t"
    by (simp_all only: f parts) (simp_all only: r append_assoc append_Cons front)
  have d: "drop 51 xs = drop 1 (drop 50 xs)" for xs :: string by simp
  show "utype (udp_msg_at (filled (datagram_bytes t ty payload))) = ty"
    by (simp only: f udp_msg_at_def udp_msg.simps char_at_def parts peek.simps)
  show "udata (udp_msg_at (filled (datagram_bytes t ty payload))) = payload @ replicate (1500 - length payload) NUL"
    using assms(3) by (simp only: f udp_msg_at_def udp_msg.simps d parts) (simp add: min_def)
qed (simp add: udp_msg_at_def)

text \<open>A message on the wire: what the broker sends of its structure.\<close>

definition tcp_bytes :: "tcp_msg_to_send \<Rightarrow> string" where
  "tcp_bytes m =
     udp_cl_ip m @ replicate (16 - length (udp_cl_ip m)) NUL @ [char_of (udp_cl_port m mod 256), char_of (udp_cl_port m div 256)] @
     utopic (msg_udp m) @ utype (msg_udp m) # udata (msg_udp m)"

definition wire_ok :: "tcp_msg_to_send \<Rightarrow> bool" where
  "wire_ok m \<longleftrightarrow> length (udp_cl_ip m) < 16 \<and> NUL \<notin> set (udp_cl_ip m) \<and> udp_cl_port m < 65536 \<and>
     length (utopic (msg_udp m)) = 50 \<and> length (udata (msg_udp m)) = 1500"

lemma c_text_front: "NUL \<notin> set t \<Longrightarrow> c_text (t @ NUL # x) = Inr t"
  by (simp add: c_text_def takeWhile_text)

lemma replicate_NUL: "length t < n \<Longrightarrow> replicate (n - length t) NUL = NUL # replicate (n - Suc (length t)) NUL"
  by (simp add: Suc_diff_Suc flip: replicate_Suc)

lemma c_text_padded: "NUL \<notin> set t \<Longrightarrow> length t < n \<Longrightarrow> c_text (t @ replicate (n - length t) NUL @ x) = Inr t"
  by (simp add: replicate_NUL c_text_front)

lemma drop_exact: "length xs = n \<Longrightarrow> drop n (xs @ ys) = ys"
  by simp

text \<open>What a message sent whole is received as.\<close>

lemma received_whole:
  assumes "wire_ok m"
  shows "msg_rcvd (tcp_bytes m) = tcp_bytes m" "c_text (tcp_bytes m) = Inr (udp_cl_ip m)" "port_at (tcp_bytes m) = udp_cl_port m"
    "drop 18 (tcp_bytes m) = utopic (msg_udp m) @ utype (msg_udp m) # udata (msg_udp m)" "char_at (tcp_bytes m) 68 = utype (msg_udp m)"
    "received_udp (tcp_bytes m) = msg_udp m" "tcp_bytes m \<noteq> []"
proof -
  let ?a = "udp_cl_ip m @ replicate (16 - length (udp_cl_ip m)) NUL"
    and ?p = "[char_of (udp_cl_port m mod 256), char_of (udp_cl_port m div 256)] :: string"
    and ?r = "utopic (msg_udp m) @ utype (msg_udp m) # udata (msg_udp m)"
  have a: "length ?a = 16" "length (?a @ ?p) = 18" using assms by (simp_all add: wire_ok_def)
  have b: "tcp_bytes m = ?a @ ?p @ ?r" "tcp_bytes m = (?a @ ?p) @ ?r" by (simp_all add: tcp_bytes_def)
  show "msg_rcvd (tcp_bytes m) = tcp_bytes m"
    using assms by (simp add: msg_rcvd_def tcp_bytes_def TCP_MSG_LEN_def wire_ok_def)
  show "c_text (tcp_bytes m) = Inr (udp_cl_ip m)"
    using assms by (simp add: tcp_bytes_def wire_ok_def c_text_padded)
  show d: "drop 18 (tcp_bytes m) = ?r" unfolding b(2) by (rule drop_exact [OF a(2)])
  have "char_at (tcp_bytes m) 16 = char_of (udp_cl_port m mod 256)" "char_at (tcp_bytes m) 17 = char_of (udp_cl_port m div 256)"
    using drop_exact [OF a(1), of "?p @ ?r"] drop_exact [of "?a @ [hd ?p]" 17 "tl ?p @ ?r"] a(1)
    by (simp_all add: b(1) char_at_def)
  moreover have "udp_cl_port m div 256 < 256" using assms by (auto simp: wire_ok_def)
  ultimately show "port_at (tcp_bytes m) = udp_cl_port m" by (simp add: port_at_def)
  have "drop 68 (tcp_bytes m) = drop 50 (drop 18 (tcp_bytes m))" "drop 69 (tcp_bytes m) = drop 51 (drop 18 (tcp_bytes m))" by simp_all
  then have e: "drop 68 (tcp_bytes m) = utype (msg_udp m) # udata (msg_udp m)" "drop 69 (tcp_bytes m) = udata (msg_udp m)"
    unfolding d using assms by (simp_all add: wire_ok_def)
  show f: "char_at (tcp_bytes m) 68 = utype (msg_udp m)" by (simp add: char_at_def e)
  show "received_udp (tcp_bytes m) = msg_udp m"
    using assms by (simp add: received_udp_def d e f wire_ok_def)
  show "tcp_bytes m \<noteq> []" by (simp add: tcp_bytes_def)
qed

lemma message_line_whole:
  assumes "wire_ok m" "decode pow10 (msg_udp m) = Inr str" "c_text (utopic (msg_udp m) @ utype (msg_udp m) # udata (msg_udp m)) = Inr t"
  shows "handle_sub_event pow10 (Received (tcp_bytes m)) = Listening []
    (udp_cl_ip m @ '':'' @ nat_text (udp_cl_port m) @ '' - '' @ t @ '' - '' @ type_name (utype (msg_udp m)) @ '' - '' @ str @ [NL])"
  using assms(2,3) received_whole [OF assms(1)] by (simp add: handle_sub_event_def message_line_def)



text \<open>
  A stream has no message boundaries, and the subscriber takes one call of \<open>recv\<close> for one message: of a message
  that arrives in pieces it prints the first as if the rest of the data were zeros.
\<close>

theorem first_piece_printed:
  assumes "wire_ok m" "j \<le> 1500"
  shows "handle_sub_event pow10 (Received (take (69 + j) (tcp_bytes m))) =
    handle_sub_event pow10 (Received (tcp_bytes
      (m\<lparr>msg_udp := (msg_udp m)\<lparr>udata := take j (udata (msg_udp m)) @ replicate (1500 - j) NUL\<rparr>\<rparr>)))"
proof -
  let ?h = "udp_cl_ip m @ replicate (16 - length (udp_cl_ip m)) NUL @
    [char_of (udp_cl_port m mod 256), char_of (udp_cl_port m div 256)] @ utopic (msg_udp m) @ [utype (msg_udp m)]"
  let ?m = "m\<lparr>msg_udp := (msg_udp m)\<lparr>udata := take j (udata (msg_udp m)) @ replicate (1500 - j) NUL\<rparr>\<rparr>"
  have h: "length ?h = 69" "length (udata (msg_udp m)) = 1500" using assms(1) by (simp_all add: wire_ok_def)
  have "tcp_bytes m = ?h @ udata (msg_udp m)" "tcp_bytes ?m = ?h @ take j (udata (msg_udp m)) @ replicate (1500 - j) NUL"
    by (simp_all add: tcp_bytes_def)
  moreover from this(1) have "take (69 + j) (tcp_bytes m) = ?h @ take j (udata (msg_udp m))"
    using h(1) by (simp only: take_append) simp
  ultimately have "msg_rcvd (take (69 + j) (tcp_bytes m)) = tcp_bytes ?m" "take (69 + j) (tcp_bytes m) \<noteq> []"
    using h assms(2) by (simp_all only: msg_rcvd_def TCP_MSG_LEN_def) simp_all
  moreover have "wire_ok ?m" using assms h(2) by (simp add: wire_ok_def)
  from received_whole(1,7) [OF this] have "msg_rcvd (tcp_bytes ?m) = tcp_bytes ?m" "tcp_bytes ?m \<noteq> []" by simp_all
  ultimately show ?thesis by (simp add: handle_sub_event_def)
qed

theorem first_piece_printed_witness:
  "\<exists>m. decode (\<lambda>p. 10 ^ p) (msg_udp m) = Inr ''1500'' \<and> 
    handle_sub_event (\<lambda>p. 10 ^ p) (Received (take (69 + 0) (tcp_bytes m))) = Listening [] ''10.0.0.9:77 - news - INT - 0\<newline>''"
proof -
  let ?u = "\<lparr>utopic = ''news'' @ replicate 46 NUL, utype = CHR 0x00, udata = (CHR 0x00 # be_bytes 4 1500) @ replicate 1495 NUL\<rparr>"
  let ?m = "\<lparr>udp_cl_ip = ''10.0.0.9'', udp_cl_port = 77, msg_udp = ?u\<rparr>"
  let ?z = "?m\<lparr>msg_udp := ?u\<lparr>udata := replicate 1500 NUL\<rparr>\<rparr>"
  have digit: "char_of (49 :: nat) = CHR ''1''" "char_of (53 :: nat) = CHR ''5''" "char_of (48 :: nat) = CHR ''0''"
    "char_of (55 :: nat) = CHR ''7''" by code_simp+
  have "decode (\<lambda>p. 10 ^ p) ?u = Inr ''1500''"
    using be_value_bytes(2) [of 1500] digit by (simp add: decode_def sign_text_def nat_text.simps)
  moreover have ok: "wire_ok ?m" "wire_ok ?z" by (simp_all add: wire_ok_def)
  have "be_value (take 4 (drop 1 (replicate 1500 NUL))) = 0" by (simp add: be_value_def numeral_eq_Suc)
  then have "decode (\<lambda>p. 10 ^ p) (msg_udp ?z) = Inr ''0''"
    using digit by (simp add: decode_def sign_text_def char_at_nth nat_text.simps)
  from message_line_whole [OF ok(2) this, of "''news''"]
  have "handle_sub_event (\<lambda>p. 10 ^ p) (Received (tcp_bytes ?z)) = Listening [] ''10.0.0.9:77 - news - INT - 0\<newline>''"
    using c_text_padded [of "''news''" 50] digit by (simp add: type_name_def nat_text.simps)
  with first_piece_printed [OF ok(1), of 0 "\<lambda>p. 10 ^ p"]
  have "handle_sub_event (\<lambda>p. 10 ^ p) (Received (take (69 + 0) (tcp_bytes ?m))) = Listening [] ''10.0.0.9:77 - news - INT - 0\<newline>''"
    by simp
  ultimately show ?thesis by (intro exI [of _ ?m]) simp
qed

section \<open>What is typed\<close>

lemma length_filled [simp]: "length (filled b) = SERVER_BUFLEN"
  by (simp add: filled_def)

lemma filled_idem [simp]: "filled (filled b) = filled b"
  by (simp add: filled_def)

lemma handle_client_filled: "handle_event (FromClient i (filled b)) s = handle_event (FromClient i b) s"
  by (simp add: handle_event_def handle_data_def)

text \<open>
  Typing a subscription or its end sends the broker one message with which it does what it does with the
  line itself; the subscriber reports success at once, also for the end of a subscription, which the broker ignores.
\<close>

theorem typed_line_reaches_broker:
  assumes "t \<noteq> []" "set t \<inter> {CHR '' '', NUL, NL} = {}" "length t < 50" "f \<notin> {CHR '' '', NUL}"
  shows "(\<exists>b. handle_sub_event pow10 (Typed (subscribe_line t f)) = Listening [b] ''Subscribed to topic.\<newline>'' \<and>
      length b = SERVER_BUFLEN \<and> (\<forall>i s. handle_event (FromClient i b) s = handle_event (FromClient i (subscribe_line t f)) s)) \<and>
    (\<exists>b. handle_sub_event pow10 (Typed (unsubscribe_line t)) = Listening [b] ''Unsubscribed from topic.\<newline>'' \<and>
      (\<forall>i s. \<exists>s'. handle_event (FromClient i b) s = Running s' [] \<and> map_of (topics_subs s') t = map_of (topics_subs s) t))"
proof (intro conjI)
  have "NUL \<notin> set (subscribe_line t f)" "NUL \<notin> set (unsubscribe_line t)" using assms by (auto simp: subscribe_line_def unsubscribe_line_def)
  then have w: "takeWhile (\<lambda>c. c \<noteq> NUL) (subscribe_line t f) = subscribe_line t f"
    "takeWhile (\<lambda>c. c \<noteq> NUL) (unsubscribe_line t) = unsubscribe_line t"
    by (simp_all add: takeWhile_eq_all_conv) metis+
  have l: "length (subscribe_line t f) < 1000" "length (unsubscribe_line t) < 1000"
    using assms(3) by (simp_all add: subscribe_line_def unsubscribe_line_def)
  have x: "subscribe_line t f \<noteq> ''exit'' @ [NL]" "unsubscribe_line t \<noteq> ''exit'' @ [NL]"
    by (simp_all add: subscribe_line_def unsubscribe_line_def)
  show "\<exists>b. handle_sub_event pow10 (Typed (subscribe_line t f)) = Listening [b] ''Subscribed to topic.\<newline>'' \<and>
      length b = SERVER_BUFLEN \<and> (\<forall>i s. handle_event (FromClient i b) s = handle_event (FromClient i (subscribe_line t f)) s)"
    using l x tokens_subscribe [of t f] assms
    by (intro exI [of _ "filled (subscribe_line t f)"])
      (simp add: handle_sub_event_def handle_client_filled SERVER_BUFLEN_def Let_def w)
  have "handle_sub_event pow10 (Typed (unsubscribe_line t)) = Listening [filled (unsubscribe_line t)] ''Unsubscribed from topic.\<newline>''"
    using l x tokens_unsubscribe [of t] assms
    by (simp add: handle_sub_event_def SERVER_BUFLEN_def Let_def w)
  moreover have "\<exists>s'. handle_event (FromClient i (filled (unsubscribe_line t))) s = Running s' [] \<and>
      map_of (topics_subs s') t = map_of (topics_subs s) t" for i s
    using unsubscribe_line_ignored [of t i s] assms by (auto simp: handle_client_filled)
  ultimately show "\<exists>b. handle_sub_event pow10 (Typed (unsubscribe_line t)) = Listening [b] ''Unsubscribed from topic.\<newline>'' \<and>
      (\<forall>i s. \<exists>s'. handle_event (FromClient i b) s = Running s' [] \<and> map_of (topics_subs s') t = map_of (topics_subs s) t)"
    by blast
qed

theorem typed_line_reaches_broker_witness:
  "\<exists>b. handle_sub_event (\<lambda>p. 10 ^ p) (Typed (subscribe_line ''news'' (CHR ''1''))) = Listening [b] ''Subscribed to topic.\<newline>'' \<and>
    handle_event (FromClient 5 b) ana_connected = Running ana_subscribed []"
  using typed_line_reaches_broker [of "''news''" "CHR ''1''" "\<lambda>p. 10 ^ p"] ana_steps(2) by auto

text \<open>
  An empty line, or the end of the input, makes the subscriber send a message on which the broker reads
  through a null pointer, whatever the broker's state: any subscriber ends the broker by pressing return. At the
  end of the input it fails itself.
\<close>

theorem empty_line_ends_broker:
  "(\<exists>b. handle_sub_event pow10 (Typed [NL]) = Listening [b] ''Unsubscribed from topic.\<newline>'' \<and>
     handle_event (FromClient i b) s = Fault NullDeref) \<and>
   (\<exists>b. handle_sub_event pow10 (Typed []) = Broken [b] NullDeref \<and> handle_event (FromClient i b) s = Fault NullDeref)"
proof -
  have t: "strtok '' '' [NL] = Some ([NL], [])" "strtok '' '' [] = None" by (simp_all add: strtok_def)
  have c: "c_text (filled [NL]) = Inr [NL]" "c_text (filled []) = Inr []" by (simp_all add: SERVER_BUFLEN_def)
  have e: "\<not> starts_with ''exit'' (filled [NL])" "\<not> starts_with ''exit'' (filled [])"
    by (simp_all add: filled_short starts_with_def SERVER_BUFLEN_def)
  have "handle_event (FromClient i (filled [NL])) s = Fault NullDeref" "handle_event (FromClient i (filled [])) s = Fault NullDeref"
    using e by (simp_all add: handle_event_def handle_data_def handle_command_def c t)
  then show ?thesis by (simp add: handle_sub_event_def SERVER_BUFLEN_def t Let_def)
qed

end
