(* ===== verification/SubscriberLoopProps.thy ===== *)
theory SubscriberLoopProps
  imports SubscriberLoop SubscriberProps ServerRuns
begin

text \<open>
  The subscriber's program, and the two programs of \<^verbatim>\<open>Tema_2\<close> together: how an identity given on the command line reaches
  the table of the broker, and what typing does to what is received.
\<close>

section \<open>Joining\<close>

lemma start_subscriber_at:
  assumes "a \<le> 255" "b \<le> 255" "c \<le> 255" "d \<le> 255" "p < 2 ^ 31"
  shows "start_subscriber [prog, id_client, dotted_quad a b c d, nat_text p] sys =
    (if sub_socket sys < 0 \<or> sub_connect sys (((a * 256 + b) * 256 + c) * 256 + d) (p mod 65536) < 0 then Exited 1
     else if SERVER_BUFLEN \<le> length id_client then Crashed OutOfBounds
     else if sub_hello sys < 0 then Exited 1 else Going (nat (sub_socket sys), filled id_client))"
proof -
  show ?thesis
    using inet_host_dotted [OF assms(1-4)] atoi_nat_text [OF assms(5)]
    by (simp add: start_subscriber_def die_def hello_def port_number_int)
qed

lemma connect_hello:
  assumes "NUL \<notin> set k" "length k < SERVER_BUFLEN" "map_of (clients s) k = None"
  shows "handle_connect fd (filled k) s =
    (if length k < 10 then Inr (registered fd k s, [Output (''New client '' @ k @ '' connected'')]) else Inl OutOfBounds)"
  using assms by (simp add: handle_connect_def registered_def c_text_filled)

lemma filter_one: "filter (\<lambda>i. i = j) [0..<n] = (if j < n then [j] else [])"
  by (induction n) auto

text \<open>
  C17: A subscriber started with an identity, the address and the port of the broker connects to that address and port and
  sends the identity. When the broker accepts it, an identity that is not in its table is entered with
  the new descriptor if it has at most nine characters; a longer one, which the subscriber sends without complaint,
  overflows an array of the broker.
\<close>

theorem subscriber_joins:
  assumes "a \<le> 255" "b \<le> 255" "c \<le> 255" "d \<le> 255" "p < 2 ^ 31" "0 \<le> sub_socket sys" "0 \<le> sub_hello sys"
    and "0 \<le> sub_connect sys (((a * 256 + b) * 256 + c) * 256 + d) (p mod 65536)"
    and "length id_client < SERVER_BUFLEN" "NUL \<notin> set id_client"
    and "0 < udp" "udp < tcp" "0 \<le> select_ret k" "\<And>i. selected k s i \<longleftrightarrow> i = tcp" "accept_ret k = Some fd"
    and "map_of (clients s) id_client = None"
  shows "\<exists>sock buffer. start_subscriber [prog, id_client, dotted_quad a b c d, nat_text p] sys = Going (sock, buffer) \<and>
    summary (server_round udp tcp (k\<lparr>recv_ret := [fd \<mapsto> buffer]\<rparr>) s) =
      (if length id_client < 10
       then Running (registered fd id_client s) [Output (''New client '' @ id_client @ '' connected'')]
       else Fault OutOfBounds)"
proof -
  let ?k = "k\<lparr>recv_ret := [fd \<mapsto> filled id_client]\<rparr>"
  have sel: "selected ?k s = (\<lambda>i. i = tcp)" using assms(14) by (auto simp: fun_eq_iff selected_def)
  have "tcp \<le> maxfd s" using assms(14) [of tcp] by (simp add: selected_def)
  then have f: "filter (\<lambda>i. i = tcp) [0..<Suc (maxfd s)] = [tcp]" by (simp add: filter_one del: upt_Suc)
  have ok: "calls_ok udp tcp ?k s"
    using assms(11-13,15) unfolding calls_ok_def sel f by (simp add: call_ok_def)
  have e: "round_events udp tcp ?k s = [Connect fd (filled id_client)]"
    using assms(11,12,15) unfolding round_events_def sel f by (simp add: event_at_def)
  have "summary (server_round udp tcp ?k s) = (if length id_client < 10
      then Running (registered fd id_client s) [Output (''New client '' @ id_client @ '' connected'')] else Fault OutOfBounds)"
    using server_round_events [OF ok assms(11,12)] connect_hello [OF assms(10,9,16), of fd]
    by (simp add: e handle_event_def)
  moreover have "start_subscriber [prog, id_client, dotted_quad a b c d, nat_text p] sys = Going (nat (sub_socket sys), filled id_client)"
    using start_subscriber_at [OF assms(1-5), of prog id_client sys] assms(6-9) by simp
  ultimately show ?thesis by blast
qed

definition demo_sub_sys :: sub_sys where
  "demo_sub_sys = \<lparr>sub_socket = 3, sub_connect = (\<lambda>addr port. if addr = 2130706433 \<and> port = 4464 then 0 else -1), sub_hello = 1600\<rparr>"

definition demo_accept :: round_calls where
  "demo_accept = \<lparr>select_ret = 1, has_data = (\<lambda>i. i = 4), line_read = [], recvfrom_ret = None, accept_ret = Some 5, recv_ret = (\<lambda>i. None)\<rparr>"

theorem subscriber_joins_witness:
  "\<exists>sock buffer. start_subscriber [''./subscriber'', ''a-name-that-is-too-long'', dotted_quad 127 0 0 1, nat_text 4464] demo_sub_sys =
      Going (sock, buffer) \<and>
    summary (server_round 3 4 (demo_accept\<lparr>recv_ret := [5 \<mapsto> buffer]\<rparr>) (server_init 3 4)) = Fault OutOfBounds"
proof -
  let ?id = "''a-name-that-is-too-long''"
  have id: "length ?id < SERVER_BUFLEN" "NUL \<notin> set ?id" "\<not> length ?id < 10" by (simp_all add: SERVER_BUFLEN_def)
  have sys: "0 \<le> sub_socket demo_sub_sys" "0 \<le> sub_hello demo_sub_sys"
    "0 \<le> sub_connect demo_sub_sys (((127 * 256 + 0) * 256 + 0) * 256 + 1) (4464 mod 65536)"
    by (simp_all add: demo_sub_sys_def)
  have k: "0 \<le> select_ret demo_accept" "selected demo_accept (server_init 3 4) i \<longleftrightarrow> i = 4" "accept_ret demo_accept = Some 5"
    "map_of (clients (server_init 3 4)) ?id = None" for i
    by (auto simp: demo_accept_def selected_def server_init_def)
  show ?thesis
    using subscriber_joins [OF _ _ _ _ _ sys id(1,2) _ _ k, of 3 "''./subscriber''"] id(3) by simp
qed

section \<open>Typing\<close>

text \<open>A line waits on standard input and is sent whole, whatever there is to read on the socket.\<close>

definition typing :: "string \<Rightarrow> sub_calls \<Rightarrow> bool" where
  "typing line k \<longleftrightarrow> 0 \<le> sub_select k \<and> stdin_ready k \<and> 0 \<le> send_ret k \<and> typed k = line"

lemma sub_round_typing:
  assumes "typing line k" "length line < SERVER_BUFLEN - 2" "NUL \<notin> set line"
  shows "line = ''exit'' @ [NL] \<Longrightarrow> sub_round pow10 k = ([filled line], [], Leaving)"
    and "line \<noteq> ''exit'' @ [NL] \<Longrightarrow> \<exists>c \<in> set line. c \<noteq> CHR '' '' \<Longrightarrow> \<exists>out. sub_round pow10 k = ([filled line], out, Going ())"
proof -
  have t: "takeWhile (\<lambda>c. c \<noteq> NUL) line = line" using assms(3) by (auto simp: takeWhile_eq_all_conv)
  have r: "sub_round pow10 k = sub_handled (handle_sub_event pow10 (Typed line))"
    using assms(1) by (simp add: typing_def sub_round_def)
  show "line = ''exit'' @ [NL] \<Longrightarrow> sub_round pow10 k = ([filled line], [], Leaving)"
    using assms(2) by (simp add: r handle_sub_event_def sub_handled_def SERVER_BUFLEN_def Let_def)
  assume "line \<noteq> ''exit'' @ [NL]" "\<exists>c \<in> set line. c \<noteq> CHR '' ''"
  moreover from this(2) obtain tok rest where "strtok '' '' line = Some (tok, rest)"
    by (auto simp: strtok_def Let_def dropWhile_eq_Nil_conv)
  ultimately show "\<exists>out. sub_round pow10 k = ([filled line], out, Going ())"
    using assms(2) by (simp add: r handle_sub_event_def sub_handled_def Let_def t)
qed



end
