(* ===== verification/Spec2Isabelle.thy ===== *)
theory Spec2Isabelle
  imports RouterProps RouteFileProps SkelProps SkelSocketProps JsonApiProps JsonHeapProps JsonHeapTyped JsonHeapCopyProps SessionProps
    ServerLoopProps SubscriberLoopProps
begin

text \<open>
  Verification of three protocol programs: the IP router of \<^verbatim>\<open>Tema_1\<close>, the message broker and its
  subscriber of \<^verbatim>\<open>Tema_2\<close>, and the HTTP client of \<^verbatim>\<open>Tema_3\<close> with its JSON library. They share no state; in
  \<^verbatim>\<open>Tema_2\<close> the subscriber and the broker exchange messages, in \<^verbatim>\<open>Tema_3\<close> the client builds its bodies
  with the library.

  \<^bold>\<open>Shared.\<close> \<open>Prelude\<close>: the errors an operation of C can end in (\<open>c_error\<close>) and the result type that carries them.
  \<open>CMem\<close>: an explicit heap, byte buffers, reads and writes of little-endian fields. \<open>CString\<close>: C strings and what the
  programs call of \<^verbatim>\<open>string.h\<close> and \<^verbatim>\<open>ctype.h\<close>. \<open>StdMap\<close>: \<^verbatim>\<open>std::map\<close> as a list of pairs in key order, with
  the contract \<open>ordered_map\<close>. \<open>Inet\<close>: the text of addresses, and ports. What a program ends with is a \<open>program\<close> (\<open>Prelude\<close>).

  \<^bold>\<open>The router.\<close> \<open>PacketQueue\<close> is \<^verbatim>\<open>list.c\<close> and \<^verbatim>\<open>queue.c\<close> on the heap, refining a FIFO. \<open>Checksum\<close> and \<open>Skel\<close> are
  \<^verbatim>\<open>skel.c\<close>: both checksums over 64-bit words, the headers as records with their bytes, packet building and
  parsing, reception and transmission. \<open>RouteFile\<close>, \<open>RouteTable\<close> and \<open>Router\<close> are \<^verbatim>\<open>router.c\<close>: the reading of the table, the sorted table and its binary
  search, the ARP table of ten entries, every branch of the loop (\<open>handle_packet\<close>), a run over received
  frames (\<open>router_run\<close>). \<open>RouterProps\<close> says what leaves for each kind of packet, that nothing fails while ten frames
  arrive, and what breaks: the queue keeps a pointer to a dead variable, the ARP table overflows, the
  next hop is not looked up. \<open>SkelProps\<close>: checksum, queue, and the search, which is
  complete for one mask length only. \<open>RouteFileProps\<close>: the table is read as it is written. \<open>SkelSockets\<close> opens the
  interfaces and asks for their addresses; \<open>SkelSocketProps\<close>: the router starts as its loop assumes, with exactly three interfaces.

  \<^bold>\<open>The broker and the subscriber.\<close> \<open>Server\<close> is \<^verbatim>\<open>server.cpp\<close>: the record \<open>server\<close> holds the maps \<open>topics_subs\<close>,
  \<open>clients\<close>, \<open>msg_holder\<close> and the read set; \<open>handle_event\<close> is one round of the inner loop on one ready descriptor.
  \<open>ServerLoop\<close> is \<^verbatim>\<open>main\<close> around it: the set-up, the rounds of \<^verbatim>\<open>select\<close> and the loop over the descriptors up to the highest.
  \<open>ServerInv\<close> has the step relation, the reachable states and their well-formedness, \<open>ServerProps\<close> the agreement of the
  copies of a client under the topics with the table, \<open>ServerDelivery\<close> publishing, store and forward,
  subscriptions, and the inputs that are not guarded. \<open>Subscriber\<close> is \<^verbatim>\<open>subscriber.cpp\<close>: decoding with the
  rounding of the floating point operations written out, and what a round does; \<open>SubscriberLoop\<close> connects and goes through the rounds.
  \<open>SubscriberProps\<close> and \<open>SubscriberLoopProps\<close> compose it with the broker. \<open>ServerRuns\<close> and \<open>ServerLoopProps\<close>: the program refines the runs of the handlers, and no
  client is left out.

  \<^bold>\<open>The JSON library.\<close> \<open>Utf8\<close>, \<open>JsonText\<close>, \<open>Json\<close> are the parser and the serializer of \<^verbatim>\<open>parson.c\<close>, \<open>JsonComments\<close>
  the treatment of comments, \<open>JsonObject\<close> objects and arrays with their capacities, \<open>JsonOps\<close> dotted names, copies,
  comparison and validation, \<open>JsonApi\<close> constructors, typed getters and setters, pretty printing and files.
  \<open>JsonRoundtrip\<close> holds the lemmas that lead to the round trip; \<open>JsonProps\<close> and \<open>JsonApiProps\<close> the properties. In these theories
  a value is a tree and allocation succeeds. \<open>JsonHeap\<close> has the values as blocks of a heap with their parent pointers, and frees them;
  \<open>JsonHeapAdd\<close> and \<open>JsonHeapGrow\<close> the constructors and the growing of objects and arrays, \<open>JsonHeapParse\<close> the parser,
  \<open>JsonHeapOps\<close>, \<open>JsonHeapArray\<close> and \<open>JsonHeapTyped\<close> setting and removing, \<open>JsonHeapCopy\<close> the
  deep copy, where any allocation may be refused. There \<open>jtree\<close> gives the addresses
  of a value's blocks, \<open>holds m bs h\<close> says that the heap \<open>h\<close> is the memory \<open>m\<close> and, apart from it, the blocks \<open>bs\<close>; each
  operation is specified by the blocks it leaves. \<open>JsonHeapProps\<close>: the parser on the heap refines the parser of values and leaks
  nothing, freeing is exact, a setter fails for want of memory only; \<open>JsonHeapCopyProps\<close>: a copy has the same value and shares no block with its source.

  \<^bold>\<open>The HTTP client.\<close> \<open>Buffer\<close> is \<^verbatim>\<open>buffer.c\<close>, \<open>Requests\<close> is \<^verbatim>\<open>requests.c\<close>, \<open>Transport\<close> the send and receive loops and
  the cookie of \<^verbatim>\<open>helpers.c\<close>, \<open>Client\<close> every command of \<^verbatim>\<open>client.c\<close> and its loop. \<open>WebProps\<close> and \<open>SessionProps\<close>:
  framing, delivery in any pieces, whole sessions.

  \<^bold>\<open>Bounds and fuel.\<close> Buffer sizes are those of the sources (\<open>MAX_LEN\<close>, \<open>SERVER_BUFLEN\<close>, \<open>BUFLEN\<close>, \<open>LINELEN\<close>, \<open>URLLEN\<close>).
  The parser runs on the fuel \<open>json_parse_string\<close> gives it, which \<open>parser_terminates\<close> proves enough for every
  input, on the heap as on values. Freeing and copying are cut off (\<open>OutOfFuel\<close>) at as many levels as blocks were ever allocated, which
  \<open>value_free_exact\<close> and \<open>heap_deep_copy\<close> show is enough; \<open>budget\<close> is the number of allocations that are granted. The client's loop runs for a number of rounds that is an argument. The loop over ready descriptors ends because only the listening socket raises its bound. All other recursions terminate by a measure.

  \<^bold>\<open>Assumptions.\<close> The machine is little-endian; outside of the \<open>JsonHeap\<close> theories allocation succeeds. \<^verbatim>\<open>qsort\<close> sorts stably by insertion. What the
  dead variable of the router holds is the parameter \<open>stale\<close>. What system calls return is an argument (\<open>net_sys\<close>, \<open>server_sys\<close>, \<open>round_calls\<close>,
  \<open>sub_sys\<close>, \<open>sub_calls\<close>, \<open>tcp_sys\<close>). The
  conversions between text and doubles are the parameter \<open>numlib\<close>, with the laws that the theorems name; \<^verbatim>\<open>pow\<close>
  is a parameter of the subscriber. In the broker of \<^verbatim>\<open>Tema_2\<close> one \<^verbatim>\<open>recv\<close> returns one message; what the subscriber
  and the client of \<^verbatim>\<open>Tema_3\<close> receive comes in arbitrary pieces.

  \<^bold>\<open>Not modelled.\<close> Socket options and buffering; the global settings of \<^verbatim>\<open>parson.c\<close> (the functions to allocate with and
  whether slashes are escaped; the client sets neither, and the second is an argument of the serializer); the Mininet
  scripts of \<^verbatim>\<open>Tema_1\<close> and the build files.
\<close>

end
